(* ===== verification/Prelude.thy ===== *)
theory Prelude
  imports Main "HOL-Library.Word" "HOL-Library.AList"
begin

text \<open>
  The vocabulary the component theories share.  Go values: bytes and slices (a nil slice is
  not an empty one), \<open>error\<close> values with their rendered text, run-time panics, contexts.
  Go control: a call returns or panics (\<open>go\<close>), a fallible call returns an error or a value
  (\<open>res\<close>).  Go channels used as signals: a store that knows which channels exist and which
  are closed.  Go maps that the code iterates over or counts: association lists with
  distinct keys.
\<close>

named_theorems go_simps "unfolding rules of the Go vocabulary"
named_theorems wf_intros "introduction rules for the well-formedness invariants"

subsection \<open>Bytes, slices and errors\<close>

type_synonym byte = "8 word"
type_synonym bytes = "byte list"

text \<open>A Go \<open>[]byte\<close>: \<open>None\<close> is the nil slice.\<close>

type_synonym slice = "bytes option"

text \<open>\<open>int64\<close> and \<open>time.Duration\<close> (nanoseconds in an \<open>int64\<close>).\<close>

type_synonym int64 = "64 word"
type_synonym duration = int64

definition Second :: duration where
  "Second = 1000000000"

definition Minute :: duration where
  "Minute = 60 * Second"

fun show_nat :: "nat \<Rightarrow> string" where
  "show_nat n =
     (if n < 10 then [char_of (48 + n)] else show_nat (n div 10) @ [char_of (48 + n mod 10)])"

declare show_nat.simps [simp del]

text \<open>
  An \<open>error\<close> value: \<open>New t\<close> is \<open>errors.New\<close> or \<open>fmt.Errorf\<close> without \<open>%w\<close>, with the
  rendered text \<open>t\<close>; \<open>Wrap t e\<close> is \<open>fmt.Errorf\<close> whose text \<open>t\<close> ends in \<open>%w\<close> of \<open>e\<close>.
\<close>

datatype go_error = New string | Wrap string go_error

primrec Error :: "go_error \<Rightarrow> string" where
  "Error (New t) = t"
| "Error (Wrap t e) = t @ Error e"

type_synonym 'a res = "go_error + 'a"

definition is_err :: "'a res \<Rightarrow> bool" where
  "is_err r = (case r of Inl _ \<Rightarrow> True | Inr _ \<Rightarrow> False)"

lemma is_err_simps [simp]: "is_err (Inl e)" "\<not> is_err (Inr v)"
  by (simp_all add: is_err_def)

lemma not_is_errE:
  assumes "\<not> is_err r"
  obtains v where "r = Inr v"
  using assms by (cases r) auto

subsection \<open>Panics\<close>

text \<open>\<open>PanicWith e\<close> is \<open>panic(e)\<close> of the program, \<open>ReflectPanic\<close> a panic of the package \<open>reflect\<close>.\<close>

datatype panic =
  NilDereference | CloseOfClosedChannel | IndexOutOfRange | NegativeWaitGroup | PanicWith go_error | ReflectPanic

datatype 'a go = Ret 'a | Panic panic

definition go_bind :: "'a go \<Rightarrow> ('a \<Rightarrow> 'b go) \<Rightarrow> 'b go" where
  "go_bind m f = (case m of Ret v \<Rightarrow> f v | Panic p \<Rightarrow> Panic p)"

lemma go_bind_simps [simp]:
  "go_bind (Ret v) f = f v"
  "go_bind (Panic p) f = Panic p"
  by (simp_all add: go_bind_def)

lemma go_bind_eq_Ret [simp]:
  "go_bind m f = Ret w \<longleftrightarrow> (\<exists>v. m = Ret v \<and> f v = Ret w)"
  by (cases m) auto

definition returns :: "'a go \<Rightarrow> bool" where
  "returns m = (case m of Ret _ \<Rightarrow> True | Panic _ \<Rightarrow> False)"

lemma returns_simps [simp]: "returns (Ret v)" "\<not> returns (Panic p)"
  by (simp_all add: returns_def)

lemma returnsE:
  assumes "returns m"
  obtains v where "m = Ret v"
  using assms by (cases m) auto

text \<open>Dereferencing a pointer: the nil pointer panics.\<close>

definition deref :: "'a option \<Rightarrow> 'a go" where
  "deref p = (case p of None \<Rightarrow> Panic NilDereference | Some v \<Rightarrow> Ret v)"

lemma deref_simps [simp]:
  "deref None = Panic NilDereference"
  "deref (Some v) = Ret v"
  by (simp_all add: deref_def)

lemma deref_eq_Ret [simp]: "deref p = Ret v \<longleftrightarrow> p = Some v"
  by (cases p) auto

subsection \<open>Signal channels\<close>

text \<open>
  A \<open>chan struct{}\<close> that is only ever closed, never sent on.  Channels are numbered in the
  order \<open>make\<close> creates them; a receive from a channel is possible exactly when it is closed.
\<close>

record chan_store =
  next_chan :: nat
  closed_chans :: "nat set"

definition make_chan :: "chan_store \<Rightarrow> nat \<times> chan_store" where
  "make_chan h = (next_chan h, h\<lparr>next_chan := Suc (next_chan h)\<rparr>)"

definition close_chan :: "nat \<Rightarrow> chan_store \<Rightarrow> chan_store go" where
  "close_chan c h =
     (if c \<in> closed_chans h then Panic CloseOfClosedChannel
      else Ret (h\<lparr>closed_chans := insert c (closed_chans h)\<rparr>))"

abbreviation chan_closed :: "nat \<Rightarrow> chan_store \<Rightarrow> bool" where
  "chan_closed c h \<equiv> c \<in> closed_chans h"

definition empty_chans :: chan_store where
  "empty_chans = \<lparr>next_chan = 0, closed_chans = {}\<rparr>"

definition wf_chans :: "chan_store \<Rightarrow> bool" where
  "wf_chans h = (\<forall>c \<in> closed_chans h. c < next_chan h)"

lemma wf_empty_chans [simp, wf_intros]: "wf_chans empty_chans"
  by (simp add: wf_chans_def empty_chans_def)

lemma wf_make_chan [wf_intros]: "wf_chans h \<Longrightarrow> wf_chans (snd (make_chan h))"
  by (auto simp: wf_chans_def make_chan_def less_Suc_eq)

lemma wf_close_chan [wf_intros]:
  "close_chan c h = Ret h' \<Longrightarrow> c < next_chan h \<Longrightarrow> wf_chans h \<Longrightarrow> wf_chans h'"
  by (auto simp: wf_chans_def close_chan_def split: if_splits)

lemma make_chan_fresh: "wf_chans h \<Longrightarrow> make_chan h = (c, h') \<Longrightarrow> \<not> chan_closed c h'"
  by (auto simp: wf_chans_def make_chan_def)

lemma close_chan_mono: "close_chan c h = Ret h' \<Longrightarrow> closed_chans h \<subseteq> closed_chans h'"
  by (auto simp: close_chan_def split: if_splits)

subsection \<open>Maps the code ranges over\<close>

type_synonym ('k, 'v) gomap = "('k \<times> 'v) list"

abbreviation wf_map :: "('k, 'v) gomap \<Rightarrow> bool" where
  "wf_map m \<equiv> distinct (map fst m)"

lemma wf_map_update [simp, wf_intros]: "wf_map m \<Longrightarrow> wf_map (AList.update k v m)"
  by (rule distinct_update)

lemma wf_map_delete [simp, wf_intros]: "wf_map m \<Longrightarrow> wf_map (AList.delete k m)"
  by (rule distinct_delete)

lemma map_of_update [simp]: "map_of (AList.update k v m) = (map_of m)(k \<mapsto> v)"
  by (rule update_conv')

lemma map_of_delete [simp]: "map_of (AList.delete k m) = (map_of m)(k := None)"
  by (rule delete_conv')

subsection \<open>Runs of a step function\<close>

text \<open>
  A step function says what an event does to a state: \<open>None\<close> when it cannot happen.  A run is the list
  of its events; \<open>runs_within step good s s'\<close> says that some run of good events leads from \<open>s\<close> to \<open>s'\<close>.
\<close>

fun run_steps :: "('e \<Rightarrow> 's \<Rightarrow> 's go option) \<Rightarrow> 'e list \<Rightarrow> 's \<Rightarrow> 's go option" where
  "run_steps step [] s = Some (Ret s)"
| "run_steps step (e # es) s =
     (case step e s of
        None \<Rightarrow> None
      | Some (Panic p) \<Rightarrow> Some (Panic p)
      | Some (Ret s1) \<Rightarrow> run_steps step es s1)"

lemma run_steps_Cons_Ret:
  "run_steps step (e # es) s = Some (Ret s')
     \<longleftrightarrow> (\<exists>s1. step e s = Some (Ret s1) \<and> run_steps step es s1 = Some (Ret s'))"
  by (auto split: option.splits go.splits)

lemma run_steps_append:
  "run_steps step es s = Some (Ret s1) \<Longrightarrow> run_steps step (es @ es') s = run_steps step es' s1"
  by (induction es arbitrary: s) (auto split: option.splits go.splits)

lemma run_steps_keeps:
  assumes "run_steps step es s = Some (Ret s')" "P s"
    and "\<And>e s s'. P s \<Longrightarrow> step e s = Some (Ret s') \<Longrightarrow> P s'"
  shows "P s'"
  using assms(1,2) by (induction es arbitrary: s) (auto split: option.splits go.splits intro: assms(3))

definition runs_within :: "('e \<Rightarrow> 's \<Rightarrow> 's go option) \<Rightarrow> ('e \<Rightarrow> bool) \<Rightarrow> 's \<Rightarrow> 's \<Rightarrow> bool" where
  "runs_within step good s s' \<longleftrightarrow> (\<exists>es. run_steps step es s = Some (Ret s') \<and> (\<forall>e \<in> set es. good e))"

lemma runs_within_refl [simp]: "runs_within step good s s"
  unfolding runs_within_def by (rule exI [of _ "[]"]) simp

lemma runs_within_step: "step e s = Some (Ret s') \<Longrightarrow> good e \<Longrightarrow> runs_within step good s s'"
  unfolding runs_within_def by (rule exI [of _ "[e]"]) simp

lemma runs_within_trans: "runs_within step good s s1 \<Longrightarrow> runs_within step good s1 s2 \<Longrightarrow> runs_within step good s s2"
  unfolding runs_within_def by (metis Un_iff run_steps_append set_append)

lemma runs_within_keeps:
  assumes "runs_within step good s s'" "P s"
    and "\<And>e s s'. P s \<Longrightarrow> step e s = Some (Ret s') \<Longrightarrow> P s'"
  shows "P s'"
proof -
  from assms(1) obtain es where "run_steps step es s = Some (Ret s')" by (auto simp: runs_within_def)
  then show ?thesis using assms(2,3) by (rule run_steps_keeps)
qed

end
