(* ===== verification/Notify.thy ===== *)
theory Notify
  imports Prelude
begin

text \<open>
  Two interfaces that several components implement.

  \<^item> \<open>notifier\<close>: a value that hands out a channel and closes it at its next change.  The
    connectivity state manager of the client and the connections manager of the server both
    work this way, and both are used by taking the channel first, looking at the value and
    only then waiting.  The locale proves what makes that order right: no change is missed.
  \<^item> \<open>one_shot\<close>: an operation that may be called any number of times and closes its channel
    on the first call only (\<open>Event.Fire\<close>, \<open>WebsocketServer.Close\<close>).
\<close>

subsection \<open>Notifiers\<close>

datatype 'e notify_op = Subscribe | Change 'e

text \<open>What other goroutines do to a notifier between two steps of the observer.\<close>

fun run_ops ::
  "('s \<Rightarrow> chan_store \<Rightarrow> nat \<times> 's \<times> chan_store) \<Rightarrow> ('e \<Rightarrow> 's \<Rightarrow> chan_store \<Rightarrow> ('s \<times> chan_store) go)
    \<Rightarrow> 'e notify_op list \<Rightarrow> 's \<Rightarrow> chan_store \<Rightarrow> ('s \<times> chan_store) go"
where
  "run_ops get chg [] s h = Ret (s, h)"
| "run_ops get chg (Subscribe # xs) s h =
     (case get s h of (_, s1, h1) \<Rightarrow> run_ops get chg xs s1 h1)"
| "run_ops get chg (Change e # xs) s h =
     go_bind (chg e s h) (\<lambda>(s1, h1). run_ops get chg xs s1 h1)"

locale notifier =
  fixes chan_of :: "'s \<Rightarrow> nat option"
    and get_chan :: "'s \<Rightarrow> chan_store \<Rightarrow> nat \<times> 's \<times> chan_store"
    and change :: "'e \<Rightarrow> 's \<Rightarrow> chan_store \<Rightarrow> ('s \<times> chan_store) go"
    and observe :: "'s \<Rightarrow> 'o"
  assumes get_chan_some: "chan_of s = Some c \<Longrightarrow> get_chan s h = (c, s, h)"
    and get_chan_none: "chan_of s = None \<Longrightarrow> get_chan s h = (c, s', h') \<Longrightarrow>
      make_chan h = (c, h') \<and> chan_of s' = Some c \<and> observe s' = observe s"
    and change_cases: "(change e s h = Ret (s, h)) \<or>
      (\<exists>s'. chan_of s' = None \<and>
        change e s h = (case chan_of s of None \<Rightarrow> Ret (s', h)
                        | Some c \<Rightarrow> go_bind (close_chan c h) (\<lambda>h'. Ret (s', h'))))"
begin

definition live :: "'s \<Rightarrow> chan_store \<Rightarrow> bool" where
  "live s h \<longleftrightarrow> wf_chans h \<and> (\<forall>c. chan_of s = Some c \<longrightarrow> c < next_chan h \<and> \<not> chan_closed c h)"

lemma get_chan_live:
  assumes "live s h" "get_chan s h = (c, s', h')"
  shows "live s' h' \<and> chan_of s' = Some c \<and> observe s' = observe s \<and> closed_chans h' = closed_chans h"
proof (cases "chan_of s")
  case None
  with assms(2) get_chan_none have "make_chan h = (c, h')" "chan_of s' = Some c" "observe s' = observe s"
    by blast+
  with assms(1) show ?thesis
    by (auto simp: live_def make_chan_def wf_chans_def less_Suc_eq)
next
  case (Some d)
  with assms show ?thesis by (auto simp: get_chan_some)
qed

lemma change_live:
  assumes "live s h"
  obtains s' h' where "change e s h = Ret (s', h')" "live s' h'"
    and "s' = s \<and> h' = h \<or> chan_of s' = None \<and>
         closed_chans h' = closed_chans h \<union> set_option (chan_of s)"
proof (rule disjE [OF change_cases [of e s h]], goal_cases)
  case 1
  with assms that show ?case by blast
next
  case 2
  then obtain s' where none: "chan_of s' = None"
    and eq: "change e s h = (case chan_of s of None \<Rightarrow> Ret (s', h)
               | Some c \<Rightarrow> go_bind (close_chan c h) (\<lambda>h'. Ret (s', h')))"
    by blast
  show ?case
  proof (cases "chan_of s")
    case None
    with assms none eq show ?thesis by (intro that [of s' h]) (auto simp: live_def)
  next
    case (Some c)
    define h' where "h' = h\<lparr>closed_chans := insert c (closed_chans h)\<rparr>"
    from Some assms have "close_chan c h = Ret h'" "live s' h'"
      using none by (auto simp: live_def close_chan_def h'_def wf_chans_def)
    with Some eq none show ?thesis by (intro that [of s' h']) (auto simp: h'_def)
  qed
qed

text \<open>Changes never close a channel twice, whatever the interleaving.\<close>

lemma run_ops_live:
  assumes "live s h"
  shows "\<exists>s' h'. run_ops get_chan change xs s h = Ret (s', h') \<and> live s' h'"
  using assms
proof (induction xs arbitrary: s h)
  case Nil
  then show ?case by simp
next
  case (Cons x xs)
  show ?case
  proof (cases x)
    case Subscribe
    obtain c s1 h1 where g: "get_chan s h = (c, s1, h1)" by (cases "get_chan s h")
    with get_chan_live [OF Cons.prems] have "live s1 h1" by simp
    with Cons.IH [of s1 h1] Subscribe g show ?thesis by simp
  next
    case (Change e)
    obtain s1 h1 where "change e s h = Ret (s1, h1)" "live s1 h1"
      by (rule change_live [OF Cons.prems])
    then show ?thesis using Change Cons.IH by simp
  qed
qed

lemma run_ops_closed_mono:
  assumes "live s h" "run_ops get_chan change xs s h = Ret (s', h')"
  shows "closed_chans h \<subseteq> closed_chans h'"
  using assms
proof (induction xs arbitrary: s h)
  case Nil
  then show ?case by simp
next
  case (Cons x xs)
  show ?case
  proof (cases x)
    case Subscribe
    obtain c s1 h1 where g: "get_chan s h = (c, s1, h1)" by (cases "get_chan s h")
    with get_chan_live [OF Cons.prems(1)] have "live s1 h1" "closed_chans h1 = closed_chans h"
      by auto
    with Cons.IH [of s1 h1] Cons.prems(2) Subscribe g show ?thesis by simp
  next
    case (Change e)
    obtain s1 h1 where "change e s h = Ret (s1, h1)" "live s1 h1" "closed_chans h \<subseteq> closed_chans h1"
      by (rule change_live [OF Cons.prems(1), of e]) auto
    with Cons.IH [of s1 h1] Cons.prems(2) Change show ?thesis by simp
  qed
qed

text \<open>
  A channel that is still the notifier's own stays open only while nothing observable changes:
  the observer that waits on it is woken by the first change.
\<close>

lemma subscribed_wakeup:
  assumes "live s h" "chan_of s = Some c" "run_ops get_chan change xs s h = Ret (s', h')"
  shows "chan_closed c h' \<or> (chan_of s' = Some c \<and> observe s' = observe s)"
  using assms
proof (induction xs arbitrary: s h)
  case Nil
  then show ?case by simp
next
  case (Cons x xs)
  show ?case
  proof (cases x)
    case Subscribe
    with Cons show ?thesis by (simp add: get_chan_some)
  next
    case (Change e)
    show ?thesis
    proof (rule change_live [OF Cons.prems(1), of e])
      fix s1 h1
      assume c1: "change e s h = Ret (s1, h1)" and l1: "live s1 h1"
        and d: "s1 = s \<and> h1 = h \<or> chan_of s1 = None \<and> closed_chans h1 = closed_chans h \<union> set_option (chan_of s)"
      from Change c1 Cons.prems(3) have r: "run_ops get_chan change xs s1 h1 = Ret (s', h')"
        by simp
      from d show ?thesis
      proof
        assume "s1 = s \<and> h1 = h"
        with Cons.IH [of s h] Cons.prems r show ?thesis by simp
      next
        assume "chan_of s1 = None \<and> closed_chans h1 = closed_chans h \<union> set_option (chan_of s)"
        with Cons.prems(2) run_ops_closed_mono [OF l1 r] show ?thesis by auto
      qed
    qed
  qed
qed

lemma no_lost_wakeup:
  assumes "live s h" "get_chan s h = (c, s1, h1)"
    and "run_ops get_chan change xs s1 h1 = Ret (s', h')"
    and "observe s' \<noteq> observe s"
  shows "chan_closed c h'"
  using subscribed_wakeup [OF _ _ assms(3)] get_chan_live [OF assms(1,2)] assms(4) by auto

lemma subscribe_open:
  assumes "live s h" "get_chan s h = (c, s1, h1)"
  shows "\<not> chan_closed c h1"
  using get_chan_live [OF assms] by (auto simp: live_def)

end

subsection \<open>One-shot operations\<close>

locale one_shot =
  fixes shoot :: "'s \<Rightarrow> 's go"
    and shot :: "'s \<Rightarrow> bool"
    and valid :: "'s \<Rightarrow> bool"
  assumes shoot_valid: "valid s \<Longrightarrow> \<exists>s'. shoot s = Ret s' \<and> valid s' \<and> shot s'"
    and shoot_again: "valid s \<Longrightarrow> shot s \<Longrightarrow> shoot s = Ret s"
begin

primrec shoot_n :: "nat \<Rightarrow> 's \<Rightarrow> 's go" where
  "shoot_n 0 s = Ret s"
| "shoot_n (Suc n) s = go_bind (shoot s) (shoot_n n)"

lemma shoot_n_again: "valid s \<Longrightarrow> shot s \<Longrightarrow> shoot_n n s = Ret s"
  by (induction n) (simp_all add: shoot_again)

lemma shoot_n_once: "valid s \<Longrightarrow> shoot_n (Suc n) s = shoot s"
  using shoot_valid [of s] shoot_n_again by auto

end

end
