(* ===== verification/Event.thy ===== *)
theory Event
  imports Notify
begin

text \<open>
  \<open>internal/wsrpcsync/event.go\<close>: a one-time event.  \<open>fired\<close> is the atomic flag, \<open>c\<close> the
  signalling channel (closed or not) and \<open>o\<close> the \<open>sync.Once\<close> (used or not).
\<close>

record Event =
  ev_fired :: "32 word"
  ev_c :: bool
  ev_o :: bool

definition NewEvent :: Event where
  "NewEvent = \<lparr>ev_fired = 0, ev_c = False, ev_o = False\<rparr>"

text \<open>\<open>Fire\<close>: the body of \<open>e.o.Do\<close> runs on the first call only; closing \<open>e.c\<close> again would panic.\<close>

definition Fire :: "Event \<Rightarrow> (bool \<times> Event) go" where
  "Fire e =
     (if ev_o e then Ret (False, e)
      else let e1 = e\<lparr>ev_o := True, ev_fired := 1\<rparr>
           in if ev_c e1 then Panic CloseOfClosedChannel
              else Ret (True, e1\<lparr>ev_c := True\<rparr>))"

text \<open>\<open>Done\<close>: whether a receive from the returned channel is possible.\<close>

definition Done :: "Event \<Rightarrow> bool" where
  "Done e = ev_c e"

definition HasFired :: "Event \<Rightarrow> bool" where
  "HasFired e \<longleftrightarrow> ev_fired e = 1"

definition wf_event :: "Event \<Rightarrow> bool" where
  "wf_event e \<longleftrightarrow> (ev_c e \<longleftrightarrow> ev_o e) \<and> ev_fired e = (if ev_o e then 1 else 0)"

lemma wf_NewEvent [simp, wf_intros]: "wf_event NewEvent"
  by (simp add: wf_event_def NewEvent_def)

lemma Fire_wf:
  assumes "wf_event e"
  obtains e' where "Fire e = Ret (\<not> HasFired e, e')" "wf_event e'" "HasFired e'"
  using assms by (auto simp: Fire_def wf_event_def HasFired_def Let_def)

text \<open>\<open>Fire\<close> is a one-shot operation: it never closes \<open>e.c\<close> twice.\<close>

interpretation event: one_shot "\<lambda>e. go_bind (Fire e) (\<lambda>(_, e'). Ret e')" Done wf_event
proof unfold_locales
  fix e assume "wf_event e"
  then show "\<exists>e'. go_bind (Fire e) (\<lambda>(_, e'). Ret e') = Ret e' \<and> wf_event e' \<and> Done e'"
    by (rule Fire_wf) (auto simp: wf_event_def HasFired_def Done_def split: if_splits)
next
  fix e assume "wf_event e" "Done e"
  then show "go_bind (Fire e) (\<lambda>(_, e'). Ret e') = Ret e"
    by (simp add: Fire_def wf_event_def Done_def)
qed

lemma Done_iff_HasFired: "wf_event e \<Longrightarrow> Done e \<longleftrightarrow> HasFired e"
  by (auto simp: wf_event_def Done_def HasFired_def)

text \<open>The results of calling \<open>Fire\<close> \<open>n\<close> times.\<close>

fun fire_all :: "nat \<Rightarrow> Event \<Rightarrow> (bool list \<times> Event) go" where
  "fire_all 0 e = Ret ([], e)"
| "fire_all (Suc n) e =
     go_bind (Fire e) (\<lambda>(r, e1). go_bind (fire_all n e1) (\<lambda>(rs, e2). Ret (r # rs, e2)))"

lemma fire_all_fired:
  assumes "wf_event e" "HasFired e"
  shows "fire_all n e = Ret (replicate n False, e)"
proof -
  have "Fire e = Ret (False, e)"
    using assms by (auto simp: Fire_def wf_event_def HasFired_def split: if_splits)
  then show ?thesis by (induction n) simp_all
qed

lemma Fire_new: "\<exists>e. Fire NewEvent = Ret (True, e) \<and> wf_event e \<and> HasFired e"
  by (simp add: Fire_def NewEvent_def wf_event_def HasFired_def Let_def)

text \<open>
  Fire is safe to call any number of times: only the first of \<open>n + 1\<close> calls reports that
  it closed the channel, none panics, and afterwards the event has fired and \<open>Done\<close> is closed.
\<close>

lemma fire_exactly_once:
  "\<exists>e. fire_all (Suc n) NewEvent = Ret (True # replicate n False, e) \<and> HasFired e \<and> Done e"
proof -
  obtain e where e: "Fire NewEvent = Ret (True, e)" "wf_event e" "HasFired e"
    using Fire_new by blast
  then have "fire_all n e = Ret (replicate n False, e)" by (simp add: fire_all_fired)
  with e show ?thesis by (simp add: Done_iff_HasFired)
qed

end
