(* ===== verification/Connectivity.thy ===== *)
theory Connectivity
  imports Notify
begin

text \<open>
  \<open>connectivity/connectivity.go\<close> and the connectivity state manager of \<open>client.go\<close>
  (\<open>connectivityStateManager\<close>, \<open>WaitForStateChange\<close>, \<open>WaitForReady\<close>, \<open>GetState\<close>).
  The manager's methods hold its mutex from start to end, so each is one step; what other
  goroutines do between two of them is a list of operations given to the waiting functions.
\<close>

datatype State = Idle | Connecting | Ready | TransientFailure | Shutdown

lemma UNIV_State: "UNIV = {Idle, Connecting, Ready, TransientFailure, Shutdown}"
  using State.exhaust by auto

text \<open>The \<open>iota\<close> values of the constants.\<close>

primrec state_num :: "State \<Rightarrow> int" where
  "state_num Idle = 0"
| "state_num Connecting = 1"
| "state_num Ready = 2"
| "state_num TransientFailure = 3"
| "state_num Shutdown = 4"

definition State_String :: "int \<Rightarrow> string" where
  "State_String s =
     (if s = state_num Idle then ''IDLE''
      else if s = state_num Connecting then ''CONNECTING''
      else if s = state_num Ready then ''READY''
      else if s = state_num TransientFailure then ''TRANSIENT_FAILURE''
      else if s = state_num Shutdown then ''SHUTDOWN''
      else ''INVALID'')"

text \<open>
  \<open>String\<close> tells the five states apart, and only numbers that are no state print as INVALID.
\<close>

lemma State_String_injective:
  "(State_String m = State_String n \<longleftrightarrow>
      m = n \<or> (State_String m = ''INVALID'' \<and> State_String n = ''INVALID''))
   \<and> (State_String n = ''INVALID'' \<longleftrightarrow> n \<notin> range state_num)"
proof -
  have r: "range state_num = {0, 1, 2, 3, 4}"
    by (simp add: UNIV_State)
  show ?thesis
    unfolding r by (simp add: State_String_def)
qed

subsection \<open>The connectivity state manager\<close>

record connectivityStateManager =
  csm_state :: State
  csm_notifyChan :: "nat option"

text \<open>The zero value \<open>&connectivityStateManager{}\<close>.\<close>

definition new_csm :: connectivityStateManager where
  "new_csm = \<lparr>csm_state = Idle, csm_notifyChan = None\<rparr>"

definition updateState ::
  "State \<Rightarrow> connectivityStateManager \<Rightarrow> chan_store \<Rightarrow> (connectivityStateManager \<times> chan_store) go"
where
  "updateState st csm h =
     (if csm_state csm = st then Ret (csm, h)
      else let csm1 = csm\<lparr>csm_state := st\<rparr>
           in case csm_notifyChan csm1 of
                None \<Rightarrow> Ret (csm1, h)
              | Some c \<Rightarrow> go_bind (close_chan c h) (\<lambda>h1. Ret (csm1\<lparr>csm_notifyChan := None\<rparr>, h1)))"

definition getState :: "connectivityStateManager \<Rightarrow> State" where
  "getState csm = csm_state csm"

definition getNotifyChan ::
  "connectivityStateManager \<Rightarrow> chan_store \<Rightarrow> nat \<times> connectivityStateManager \<times> chan_store"
where
  "getNotifyChan csm h =
     (case csm_notifyChan csm of
        None \<Rightarrow> (case make_chan h of (c, h1) \<Rightarrow> (c, csm\<lparr>csm_notifyChan := Some c\<rparr>, h1))
      | Some c \<Rightarrow> (c, csm, h))"

interpretation csm: notifier csm_notifyChan getNotifyChan updateState csm_state
proof unfold_locales
  fix st csm h
  show "updateState st csm h = Ret (csm, h) \<or>
    (\<exists>s'. csm_notifyChan s' = None \<and>
       updateState st csm h = (case csm_notifyChan csm of None \<Rightarrow> Ret (s', h)
         | Some c \<Rightarrow> go_bind (close_chan c h) (\<lambda>h'. Ret (s', h'))))"
  proof (cases "csm_state csm = st")
    case True
    then show ?thesis by (simp add: updateState_def)
  next
    case False
    then show ?thesis
      by (intro disjI2 exI [of _ "csm\<lparr>csm_state := st, csm_notifyChan := None\<rparr>"])
        (auto simp: updateState_def Let_def split: option.split)
  qed
qed (auto simp: getNotifyChan_def split: option.splits prod.splits)

abbreviation csm_ok :: "connectivityStateManager \<Rightarrow> chan_store \<Rightarrow> bool" where
  "csm_ok \<equiv> csm.live"

abbreviation run_csm ::
  "State notify_op list \<Rightarrow> connectivityStateManager \<Rightarrow> chan_store \<Rightarrow> (connectivityStateManager \<times> chan_store) go"
where
  "run_csm \<equiv> run_ops getNotifyChan updateState"

lemma csm_ok_new [simp, wf_intros]: "wf_chans h \<Longrightarrow> csm_ok new_csm h"
  by (simp add: csm.live_def new_csm_def)

lemmas csm_live_facts = csm.get_chan_live csm.run_ops_live csm.subscribed_wakeup csm.no_lost_wakeup

subsection \<open>Waiting for a state change\<close>

text \<open>
  The two ways out of the \<open>select\<close> of the waiting functions, and where a wait stands:
  returned, blocked in the \<open>select\<close>, or woken and not yet run again.
\<close>

datatype wait_branch = CtxDone | Notified

datatype wait_result = Returned bool | Blocked | Woken

text \<open>
  \<open>ClientConn.WaitForStateChange\<close>.  \<open>env1\<close> runs between taking the channel and reading the
  state, \<open>env2\<close> between reading the state and the moment at which \<open>select\<close> tries the branch
  \<open>br\<close>; \<open>ctx_done\<close> says whether the context is done at that moment.
\<close>

definition WaitForStateChange ::
  "State \<Rightarrow> State notify_op list \<Rightarrow> State notify_op list \<Rightarrow> bool \<Rightarrow> wait_branch
    \<Rightarrow> connectivityStateManager \<Rightarrow> chan_store \<Rightarrow> (wait_result \<times> connectivityStateManager \<times> chan_store) go"
where
  "WaitForStateChange sourceState env1 env2 ctx_done br csm h =
     (case getNotifyChan csm h of (ch, csm1, h1) \<Rightarrow>
        go_bind (run_csm env1 csm1 h1) (\<lambda>(csm2, h2).
          if getState csm2 \<noteq> sourceState then Ret (Returned True, csm2, h2)
          else go_bind (run_csm env2 csm2 h2) (\<lambda>(csm3, h3).
            case br of
              CtxDone \<Rightarrow> Ret (if ctx_done then Returned False else Blocked, csm3, h3)
            | Notified \<Rightarrow> Ret (if chan_closed ch h3 then Returned True else Blocked, csm3, h3))))"

text \<open>
  \<open>ClientConn.WaitForReady\<close>.  Each wake-up starts the function again; a round holds what the
  environment does in one run of it, as above.
\<close>

type_synonym wait_round = "State notify_op list \<times> State notify_op list \<times> bool \<times> wait_branch"

fun WaitForReady ::
  "wait_round list \<Rightarrow> connectivityStateManager \<Rightarrow> chan_store
    \<Rightarrow> (wait_result \<times> connectivityStateManager \<times> chan_store) go"
where
  "WaitForReady [] csm h = Ret (Woken, csm, h)"
| "WaitForReady ((env1, env2, ctx_done, br) # rounds) csm h =
     (case getNotifyChan csm h of (ch, csm1, h1) \<Rightarrow>
        go_bind (run_csm env1 csm1 h1) (\<lambda>(csm2, h2).
          case getState csm2 of
            Ready \<Rightarrow> Ret (Returned True, csm2, h2)
          | Shutdown \<Rightarrow> Ret (Returned False, csm2, h2)
          | _ \<Rightarrow> go_bind (run_csm env2 csm2 h2) (\<lambda>(csm3, h3).
              case br of
                CtxDone \<Rightarrow> Ret (if ctx_done then Returned False else Blocked, csm3, h3)
              | Notified \<Rightarrow>
                  if chan_closed ch h3 then WaitForReady rounds csm3 h3
                  else Ret (Blocked, csm3, h3))))"

text \<open>What one wait sees: the channel taken first is closed, or the state is the one read.\<close>

lemma csm_wait_step:
  assumes "csm_ok csm h" "getNotifyChan csm h = (ch, csm1, h1)"
  obtains csm2 h2 csm3 h3 where
    "run_csm env1 csm1 h1 = Ret (csm2, h2)" "csm_ok csm2 h2"
    "run_csm env2 csm2 h2 = Ret (csm3, h3)" "csm_ok csm3 h3"
    "chan_closed ch h3 \<or> csm_state csm3 = csm_state csm2"
proof -
  from csm.get_chan_live [OF assms] have l1: "csm_ok csm1 h1" and c1: "csm_notifyChan csm1 = Some ch"
    by simp_all
  obtain csm2 h2 where r1: "run_csm env1 csm1 h1 = Ret (csm2, h2)" "csm_ok csm2 h2"
    using csm.run_ops_live [OF l1] by blast
  obtain csm3 h3 where r2: "run_csm env2 csm2 h2 = Ret (csm3, h3)" "csm_ok csm3 h3"
    using csm.run_ops_live [OF r1(2)] by blast
  have "chan_closed ch h3 \<or> csm_state csm3 = csm_state csm2"
    using csm.subscribed_wakeup [OF l1 c1 r1(1)] csm.run_ops_closed_mono [OF r1(2) r2(1)]
      csm.subscribed_wakeup [OF r1(2) _ r2(1), of ch] by blast
  with r1 r2 that show ?thesis by blast
qed

lemma WaitForStateChange_outcome:
  assumes "csm_ok csm h"
  obtains r csm' h' where "WaitForStateChange src env1 env2 d br csm h = Ret (r, csm', h')" "csm_ok csm' h'"
    "r \<in> {Returned True, Returned False, Blocked}" "r = Returned False \<Longrightarrow> br = CtxDone \<and> d"
    "r = Blocked \<Longrightarrow> br = Notified \<Longrightarrow> csm_state csm' = src"
proof -
  obtain ch csm1 h1 where g: "getNotifyChan csm h = (ch, csm1, h1)"
    by (cases "getNotifyChan csm h")
  show ?thesis
  proof (rule csm_wait_step [OF assms g, of env1 env2])
    fix csm2 h2 csm3 h3
    assume r: "run_csm env1 csm1 h1 = Ret (csm2, h2)" "csm_ok csm2 h2"
      "run_csm env2 csm2 h2 = Ret (csm3, h3)" "csm_ok csm3 h3"
      "chan_closed ch h3 \<or> csm_state csm3 = csm_state csm2"
    show ?thesis
    proof (cases "csm_state csm2 = src")
      case True
      with r g show ?thesis
        by (cases br; cases d; cases "chan_closed ch h3")
          (auto simp: WaitForStateChange_def getState_def intro!: that)
    next
      case False
      with r g show ?thesis by (intro that [of "Returned True" csm2 h2]) (auto simp: WaitForStateChange_def getState_def)
    qed
  qed
qed

text \<open>
  C15.  \<open>WaitForStateChange\<close> never misses a change: whatever other goroutines do while it
  runs, it does not panic, and if it is still in its \<open>select\<close> while the state differs from
  the source state then the notification has arrived and it returns true.
\<close>

theorem WaitForStateChange_no_lost_wakeup:
  assumes "csm_ok csm h"
  shows "\<exists>r csm' h'. WaitForStateChange src env1 env2 ctx_done Notified csm h = Ret (r, csm', h')
    \<and> csm_ok csm' h' \<and> (r = Returned True \<or> r = Blocked)
    \<and> (csm_state csm' \<noteq> src \<longrightarrow> r = Returned True)"
  by (rule WaitForStateChange_outcome [OF assms, of src env1 env2 ctx_done Notified]) auto

theorem WaitForStateChange_no_lost_wakeup_witness:
  "csm_ok new_csm empty_chans
   \<and> (\<exists>r csm' h'. WaitForStateChange Idle [] [Change Connecting] False Notified new_csm empty_chans
        = Ret (r, csm', h') \<and> csm_state csm' = Connecting \<and> r = Returned True)"
proof -
  have ok: "csm_ok new_csm empty_chans" by simp
  have st: "\<exists>r csm' h'. WaitForStateChange Idle [] [Change Connecting] False Notified new_csm empty_chans
        = Ret (r, csm', h') \<and> csm_state csm' = Connecting"
    by (simp add: WaitForStateChange_def getNotifyChan_def updateState_def new_csm_def empty_chans_def
        make_chan_def close_chan_def getState_def)
  show ?thesis
    using ok st WaitForStateChange_no_lost_wakeup [OF ok, of Idle "[]" "[Change Connecting]" False] by auto
qed

lemma WaitForReady_step:
  assumes "csm_ok csm h"
  obtains (now) csm2 h2 where "csm_state csm2 = Ready"
      "WaitForReady ((env1, env2, d, br) # rs) csm h = Ret (Returned True, csm2, h2)"
  | (down) csm2 h2 where "csm_state csm2 = Shutdown"
      "WaitForReady ((env1, env2, d, br) # rs) csm h = Ret (Returned False, csm2, h2)"
  | (ctx) csm3 h3 where "br = CtxDone"
      "WaitForReady ((env1, env2, d, br) # rs) csm h = Ret (if d then Returned False else Blocked, csm3, h3)"
  | (blocked) csm3 h3 where "br = Notified" "csm_state csm3 \<notin> {Ready, Shutdown}"
      "WaitForReady ((env1, env2, d, br) # rs) csm h = Ret (Blocked, csm3, h3)"
  | (again) csm3 h3 where "br = Notified" "csm_ok csm3 h3"
      "WaitForReady ((env1, env2, d, br) # rs) csm h = WaitForReady rs csm3 h3"
proof -
  obtain ch csm1 h1 where g: "getNotifyChan csm h = (ch, csm1, h1)"
    by (cases "getNotifyChan csm h")
  show ?thesis
  proof (rule csm_wait_step [OF assms g, of env1 env2])
    fix csm2 h2 csm3 h3
    assume r: "run_csm env1 csm1 h1 = Ret (csm2, h2)" "csm_ok csm2 h2"
      "run_csm env2 csm2 h2 = Ret (csm3, h3)" "csm_ok csm3 h3"
      "chan_closed ch h3 \<or> csm_state csm3 = csm_state csm2"
    show ?thesis
    proof (cases "csm_state csm2 \<in> {Ready, Shutdown}")
      case True
      with r g now down show ?thesis by (auto simp: getState_def)
    next
      case False
      with r(1,3) g have eq: "WaitForReady ((env1, env2, d, br) # rs) csm h =
        (case br of CtxDone \<Rightarrow> Ret (if d then Returned False else Blocked, csm3, h3)
         | Notified \<Rightarrow> if chan_closed ch h3 then WaitForReady rs csm3 h3 else Ret (Blocked, csm3, h3))"
        by (auto simp: getState_def split: State.split)
      show ?thesis
      proof (cases br)
        case CtxDone
        with eq ctx show ?thesis by simp
      next
        case Notified
        show ?thesis
        proof (cases "chan_closed ch h3")
          case True
          with eq Notified r(4) show ?thesis by (intro again [of csm3 h3]) simp_all
        next
          case still: False
          with r(5) False have "csm_state csm3 \<notin> {Ready, Shutdown}" by simp
          with eq Notified still show ?thesis by (intro blocked [of csm3 h3]) simp_all
        qed
      qed
    qed
  qed
qed



end
