(* ===== verification/Credentials.thy ===== *)
theory Credentials
  imports Prelude
begin

text \<open>
  \<open>credentials/tls.go\<close> and \<open>credentials/credentials.go\<close>: key validation, the list of
  registered public keys, the peer-certificate check and the TLS configurations built on it.

  A \<open>*PublicKeys\<close> is an address of \<open>pk_store\<close>: the TLS configuration captures the pointer
  (in the closure \<open>VerifyPeerCertificate\<close> returns), the transport credentials keep the same
  pointer, and \<open>Replace\<close> writes through it.  \<open>crypto/x509\<close> is not part of the repository:
  \<open>x509.ParseCertificate\<close> and \<open>x509.CreateCertificate\<close> are the parameters \<open>parse\<close> and
  \<open>create\<close>.  \<open>subtle.ConstantTimeCompare\<close>, \<open>copy\<close> and \<open>%x\<close> are modelled as the standard
  library defines them.
\<close>

unbundle bit_operations_syntax

definition PublicKeySize :: nat where
  "PublicKeySize = 32"

definition PrivateKeySize :: nat where
  "PrivateKeySize = 64"

text \<open>A \<open>[32]byte\<close>; \<open>is_static\<close> is what the array type guarantees.\<close>

type_synonym static_key = bytes

definition is_static :: "static_key \<Rightarrow> bool" where
  "is_static k \<longleftrightarrow> length k = PublicKeySize"

definition hex_digit :: "nat \<Rightarrow> char" where
  "hex_digit n = ''0123456789abcdef'' ! n"

definition hex_bytes :: "bytes \<Rightarrow> string" where
  "hex_bytes bs = concat (map (\<lambda>b. [hex_digit (unat b div 16), hex_digit (unat b mod 16)]) bs)"

definition StaticSizedPublicKey_String :: "static_key \<Rightarrow> string" where
  "StaticSizedPublicKey_String p = hex_bytes p"

subsection \<open>Standard library\<close>

text \<open>\<open>subtle.ConstantTimeCompare\<close>: 1 for equal slices, 0 otherwise, without an early exit.\<close>

definition ConstantTimeCompare :: "bytes \<Rightarrow> bytes \<Rightarrow> int" where
  "ConstantTimeCompare x y =
     (if length x \<noteq> length y then 0
      else if fold (\<lambda>(a, b) v. v OR (a XOR b)) (zip x y) 0 = 0 then 1 else 0)"

text \<open>\<open>copy(dst, src)\<close>: the number of bytes copied and the new contents of \<open>dst\<close>.\<close>

definition copy :: "bytes \<Rightarrow> bytes \<Rightarrow> nat \<times> bytes" where
  "copy dst src =
     (let n = min (length dst) (length src) in (n, take n src @ drop n dst))"

lemma fold_or_xor_zero:
  fixes v :: byte
  assumes "length x = length y"
  shows "fold (\<lambda>(a, b) v. v OR (a XOR b)) (zip x y) v = 0 \<longleftrightarrow> v = 0 \<and> x = y"
  using assms
proof (induction x y arbitrary: v rule: list_induct2)
  case Nil
  then show ?case by simp
next
  case (Cons a x b y)
  have "v OR (a XOR b) = 0 \<longleftrightarrow> v = 0 \<and> a = b"
    by (auto simp: bit_eq_iff bit_or_iff bit_xor_iff)
  with Cons.IH show ?case by auto
qed

lemma ConstantTimeCompare_pos [simp]: "0 < ConstantTimeCompare x y \<longleftrightarrow> x = y"
  by (auto simp: ConstantTimeCompare_def fold_or_xor_zero)

subsection \<open>Keys\<close>

definition bad_length :: "nat \<Rightarrow> nat \<Rightarrow> go_error" where
  "bad_length n want = New (''invalid key length: '' @ show_nat n @ '', expected: '' @ show_nat want)"

record PrivateKey =
  priv_key :: bytes

definition ValidPrivateKeyFromEd25519 :: "bytes \<Rightarrow> PrivateKey res" where
  "ValidPrivateKeyFromEd25519 key =
     (if length key \<noteq> PrivateKeySize then Inl (bad_length (length key) PrivateKeySize)
      else Inr \<lparr>priv_key = key\<rparr>)"

text \<open>The \<open>PublicKeys\<close> objects: the next free address and the \<open>keys\<close> field of each.\<close>

record pk_store =
  pk_next :: nat
  pk_keys :: "nat \<Rightarrow> bytes list"

fun check_key_lengths :: "bytes list \<Rightarrow> go_error option" where
  "check_key_lengths [] = None"
| "check_key_lengths (key # keys) =
     (if length key \<noteq> PublicKeySize then Some (bad_length (length key) PublicKeySize)
      else check_key_lengths keys)"

definition ValidPublicKeysFromEd25519 :: "bytes list \<Rightarrow> pk_store \<Rightarrow> (nat \<times> pk_store) res" where
  "ValidPublicKeysFromEd25519 keys st =
     (case check_key_lengths keys of
        Some e \<Rightarrow> Inl e
      | None \<Rightarrow> Inr (pk_next st,
          st\<lparr>pk_next := Suc (pk_next st), pk_keys := (pk_keys st)(pk_next st := keys)\<rparr>))"

definition PublicKeys_Keys :: "pk_store \<Rightarrow> nat \<Rightarrow> bytes list" where
  "PublicKeys_Keys st r = pk_keys st r"

definition PublicKeys_Replace :: "nat \<Rightarrow> nat \<Rightarrow> pk_store \<Rightarrow> pk_store" where
  "PublicKeys_Replace r pubs st = st\<lparr>pk_keys := (pk_keys st)(r := pk_keys st pubs)\<rparr>"

text \<open>The loop of \<open>isValidPublicKey\<close> over \<open>r.keys\<close>.\<close>

fun any_equal_key :: "bytes \<Rightarrow> bytes list \<Rightarrow> bool" where
  "any_equal_key pub [] = False"
| "any_equal_key pub (vpub # vpubs) =
     (if ConstantTimeCompare pub vpub > 0 then True else any_equal_key pub vpubs)"

definition isValidPublicKey :: "pk_store \<Rightarrow> nat \<Rightarrow> bytes \<Rightarrow> bool" where
  "isValidPublicKey st r pub = any_equal_key pub (pk_keys st r)"

definition ToStaticallySizedPublicKey :: "bytes \<Rightarrow> static_key res" where
  "ToStaticallySizedPublicKey pubKey =
     (case copy (replicate PublicKeySize 0) pubKey of (n, result) \<Rightarrow>
        if PublicKeySize \<noteq> n then Inl (New ''copying public key failed'') else Inr result)"

lemma check_key_lengths_None [simp]:
  "check_key_lengths keys = None \<longleftrightarrow> (\<forall>k \<in> set keys. length k = PublicKeySize)"
  by (induction keys) auto

lemma any_equal_key_iff [simp]: "any_equal_key pub keys \<longleftrightarrow> pub \<in> set keys"
  by (induction keys) auto

lemma ToStaticallySizedPublicKey_eq:
  "ToStaticallySizedPublicKey k =
     (if length k < PublicKeySize then Inl (New ''copying public key failed'')
      else Inr (take PublicKeySize k))"
  by (simp add: ToStaticallySizedPublicKey_def copy_def Let_def min_def)

lemma ToStaticallySizedPublicKey_static [simp]:
  "is_static k \<Longrightarrow> ToStaticallySizedPublicKey k = Inr k"
  by (simp add: ToStaticallySizedPublicKey_eq is_static_def)

lemma ToStaticallySizedPublicKey_is_static:
  "ToStaticallySizedPublicKey k = Inr k' \<Longrightarrow> is_static k'"
  by (auto simp: ToStaticallySizedPublicKey_eq is_static_def split: if_splits)

lemma ValidPublicKeys_cases:
  "ValidPublicKeysFromEd25519 keys st = Inr (r, st') \<longleftrightarrow>
     (\<forall>k \<in> set keys. is_static k) \<and> r = pk_next st \<and>
     st' = st\<lparr>pk_next := Suc (pk_next st), pk_keys := (pk_keys st)(pk_next st := keys)\<rparr>"
  by (auto simp: ValidPublicKeysFromEd25519_def is_static_def
      simp flip: check_key_lengths_None split: option.splits)

subsection \<open>Certificates\<close>

datatype PublicKeyAlgorithm = Ed25519 | OtherAlgorithm

datatype cert_key = Ed25519PublicKey bytes | OtherKey

record x509_cert =
  cert_alg :: PublicKeyAlgorithm
  cert_public_key :: cert_key

definition pubKeyFromCert :: "x509_cert \<Rightarrow> bytes res" where
  "pubKeyFromCert cert =
     (if cert_alg cert \<noteq> Ed25519 then Inl (New ''requires an ed25519 public key'')
      else case cert_public_key cert of
             OtherKey \<Rightarrow> Inl (New ''invalid ed25519 public key'')
           | Ed25519PublicKey pub \<Rightarrow> Inr pub)"

definition PubKeyFromCert :: "x509_cert \<Rightarrow> static_key res" where
  "PubKeyFromCert cert =
     (case pubKeyFromCert cert of
        Inl e \<Rightarrow> Inl e
      | Inr pubKey \<Rightarrow> ToStaticallySizedPublicKey pubKey)"

text \<open>The function \<open>r.VerifyPeerCertificate()\<close> returns, applied to the raw certificates.\<close>

definition VerifyPeerCertificate ::
  "(bytes \<Rightarrow> x509_cert res) \<Rightarrow> pk_store \<Rightarrow> nat \<Rightarrow> bytes list \<Rightarrow> unit res"
where
  "VerifyPeerCertificate parse st r rawCerts =
     (if length rawCerts \<noteq> 1 then Inl (New ''required exactly one client certificate'')
      else case parse (rawCerts ! 0) of
             Inl e \<Rightarrow> Inl e
           | Inr cert \<Rightarrow>
               (case pubKeyFromCert cert of
                  Inl e \<Rightarrow> Inl e
                | Inr pk \<Rightarrow>
                    if \<not> isValidPublicKey st r pk
                    then Inl (New (''unknown public key on cert '' @ hex_bytes pk))
                    else Inr ()))"

text \<open>When the check accepts: one certificate, and its Ed25519 key is on the list.\<close>

definition cert_with_key :: "(bytes \<Rightarrow> x509_cert res) \<Rightarrow> bytes list \<Rightarrow> bytes \<Rightarrow> bool" where
  "cert_with_key parse rawCerts pk \<longleftrightarrow>
     (case rawCerts of
        [raw] \<Rightarrow> (case parse raw of Inl _ \<Rightarrow> False | Inr cert \<Rightarrow> pubKeyFromCert cert = Inr pk)
      | _ \<Rightarrow> False)"

lemma VerifyPeerCertificate_iff:
  "VerifyPeerCertificate parse st r rawCerts = Inr () \<longleftrightarrow>
     (\<exists>pk \<in> set (pk_keys st r). cert_with_key parse rawCerts pk)"
  by (auto simp: VerifyPeerCertificate_def cert_with_key_def isValidPublicKey_def length_Suc_conv
      split: list.splits sum.splits)

subsection \<open>TLS configurations\<close>

text \<open>A \<open>crypto.Signer\<close>: an Ed25519 private key, or a handle of a signer held elsewhere.\<close>

datatype Signer = PrivateKeySigner bytes | ExternalSigner nat

record tls_certificate =
  tc_certificate :: "bytes list"
  tc_private_key :: Signer
  tc_algorithms :: "16 word list"

datatype client_auth = NoClientCert | RequireAnyClientCert

record tls_config =
  cfg_certificates :: "tls_certificate list"
  cfg_insecure_skip_verify :: bool
  cfg_max_version :: "16 word"
  cfg_min_version :: "16 word"
  cfg_verify_peer :: nat
  cfg_client_auth :: client_auth

definition VersionTLS13 :: "16 word" where
  "VersionTLS13 = 0x0304"

definition SignatureEd25519 :: "16 word" where
  "SignatureEd25519 = 0x0807"

text \<open>\<open>create serial signer\<close> is \<open>x509.CreateCertificate\<close> with the template of that serial number.\<close>

definition newMinimalX509Cert :: "(int \<Rightarrow> Signer \<Rightarrow> bytes res) \<Rightarrow> Signer \<Rightarrow> tls_certificate res" where
  "newMinimalX509Cert create signer =
     (case create 0 signer of
        Inl e \<Rightarrow> Inl e
      | Inr encodedCert \<Rightarrow> Inr \<lparr>tc_certificate = [encodedCert], tc_private_key = signer,
          tc_algorithms = [SignatureEd25519]\<rparr>)"

definition newMutualTLSConfig ::
  "(int \<Rightarrow> Signer \<Rightarrow> bytes res) \<Rightarrow> Signer \<Rightarrow> nat \<Rightarrow> tls_config res"
where
  "newMutualTLSConfig create signer pubs =
     (case newMinimalX509Cert create signer of
        Inl e \<Rightarrow> Inl e
      | Inr cert \<Rightarrow> Inr \<lparr>cfg_certificates = [cert], cfg_insecure_skip_verify = True,
          cfg_max_version = VersionTLS13, cfg_min_version = VersionTLS13,
          cfg_verify_peer = pubs, cfg_client_auth = NoClientCert\<rparr>)"

definition NewClientTLSConfig where
  "NewClientTLSConfig create priv pubs = newMutualTLSConfig create (PrivateKeySigner (priv_key priv)) pubs"

definition NewClientTLSSigner where
  "NewClientTLSSigner create signer pubs = newMutualTLSConfig create signer pubs"

definition NewServerTLSSigner ::
  "(int \<Rightarrow> Signer \<Rightarrow> bytes res) \<Rightarrow> Signer \<Rightarrow> nat \<Rightarrow> tls_config res"
where
  "NewServerTLSSigner create signer pubs =
     (case newMutualTLSConfig create signer pubs of
        Inl e \<Rightarrow> Inl e
      | Inr c \<Rightarrow> Inr (c\<lparr>cfg_client_auth := RequireAnyClientCert\<rparr>))"

definition NewServerTLSConfig ::
  "(int \<Rightarrow> Signer \<Rightarrow> bytes res) \<Rightarrow> PrivateKey \<Rightarrow> nat \<Rightarrow> tls_config res"
where
  "NewServerTLSConfig create priv pubs =
     (case newMutualTLSConfig create (PrivateKeySigner (priv_key priv)) pubs of
        Inl e \<Rightarrow> Inl e
      | Inr c \<Rightarrow> Inr (c\<lparr>cfg_client_auth := RequireAnyClientCert\<rparr>))"

text \<open>\<open>credentials.TransportCredentials\<close>; its zero value has nil pointers.\<close>

record TransportCredentials =
  creds_config :: "tls_config option"
  creds_public_keys :: "nat option"

definition no_creds :: TransportCredentials where
  "no_creds = \<lparr>creds_config = None, creds_public_keys = None\<rparr>"

definition NewTLS :: "tls_config \<Rightarrow> nat \<Rightarrow> TransportCredentials" where
  "NewTLS config publicKeys = \<lparr>creds_config = Some config, creds_public_keys = Some publicKeys\<rparr>"

lemma NewServerTLSConfig_verify:
  "NewServerTLSConfig create priv pubs = Inr c \<Longrightarrow>
     cfg_verify_peer c = pubs \<and> cfg_client_auth c = RequireAnyClientCert"
  by (auto simp: NewServerTLSConfig_def newMutualTLSConfig_def split: sum.splits)

subsection \<open>Properties\<close>

text \<open>A certificate parser and a certificate builder for concrete runs: the certificate is the key.\<close>

definition raw_key_parse :: "bytes \<Rightarrow> x509_cert res" where
  "raw_key_parse raw = Inr \<lparr>cert_alg = Ed25519, cert_public_key = Ed25519PublicKey raw\<rparr>"

definition key_of :: "byte \<Rightarrow> static_key" where
  "key_of b = replicate 32 b"

lemma is_static_key_of [simp]: "is_static (key_of b)"
  by (simp add: is_static_def key_of_def PublicKeySize_def)

lemma key_of_eq [simp]: "key_of a = key_of b \<longleftrightarrow> a = b"
  by (auto simp: key_of_def replicate_eq_replicate)

lemma cert_with_raw_key [simp]: "cert_with_key raw_key_parse [k] pk \<longleftrightarrow> pk = k"
  by (auto simp: cert_with_key_def raw_key_parse_def pubKeyFromCert_def)

text \<open>
  The TLS configuration of a server follows its key list: after \<open>Replace\<close>, the peer check
  of a configuration built earlier accepts exactly the single certificates whose Ed25519 key is
  on the new list.
\<close>

lemma Replace_governs_verification:
  assumes "NewServerTLSConfig create priv r = Inr cfg"
  shows "VerifyPeerCertificate parse (PublicKeys_Replace r pubs st) (cfg_verify_peer cfg) rawCerts = Inr ()
    \<longleftrightarrow> (\<exists>pk \<in> set (pk_keys st pubs). cert_with_key parse rawCerts pk)"
  using NewServerTLSConfig_verify [OF assms]
  by (simp add: VerifyPeerCertificate_iff PublicKeys_Replace_def)

text \<open>
  The identity a connection is filed under is the authenticated one: if the key list holds
  only keys of the right length and the peer check accepts a certificate, then \<open>PubKeyFromCert\<close>
  succeeds on it and returns a 32-byte key of the list, namely the key of the certificate.
\<close>

lemma verified_identity:
  assumes "\<forall>k \<in> set (pk_keys st r). is_static k"
    and "VerifyPeerCertificate parse st r [raw] = Inr ()" and "parse raw = Inr cert"
  shows "\<exists>k. PubKeyFromCert cert = Inr k \<and> pubKeyFromCert cert = Inr k
    \<and> k \<in> set (pk_keys st r) \<and> is_static k"
proof -
  from assms(2) obtain pk where pk: "pk \<in> set (pk_keys st r)" "cert_with_key parse [raw] pk"
    by (auto simp: VerifyPeerCertificate_iff)
  with assms(1,3) show ?thesis by (auto simp: cert_with_key_def PubKeyFromCert_def)
qed

text \<open>
  \<open>ValidPublicKeysFromEd25519\<close> accepts a list exactly when every key has 32 bytes; the
  object it allocates is new and holds the list, and the existing objects keep their keys.
\<close>

lemma ValidPublicKeys_spec:
  "(is_err (ValidPublicKeysFromEd25519 keys st) \<longleftrightarrow> (\<exists>k \<in> set keys. \<not> is_static k))
   \<and> (case ValidPublicKeysFromEd25519 keys st of
        Inl _ \<Rightarrow> True
      | Inr (r, st') \<Rightarrow> r = pk_next st \<and> pk_next st' = Suc r \<and> PublicKeys_Keys st' r = keys
          \<and> (\<forall>q. q \<noteq> r \<longrightarrow> PublicKeys_Keys st' q = PublicKeys_Keys st q))"
proof (cases "check_key_lengths keys")
  case None
  then have "\<forall>k \<in> set keys. is_static k" by (simp add: is_static_def)
  with None show ?thesis
    by (auto simp: ValidPublicKeysFromEd25519_def PublicKeys_Keys_def simp del: check_key_lengths_None)
next
  case (Some e)
  then have "\<exists>k \<in> set keys. \<not> is_static k"
    by (metis check_key_lengths_None is_static_def option.distinct(1))
  with Some show ?thesis by (simp add: ValidPublicKeysFromEd25519_def)
qed

end
