(* ===== verification/Transport.thy ===== *)
theory Transport
  imports Notify Credentials
begin

text \<open>
  \<open>internal/transport\<close>: the client and the server side of a websocket transport.  Each runs a
  read pump and a write pump in goroutines; \<open>gorilla/websocket\<close> underneath is not part of the
  repository.  A pump is a program counter and a step per event: a call on the websocket
  returns, a channel operation of a \<open>select\<close> takes place, the caller closes the transport.  A
  step that is not enabled in a state is \<open>None\<close>.  Deadlines, the ping ticker and the one-second
  limit on waiting for the peer are events that may happen at any time.
\<close>

subsection \<open>Options\<close>

definition defaultWriteTimeout :: duration where
  "defaultWriteTimeout = 10 * Second"

definition defaultReadLimit :: int64 where
  "defaultReadLimit = 100000000"

definition pongWait :: duration where
  "pongWait = 20 * Second"

text \<open>\<open>(pongWait * 9) / 10\<close>: the operands are positive, so the signed division is the unsigned one.\<close>

definition pingPeriod :: duration where
  "pingPeriod = (pongWait * 9) div 10"

record ConnectOptions =
  co_WriteTimeout :: duration
  co_ReadLimit :: int64
  co_TransportCredentials :: TransportCredentials

record ServerConfig =
  sc_ReadLimit :: int64
  sc_WriteTimeout :: duration

subsection \<open>State\<close>

datatype read_pc = RP_NotStarted | RP_Reading | RP_Sending slice | RP_Done

text \<open>\<open>WP_Returned\<close>: the pump function has returned and its deferred calls are still to run.\<close>

datatype write_pc = WP_NotStarted | WP_Select | WP_Closing | WP_Returned | WP_Done

record transport =
  tr_writeTimeout :: duration
  tr_readLimit :: int64
  tr_closeWritePump :: bool
  tr_closeConn :: bool
  tr_readPump :: read_pc
  tr_writePump :: write_pc
  tr_connClosed :: bool
  tr_afterWritePump :: nat
  tr_sent :: "slice list"
  tr_delivered :: "slice list"

type_synonym WebsocketClient = transport

datatype transportState = reachable | closing

record WebsocketServer = transport +
  ws_state :: transportState

datatype pump_event =
    ReadReturns slice \<comment> \<open>\<open>conn.ReadMessage\<close> returns a message\<close>
  | ReadFails \<comment> \<open>\<open>conn.ReadMessage\<close> returns an error\<close>
  | ReaderTakes \<comment> \<open>a receive from \<open>Read()\<close> meets the read pump\<close>
  | WriterGives slice bool \<comment> \<open>a \<open>Write\<close> meets the write pump; whether \<open>conn.WriteMessage\<close> succeeds\<close>
  | TickerFires bool \<comment> \<open>time to ping; whether \<open>conn.WriteControl\<close> succeeds\<close>
  | SeesCloseWritePump
  | SeesCloseConn bool \<comment> \<open>whether the close message is written\<close>
  | CloseWaitOver
  | PumpExits \<comment> \<open>the deferred calls after the write pump run\<close>
  | CallClose

subsection \<open>Client transport\<close>

definition newWebsocketClientConfig :: "ConnectOptions \<Rightarrow> WebsocketClient" where
  "newWebsocketClientConfig opts =
     (let writeTimeout = (if co_WriteTimeout opts \<noteq> 0 then co_WriteTimeout opts else defaultWriteTimeout);
          readLimit = (if co_ReadLimit opts \<noteq> 0 then co_ReadLimit opts else defaultReadLimit)
      in \<lparr>tr_writeTimeout = writeTimeout, tr_readLimit = readLimit, tr_closeWritePump = False,
          tr_closeConn = False, tr_readPump = RP_NotStarted, tr_writePump = WP_NotStarted,
          tr_connClosed = False, tr_afterWritePump = 0, tr_sent = [], tr_delivered = []\<rparr>)"

definition WebsocketClient_Start :: "WebsocketClient \<Rightarrow> WebsocketClient" where
  "WebsocketClient_Start c = c\<lparr>tr_readPump := RP_Reading, tr_writePump := WP_Select\<rparr>"

text \<open>
  \<open>newWebsocketClient\<close>: \<open>dial url config\<close> is the websocket dialler, which only has to
  succeed.  The TLS configuration of missing credentials is nil.
\<close>

definition newWebsocketClient ::
  "(string \<Rightarrow> tls_config option \<Rightarrow> unit res) \<Rightarrow> string \<Rightarrow> ConnectOptions \<Rightarrow> WebsocketClient res"
where
  "newWebsocketClient dial addr opts =
     (case dial (''wss://'' @ addr) (creds_config (co_TransportCredentials opts)) of
        Inl err \<Rightarrow> Inl (Wrap ''[wsrpc] error while dialing '' err)
      | Inr _ \<Rightarrow> Inr (WebsocketClient_Start (newWebsocketClientConfig opts)))"

definition NewClientTransport where
  "NewClientTransport dial addr opts = newWebsocketClient dial addr opts"

definition WebsocketClient_readPump :: "WebsocketClient \<Rightarrow> pump_event \<Rightarrow> WebsocketClient go option" where
  "WebsocketClient_readPump c ev =
     (case (tr_readPump c, ev) of
        (RP_Reading, ReadReturns msg) \<Rightarrow> Some (Ret (c\<lparr>tr_readPump := RP_Sending msg\<rparr>))
      | (RP_Sending msg, ReaderTakes) \<Rightarrow>
          Some (Ret (c\<lparr>tr_readPump := RP_Reading, tr_delivered := tr_delivered c @ [msg]\<rparr>))
      | (RP_Reading, ReadFails) \<Rightarrow>
          Some (if tr_closeWritePump c then Panic CloseOfClosedChannel
                else Ret (c\<lparr>tr_closeWritePump := True, tr_readPump := RP_Done\<rparr>))
      | _ \<Rightarrow> None)"

definition WebsocketClient_writePump :: "WebsocketClient \<Rightarrow> pump_event \<Rightarrow> WebsocketClient go option" where
  "WebsocketClient_writePump c ev =
     (case (tr_writePump c, ev) of
        (WP_Select, SeesCloseWritePump) \<Rightarrow>
          if tr_closeWritePump c then Some (Ret (c\<lparr>tr_writePump := WP_Returned\<rparr>)) else None
      | (WP_Select, WriterGives msg ok) \<Rightarrow>
          Some (Ret (if ok then c\<lparr>tr_sent := tr_sent c @ [msg]\<rparr>
                     else c\<lparr>tr_connClosed := True, tr_writePump := WP_Returned\<rparr>))
      | (WP_Select, TickerFires ok) \<Rightarrow>
          Some (Ret (if ok then c else c\<lparr>tr_connClosed := True, tr_writePump := WP_Returned\<rparr>))
      | (WP_Select, SeesCloseConn ok) \<Rightarrow>
          if tr_closeConn c
          then Some (Ret (if ok then c\<lparr>tr_connClosed := True, tr_writePump := WP_Closing\<rparr>
                          else c\<lparr>tr_writePump := WP_Returned\<rparr>))
          else None
      | (WP_Closing, CloseWaitOver) \<Rightarrow> Some (Ret (c\<lparr>tr_writePump := WP_Returned\<rparr>))
      | (WP_Returned, PumpExits) \<Rightarrow>
          Some (Ret (c\<lparr>tr_afterWritePump := Suc (tr_afterWritePump c), tr_writePump := WP_Done\<rparr>))
      | _ \<Rightarrow> None)"

text \<open>
  \<open>Close\<close> closes \<open>closeConn\<close> and then waits for both pumps: \<open>WebsocketClient_wg\<close> is what
  the wait group counts, and \<open>Close\<close> returns when it is 0.
\<close>

definition WebsocketClient_Close :: "WebsocketClient \<Rightarrow> WebsocketClient go" where
  "WebsocketClient_Close c =
     (if tr_closeConn c then Panic CloseOfClosedChannel else Ret (c\<lparr>tr_closeConn := True\<rparr>))"

definition WebsocketClient_wg :: "WebsocketClient \<Rightarrow> nat" where
  "WebsocketClient_wg c =
     (if tr_readPump c \<in> {RP_NotStarted, RP_Done} then 0 else 1)
     + (if tr_writePump c \<in> {WP_NotStarted, WP_Done} then 0 else 1)"

definition client_step :: "WebsocketClient \<Rightarrow> pump_event \<Rightarrow> WebsocketClient go option" where
  "client_step c ev =
     (if ev = CallClose then Some (WebsocketClient_Close c)
      else case WebsocketClient_readPump c ev of
             Some r \<Rightarrow> Some r
           | None \<Rightarrow> WebsocketClient_writePump c ev)"

subsection \<open>Server transport\<close>

definition newWebsocketServerWithConfig :: "ServerConfig \<Rightarrow> WebsocketServer" where
  "newWebsocketServerWithConfig config =
     (let writeTimeout = (if sc_WriteTimeout config \<noteq> 0 then sc_WriteTimeout config else defaultWriteTimeout);
          readLimit = (if sc_ReadLimit config \<noteq> 0 then sc_ReadLimit config else defaultReadLimit)
      in \<lparr>tr_writeTimeout = writeTimeout, tr_readLimit = readLimit, tr_closeWritePump = False,
          tr_closeConn = False, tr_readPump = RP_NotStarted, tr_writePump = WP_NotStarted,
          tr_connClosed = False, tr_afterWritePump = 0, tr_sent = [], tr_delivered = [],
          ws_state = reachable\<rparr>)"

definition WebsocketServer_Close :: "WebsocketServer \<Rightarrow> WebsocketServer go" where
  "WebsocketServer_Close s =
     (if ws_state s = closing then Ret s
      else let s1 = s\<lparr>ws_state := closing\<rparr>
           in if tr_closeConn s1 then Panic CloseOfClosedChannel
              else Ret (s1\<lparr>tr_closeConn := True\<rparr>))"

text \<open>\<open>start\<close> launches the read pump and becomes the write pump.\<close>

definition WebsocketServer_start :: "WebsocketServer \<Rightarrow> WebsocketServer" where
  "WebsocketServer_start s = s\<lparr>tr_readPump := RP_Reading, tr_writePump := WP_Select\<rparr>"

definition newWebsocketServer :: "ServerConfig \<Rightarrow> WebsocketServer" where
  "newWebsocketServer config = WebsocketServer_start (newWebsocketServerWithConfig config)"

definition NewServerTransport :: "ServerConfig \<Rightarrow> WebsocketServer" where
  "NewServerTransport config = newWebsocketServer config"

definition WebsocketServer_readPump :: "WebsocketServer \<Rightarrow> pump_event \<Rightarrow> WebsocketServer go option" where
  "WebsocketServer_readPump s ev =
     (case (tr_readPump s, ev) of
        (RP_Reading, ReadReturns msg) \<Rightarrow> Some (Ret (s\<lparr>tr_readPump := RP_Sending msg\<rparr>))
      | (RP_Sending msg, ReaderTakes) \<Rightarrow>
          Some (Ret (s\<lparr>tr_readPump := RP_Reading, tr_delivered := tr_delivered s @ [msg]\<rparr>))
      | (RP_Reading, ReadFails) \<Rightarrow>
          Some (if tr_closeWritePump s then Panic CloseOfClosedChannel
                else Ret (s\<lparr>tr_closeWritePump := True, tr_readPump := RP_Done\<rparr>))
      | _ \<Rightarrow> None)"

text \<open>
  The write pump, and the deferred part of \<open>start\<close>: close the transport, then call back.
  Unlike the client's, it leaves the websocket open when writing a message fails.
\<close>

definition WebsocketServer_writePump :: "WebsocketServer \<Rightarrow> pump_event \<Rightarrow> WebsocketServer go option" where
  "WebsocketServer_writePump s ev =
     (case (tr_writePump s, ev) of
        (WP_Select, SeesCloseWritePump) \<Rightarrow>
          if tr_closeWritePump s then Some (Ret (s\<lparr>tr_writePump := WP_Returned\<rparr>)) else None
      | (WP_Select, WriterGives msg ok) \<Rightarrow>
          Some (Ret (if ok then s\<lparr>tr_sent := tr_sent s @ [msg]\<rparr> else s\<lparr>tr_writePump := WP_Returned\<rparr>))
      | (WP_Select, TickerFires ok) \<Rightarrow>
          Some (Ret (if ok then s else s\<lparr>tr_connClosed := True, tr_writePump := WP_Returned\<rparr>))
      | (WP_Select, SeesCloseConn ok) \<Rightarrow>
          if tr_closeConn s
          then Some (Ret (if ok then s\<lparr>tr_connClosed := True, tr_writePump := WP_Closing\<rparr>
                          else s\<lparr>tr_writePump := WP_Returned\<rparr>))
          else None
      | (WP_Closing, CloseWaitOver) \<Rightarrow> Some (Ret (s\<lparr>tr_writePump := WP_Returned\<rparr>))
      | _ \<Rightarrow> None)"

definition WebsocketServer_start_deferred :: "WebsocketServer \<Rightarrow> pump_event \<Rightarrow> WebsocketServer go option" where
  "WebsocketServer_start_deferred s ev =
     (case (tr_writePump s, ev) of
        (WP_Returned, PumpExits) \<Rightarrow>
          Some (go_bind (WebsocketServer_Close s) (\<lambda>s1.
            Ret (s1\<lparr>tr_afterWritePump := Suc (tr_afterWritePump s1), tr_writePump := WP_Done\<rparr>)))
      | _ \<Rightarrow> None)"

definition server_step :: "WebsocketServer \<Rightarrow> pump_event \<Rightarrow> WebsocketServer go option" where
  "server_step s ev =
     (if ev = CallClose then Some (WebsocketServer_Close s)
      else case WebsocketServer_readPump s ev of
             Some r \<Rightarrow> Some r
           | None \<Rightarrow> (case WebsocketServer_writePump s ev of
                 Some r \<Rightarrow> Some r
               | None \<Rightarrow> WebsocketServer_start_deferred s ev))"

subsection \<open>Writing\<close>

text \<open>
  The \<open>select\<close> of \<open>Write\<close>, identical on both sides: what a branch returns when it can be
  taken.  The last one needs the write pump in its own \<open>select\<close> (the event \<open>WriterGives\<close>).
\<close>

datatype write_branch = OnCloseWritePump | OnCloseConn | OnCtxDone | OnSend

definition WebsocketClient_Write :: "WebsocketClient \<Rightarrow> bool \<Rightarrow> write_branch \<Rightarrow> unit res option" where
  "WebsocketClient_Write c ctx_done br =
     (case br of
        OnCloseWritePump \<Rightarrow> if tr_closeWritePump c
          then Some (Inl (New ''[wsrpc] could not write message, websocket is closed'')) else None
      | OnCloseConn \<Rightarrow> if tr_closeConn c
          then Some (Inl (New ''[wsrpc] could not write message, transport is closed'')) else None
      | OnCtxDone \<Rightarrow> if ctx_done
          then Some (Inl (New ''[wsrpc] could not write message, context is done'')) else None
      | OnSend \<Rightarrow> if tr_writePump c = WP_Select then Some (Inr ()) else None)"

definition WebsocketServer_Write :: "WebsocketServer \<Rightarrow> bool \<Rightarrow> write_branch \<Rightarrow> unit res option" where
  "WebsocketServer_Write s ctx_done br =
     (case br of
        OnCloseWritePump \<Rightarrow> if tr_closeWritePump s
          then Some (Inl (New ''[wsrpc] could not write message, websocket is closed'')) else None
      | OnCloseConn \<Rightarrow> if tr_closeConn s
          then Some (Inl (New ''[wsrpc] could not write message, transport is closed'')) else None
      | OnCtxDone \<Rightarrow> if ctx_done
          then Some (Inl (New ''[wsrpc] could not write message, context is done'')) else None
      | OnSend \<Rightarrow> if tr_writePump s = WP_Select then Some (Inr ()) else None)"

subsection \<open>Reading\<close>

text \<open>\<open>Read\<close> gives the channel of the read pump; this is the message that a receive from it finds ready.\<close>

definition WebsocketClient_Read :: "WebsocketClient \<Rightarrow> slice option" where
  "WebsocketClient_Read c = (case tr_readPump c of RP_Sending msg \<Rightarrow> Some msg | _ \<Rightarrow> None)"

definition WebsocketServer_Read :: "WebsocketServer \<Rightarrow> slice option" where
  "WebsocketServer_Read s = (case tr_readPump s of RP_Sending msg \<Rightarrow> Some msg | _ \<Rightarrow> None)"

text \<open>The steps event by event.\<close>

lemma client_step_simps:
  "client_step c CallClose = Some (WebsocketClient_Close c)"
  "client_step c (ReadReturns msg) =
     (if tr_readPump c = RP_Reading then Some (Ret (c\<lparr>tr_readPump := RP_Sending msg\<rparr>)) else None)"
  "client_step c ReadFails =
     (if tr_readPump c = RP_Reading
      then Some (if tr_closeWritePump c then Panic CloseOfClosedChannel
                 else Ret (c\<lparr>tr_closeWritePump := True, tr_readPump := RP_Done\<rparr>))
      else None)"
  "client_step c ReaderTakes =
     (case tr_readPump c of
        RP_Sending m \<Rightarrow> Some (Ret (c\<lparr>tr_readPump := RP_Reading, tr_delivered := tr_delivered c @ [m]\<rparr>))
      | _ \<Rightarrow> None)"
  "client_step c (WriterGives msg ok) =
     (if tr_writePump c = WP_Select
      then Some (Ret (if ok then c\<lparr>tr_sent := tr_sent c @ [msg]\<rparr>
                      else c\<lparr>tr_connClosed := True, tr_writePump := WP_Returned\<rparr>))
      else None)"
  "client_step c (TickerFires ok) =
     (if tr_writePump c = WP_Select
      then Some (Ret (if ok then c else c\<lparr>tr_connClosed := True, tr_writePump := WP_Returned\<rparr>))
      else None)"
  "client_step c SeesCloseWritePump =
     (if tr_writePump c = WP_Select \<and> tr_closeWritePump c
      then Some (Ret (c\<lparr>tr_writePump := WP_Returned\<rparr>)) else None)"
  "client_step c (SeesCloseConn ok) =
     (if tr_writePump c = WP_Select \<and> tr_closeConn c
      then Some (Ret (if ok then c\<lparr>tr_connClosed := True, tr_writePump := WP_Closing\<rparr>
                      else c\<lparr>tr_writePump := WP_Returned\<rparr>))
      else None)"
  "client_step c CloseWaitOver =
     (if tr_writePump c = WP_Closing then Some (Ret (c\<lparr>tr_writePump := WP_Returned\<rparr>)) else None)"
  "client_step c PumpExits =
     (if tr_writePump c = WP_Returned
      then Some (Ret (c\<lparr>tr_afterWritePump := Suc (tr_afterWritePump c), tr_writePump := WP_Done\<rparr>))
      else None)"
  by (simp_all add: client_step_def WebsocketClient_readPump_def WebsocketClient_writePump_def
      split: read_pc.split write_pc.split)

lemma server_step_simps:
  "server_step s CallClose = Some (WebsocketServer_Close s)"
  "server_step s (ReadReturns msg) =
     (if tr_readPump s = RP_Reading then Some (Ret (s\<lparr>tr_readPump := RP_Sending msg\<rparr>)) else None)"
  "server_step s ReadFails =
     (if tr_readPump s = RP_Reading
      then Some (if tr_closeWritePump s then Panic CloseOfClosedChannel
                 else Ret (s\<lparr>tr_closeWritePump := True, tr_readPump := RP_Done\<rparr>))
      else None)"
  "server_step s ReaderTakes =
     (case tr_readPump s of
        RP_Sending m \<Rightarrow> Some (Ret (s\<lparr>tr_readPump := RP_Reading, tr_delivered := tr_delivered s @ [m]\<rparr>))
      | _ \<Rightarrow> None)"
  "server_step s (WriterGives msg ok) =
     (if tr_writePump s = WP_Select
      then Some (Ret (if ok then s\<lparr>tr_sent := tr_sent s @ [msg]\<rparr> else s\<lparr>tr_writePump := WP_Returned\<rparr>))
      else None)"
  "server_step s (TickerFires ok) =
     (if tr_writePump s = WP_Select
      then Some (Ret (if ok then s else s\<lparr>tr_connClosed := True, tr_writePump := WP_Returned\<rparr>))
      else None)"
  "server_step s SeesCloseWritePump =
     (if tr_writePump s = WP_Select \<and> tr_closeWritePump s
      then Some (Ret (s\<lparr>tr_writePump := WP_Returned\<rparr>)) else None)"
  "server_step s (SeesCloseConn ok) =
     (if tr_writePump s = WP_Select \<and> tr_closeConn s
      then Some (Ret (if ok then s\<lparr>tr_connClosed := True, tr_writePump := WP_Closing\<rparr>
                      else s\<lparr>tr_writePump := WP_Returned\<rparr>))
      else None)"
  "server_step s CloseWaitOver =
     (if tr_writePump s = WP_Closing then Some (Ret (s\<lparr>tr_writePump := WP_Returned\<rparr>)) else None)"
  "server_step s PumpExits =
     (if tr_writePump s = WP_Returned
      then Some (go_bind (WebsocketServer_Close s) (\<lambda>s1.
             Ret (s1\<lparr>tr_afterWritePump := Suc (tr_afterWritePump s1), tr_writePump := WP_Done\<rparr>)))
      else None)"
  by (simp_all add: server_step_def WebsocketServer_readPump_def WebsocketServer_writePump_def
      WebsocketServer_start_deferred_def split: read_pc.split write_pc.split)

lemma Read_ReaderTakes:
  "client_step c ReaderTakes = map_option (\<lambda>msg. Ret (c\<lparr>tr_readPump := RP_Reading, tr_delivered := tr_delivered c @ [msg]\<rparr>))
     (WebsocketClient_Read c)"
  "server_step s ReaderTakes = map_option (\<lambda>msg. Ret (s\<lparr>tr_readPump := RP_Reading, tr_delivered := tr_delivered s @ [msg]\<rparr>))
     (WebsocketServer_Read s)"
  by (simp_all add: client_step_simps server_step_simps WebsocketClient_Read_def WebsocketServer_Read_def split: read_pc.split)

lemmas client_pump_defs = client_step_simps WebsocketClient_Close_def

lemmas server_pump_defs = server_step_simps WebsocketServer_Close_def

lemmas pump_splits = read_pc.splits if_splits

subsection \<open>The contract of a pumped transport\<close>

abbreviation run_pump :: "('t \<Rightarrow> pump_event \<Rightarrow> 't go option) \<Rightarrow> pump_event list \<Rightarrow> 't \<Rightarrow> 't go option" where
  "run_pump step \<equiv> run_steps (\<lambda>e t. step t e)"

text \<open>What an event adds to the messages written to and read from the websocket.\<close>

fun written_by :: "pump_event \<Rightarrow> slice list" where
  "written_by (WriterGives msg True) = [msg]"
| "written_by _ = []"

fun read_by :: "pump_event \<Rightarrow> slice list" where
  "read_by (ReadReturns msg) = [msg]"
| "read_by _ = []"

text \<open>The message the read pump holds until someone receives it.\<close>

definition in_hand :: "'a transport_scheme \<Rightarrow> slice list" where
  "in_hand t = (case tr_readPump t of RP_Sending msg \<Rightarrow> [msg] | _ \<Rightarrow> [])"

text \<open>
  \<open>pump\<close>: what holds of both transports.  The pumps keep their invariant \<open>good\<close> and never
  panic by themselves, what was written is what the writers gave, and what was delivered, with
  the message in hand, is what was read, all in order.  \<open>closable_pump\<close> adds that \<open>Close\<close>
  may be called at any time.
\<close>

locale pump =
  fixes step :: "'t \<Rightarrow> pump_event \<Rightarrow> 't go option"
    and good :: "'t \<Rightarrow> bool"
    and sent :: "'t \<Rightarrow> slice list"
    and received :: "'t \<Rightarrow> slice list"
  assumes step_good: "good t \<Longrightarrow> step t e = Some (Ret t') \<Longrightarrow> good t'"
    and step_safe: "good t \<Longrightarrow> e \<noteq> CallClose \<Longrightarrow> step t e \<noteq> Some (Panic p)"
    and step_sent: "step t e = Some (Ret t') \<Longrightarrow> sent t' = sent t @ written_by e"
    and step_received: "step t e = Some (Ret t') \<Longrightarrow> received t' = received t @ read_by e"
begin

lemma run_good: "good t \<Longrightarrow> run_pump step es t = Some (Ret t') \<Longrightarrow> good t'"
  by (induction es arbitrary: t) (auto split: option.splits go.splits dest: step_good)

lemma step_fifo:
  "step t e = Some (Ret t') \<Longrightarrow> sent t' = sent t @ written_by e \<and> received t' = received t @ read_by e"
  by (simp add: step_sent step_received)

lemma run_fifo:
  "run_pump step es t = Some (Ret t') \<Longrightarrow>
     sent t' = sent t @ concat (map written_by es) \<and> received t' = received t @ concat (map read_by es)"
  by (induction es arbitrary: t)
    (auto split: option.splits go.splits dest!: step_fifo)

end

locale closable_pump = pump +
  assumes close_safe: "good t \<Longrightarrow> step t CallClose \<noteq> Some (Panic p)"
begin

lemma run_safe: "good t \<Longrightarrow> run_pump step es t \<noteq> Some (Panic p)"
proof (induction es arbitrary: t)
  case Nil
  then show ?case by simp
next
  case (Cons e es)
  have "step t e \<noteq> Some (Panic q)" for q
    using Cons.prems step_safe close_safe by (cases "e = CallClose") auto
  with Cons show ?case by (auto split: option.splits go.splits dest: step_good)
qed

end

definition good_client :: "WebsocketClient \<Rightarrow> bool" where
  "good_client c \<longleftrightarrow> (tr_closeWritePump c \<longleftrightarrow> tr_readPump c = RP_Done)
     \<and> tr_afterWritePump c = (if tr_writePump c = WP_Done then 1 else 0)"

definition good_server :: "WebsocketServer \<Rightarrow> bool" where
  "good_server s \<longleftrightarrow> (tr_closeWritePump s \<longleftrightarrow> tr_readPump s = RP_Done)
     \<and> tr_afterWritePump s = (if tr_writePump s = WP_Done then 1 else 0)
     \<and> (tr_closeConn s \<longleftrightarrow> ws_state s = closing)
     \<and> (tr_writePump s = WP_Done \<longrightarrow> ws_state s = closing) \<and> tr_writePump s \<noteq> WP_NotStarted"

lemma good_newWebsocketClient [wf_intros]:
  "newWebsocketClient dial addr opts = Inr c \<Longrightarrow> good_client c"
  by (auto simp: good_client_def newWebsocketClient_def WebsocketClient_Start_def
      newWebsocketClientConfig_def Let_def split: sum.splits)

lemma good_NewServerTransport [simp, wf_intros]: "good_server (NewServerTransport config)"
  by (simp add: good_server_def NewServerTransport_def newWebsocketServer_def
      newWebsocketServerWithConfig_def WebsocketServer_start_def Let_def)

interpretation client_pump: pump client_step good_client tr_sent "\<lambda>c. tr_delivered c @ in_hand c"
proof unfold_locales
  fix c c' :: WebsocketClient and e
  show "good_client c \<Longrightarrow> client_step c e = Some (Ret c') \<Longrightarrow> good_client c'"
    by (cases e) (auto simp: client_pump_defs good_client_def split: pump_splits)
  show "client_step c e = Some (Ret c') \<Longrightarrow> tr_sent c' = tr_sent c @ written_by e"
    by (cases e) (auto simp: client_pump_defs split: pump_splits)
  show "client_step c e = Some (Ret c') \<Longrightarrow>
      tr_delivered c' @ in_hand c' = (tr_delivered c @ in_hand c) @ read_by e"
    by (cases e) (auto simp: client_pump_defs in_hand_def split: pump_splits)
next
  fix c :: WebsocketClient and e p
  show "good_client c \<Longrightarrow> e \<noteq> CallClose \<Longrightarrow> client_step c e \<noteq> Some (Panic p)"
    by (cases e) (auto simp: client_pump_defs good_client_def split: pump_splits)
qed

interpretation server_pump: closable_pump server_step good_server tr_sent "\<lambda>s. tr_delivered s @ in_hand s"
proof unfold_locales
  fix s s' :: WebsocketServer and e
  show "good_server s \<Longrightarrow> server_step s e = Some (Ret s') \<Longrightarrow> good_server s'"
    by (cases e) (auto simp: server_pump_defs good_server_def Let_def split: pump_splits)
  show "server_step s e = Some (Ret s') \<Longrightarrow> tr_sent s' = tr_sent s @ written_by e"
    by (cases e) (auto simp: server_pump_defs Let_def split: pump_splits)
  show "server_step s e = Some (Ret s') \<Longrightarrow>
      tr_delivered s' @ in_hand s' = (tr_delivered s @ in_hand s) @ read_by e"
    by (cases e) (auto simp: server_pump_defs in_hand_def Let_def split: pump_splits)
next
  fix s :: WebsocketServer and e p
  show "good_server s \<Longrightarrow> e \<noteq> CallClose \<Longrightarrow> server_step s e \<noteq> Some (Panic p)"
    by (cases e) (auto simp: server_pump_defs good_server_def Let_def split: pump_splits)
next
  fix s :: WebsocketServer and p
  show "good_server s \<Longrightarrow> server_step s CallClose \<noteq> Some (Panic p)"
    by (auto simp: server_pump_defs good_server_def Let_def)
qed

text \<open>\<open>WebsocketServer.Close\<close> is a one-shot operation.\<close>

interpretation server_close: one_shot WebsocketServer_Close "\<lambda>s. ws_state s = closing" good_server
  by unfold_locales (auto simp: WebsocketServer_Close_def good_server_def Let_def split: if_splits)

subsection \<open>Properties\<close>

text \<open>
  C10.  Both transports are order-preserving and lose nothing between their channels and the
  websocket: after any run, the messages written are the ones given to \<open>Write\<close> whose
  \<open>WriteMessage\<close> succeeded, in order, and the messages received by the readers, followed by
  the one the read pump holds, are the ones read from the websocket, in order.
\<close>

theorem transports_fifo:
  "(run_pump server_step es s = Some (Ret s') \<longrightarrow>
      tr_sent s' = tr_sent s @ concat (map written_by es)
      \<and> tr_delivered s' @ in_hand s' = (tr_delivered s @ in_hand s) @ concat (map read_by es))
   \<and> (run_pump client_step es c = Some (Ret c') \<longrightarrow>
      tr_sent c' = tr_sent c @ concat (map written_by es)
      \<and> tr_delivered c' @ in_hand c' = (tr_delivered c @ in_hand c) @ concat (map read_by es))"
  using server_pump.run_fifo client_pump.run_fifo by blast

definition example_config :: ServerConfig where
  "example_config = \<lparr>sc_ReadLimit = 0, sc_WriteTimeout = 0\<rparr>"

definition example_client :: WebsocketClient where
  "example_client = WebsocketClient_Start (newWebsocketClientConfig
     \<lparr>co_WriteTimeout = 0, co_ReadLimit = 0, co_TransportCredentials = no_creds\<rparr>)"

lemmas example_transport_defs = example_config_def example_client_def NewServerTransport_def
  newWebsocketServer_def newWebsocketServerWithConfig_def WebsocketServer_start_def
  WebsocketClient_Start_def newWebsocketClientConfig_def server_pump_defs client_pump_defs

lemma good_example_client [simp]: "good_client example_client"
  by (simp add: good_client_def example_client_def WebsocketClient_Start_def newWebsocketClientConfig_def Let_def)

theorem transports_fifo_witness:
  "\<exists>s' c'. run_pump server_step [ReadReturns (Some [1]), ReaderTakes, WriterGives (Some [2]) True]
       (NewServerTransport example_config) = Some (Ret s') \<and> tr_sent s' = [Some [2]]
     \<and> run_pump client_step [WriterGives (Some [3]) True, ReadReturns (Some [4])] example_client = Some (Ret c')
     \<and> tr_delivered c' @ in_hand c' = [Some [4]]"
proof -
  let ?es = "[ReadReturns (Some [1]), ReaderTakes, WriterGives (Some [2]) True]"
  let ?ec = "[WriterGives (Some [3]) True, ReadReturns (Some [4])]"
  obtain s' where s: "run_pump server_step ?es (NewServerTransport example_config) = Some (Ret s')"
    by (simp add: example_transport_defs Let_def)
  obtain c' where c: "run_pump client_step ?ec example_client = Some (Ret c')"
    by (simp add: example_transport_defs Let_def)
  have i: "tr_sent (NewServerTransport example_config) = []" "tr_delivered example_client @ in_hand example_client = []"
    by (simp_all add: example_transport_defs Let_def in_hand_def)
  show ?thesis
    using s c i transports_fifo [of ?es "NewServerTransport example_config" s' example_client]
      transports_fifo [of ?ec "NewServerTransport example_config" s' example_client c']
    by simp
qed

text \<open>
  C11.  The server transport is safe under every order of events, \<open>Close\<close> called any number of
  times included: no run panics, the callback of the server runs at most once, and once the
  write pump has ended the callback has run, \<open>Write\<close> can no longer send and no longer blocks,
  whatever its context.
\<close>

theorem server_transport_safe:
  assumes "run_pump server_step es (NewServerTransport config) = Some r"
  shows "\<exists>s. r = Ret s \<and> tr_afterWritePump s \<le> 1
    \<and> (tr_writePump s = WP_Done \<longrightarrow> tr_afterWritePump s = 1
         \<and> WebsocketServer_Write s ctx_done OnSend = None
         \<and> WebsocketServer_Write s ctx_done OnCloseConn
             = Some (Inl (New ''[wsrpc] could not write message, transport is closed'')))"
proof -
  obtain s where r: "r = Ret s"
    using assms server_pump.run_safe [OF good_NewServerTransport] by (cases r) auto
  have "good_server s"
    using server_pump.run_good [OF good_NewServerTransport] assms r by blast
  with r show ?thesis by (auto simp: good_server_def WebsocketServer_Write_def)
qed

theorem server_transport_safe_witness:
  "\<exists>s. run_pump server_step [CallClose, CallClose, SeesCloseConn True, ReadFails, CloseWaitOver, PumpExits, CallClose]
      (NewServerTransport example_config) = Some (Ret s)
    \<and> tr_writePump s = WP_Done \<and> tr_afterWritePump s = 1"
proof -
  let ?es = "[CallClose, CallClose, SeesCloseConn True, ReadFails, CloseWaitOver, PumpExits, CallClose]"
  obtain s where s: "run_pump server_step ?es (NewServerTransport example_config) = Some (Ret s)"
    and d: "tr_writePump s = WP_Done"
    by (simp add: example_transport_defs Let_def)
  show ?thesis using s d server_transport_safe [OF s] by auto
qed

text \<open>
  \<open>WebsocketClient.Close\<close> can wait for ever: while the read pump holds a message that
  nobody receives, its wait group never reaches zero, whatever else happens, the websocket
  being closed included.  (After \<open>ClientConn.Close\<close> has cancelled the context nobody reads.)
\<close>

lemma client_close_waits_for_reader:
  assumes "tr_readPump c = RP_Sending msg" and "ReaderTakes \<notin> set es"
    and "run_pump client_step es c = Some (Ret c')"
  shows "tr_readPump c' = RP_Sending msg \<and> 0 < WebsocketClient_wg c'"
proof -
  have "tr_readPump c' = RP_Sending msg"
    using assms
  proof (induction es arbitrary: c)
    case (Cons e es)
    then obtain c1 where c1: "client_step c e = Some (Ret c1)" "run_pump client_step es c1 = Some (Ret c')"
      by (auto split: option.splits go.splits)
    moreover have "tr_readPump c1 = RP_Sending msg"
      using c1(1) Cons.prems(1,2) by (cases e) (auto simp: client_pump_defs split: pump_splits)
    ultimately show ?case using Cons.IH Cons.prems(2) by simp
  qed simp
  then show ?thesis by (simp add: WebsocketClient_wg_def)
qed

text \<open>
  When writing a message fails, the server transport shuts down without ever closing its
  websocket: the callback has removed the connection, and no later event closes it.  (The client
  transport closes its websocket in that case.)
\<close>

lemma server_write_error_keeps_websocket_open:
  assumes "run_pump server_step ([WriterGives msg False, PumpExits] @ es) (NewServerTransport config) = Some (Ret s)"
  shows "tr_writePump s = WP_Done \<and> tr_afterWritePump s = 1 \<and> \<not> tr_connClosed s"
proof -
  obtain s0 where s0: "run_pump server_step [WriterGives msg False, PumpExits] (NewServerTransport config) = Some (Ret s0)"
    and i: "tr_writePump s0 = WP_Done" "\<not> tr_connClosed s0" "tr_afterWritePump s0 = 1"
    by (simp add: example_transport_defs Let_def)
  have "run_pump server_step es s0 = Some (Ret s)" using assms s0 by (simp split: option.splits go.splits)
  then show ?thesis using i
  proof (induction es arbitrary: s0)
    case (Cons e es)
    then obtain s1 where s1: "server_step s0 e = Some (Ret s1)" "run_pump server_step es s1 = Some (Ret s)"
      by (auto split: option.splits go.splits)
    moreover have "tr_writePump s1 = WP_Done \<and> \<not> tr_connClosed s1 \<and> tr_afterWritePump s1 = 1"
      using s1(1) Cons.prems(2-4) by (cases e) (auto simp: server_pump_defs Let_def split: pump_splits)
    ultimately show ?case using Cons.IH by blast
  qed simp
qed

end
