(* ===== verification/Options.thy ===== *)
theory Options
  imports Transport
begin

text \<open>
  \<open>dialoptions.go\<close> and \<open>serveroptions.go\<close>.  An option is the function its \<open>apply\<close> method
  runs: a dial option may fail, a server option may not.  Building credentials allocates
  \<open>PublicKeys\<close> objects, so an option also threads the store of these objects.  \<open>create\<close> is
  \<open>x509.CreateCertificate\<close>.
\<close>

subsection \<open>Dial options\<close>

text \<open>The backoff strategy is nil until \<open>DialWithContext\<close> sets it; loggers are opaque.\<close>

datatype Strategy = DefaultExponential

datatype Logger = DefaultLogger | UserLogger nat

record dialOptions =
  do_copts :: ConnectOptions
  do_bs :: "Strategy option"
  do_block :: bool
  do_logger :: Logger

type_synonym DialOption = "dialOptions \<times> pk_store \<Rightarrow> (dialOptions \<times> pk_store) res"

definition newFuncDialOption :: "(dialOptions \<Rightarrow> dialOptions) \<Rightarrow> DialOption" where
  "newFuncDialOption f = (\<lambda>(o', st). Inr (f o', st))"

definition newFuncDialOptionWithErr ::
  "(dialOptions \<times> pk_store \<Rightarrow> (dialOptions \<times> pk_store) res) \<Rightarrow> DialOption"
where
  "newFuncDialOptionWithErr f = (\<lambda>os. f os)"

definition defaultDialOptions :: dialOptions where
  "defaultDialOptions =
     \<lparr>do_copts = \<lparr>co_WriteTimeout = 0, co_ReadLimit = 0, co_TransportCredentials = no_creds\<rparr>,
      do_bs = None, do_block = False, do_logger = DefaultLogger\<rparr>"

definition set_dial_creds :: "TransportCredentials \<Rightarrow> dialOptions \<Rightarrow> dialOptions" where
  "set_dial_creds c o' = o'\<lparr>do_copts := (do_copts o')\<lparr>co_TransportCredentials := c\<rparr>\<rparr>"

definition WithTransportCreds ::
  "(int \<Rightarrow> Signer \<Rightarrow> bytes res) \<Rightarrow> bytes \<Rightarrow> bytes \<Rightarrow> DialOption"
where
  "WithTransportCreds create privKey serverPubKey = newFuncDialOptionWithErr (\<lambda>(o', st).
     case ValidPrivateKeyFromEd25519 privKey of
       Inl err \<Rightarrow> Inl err
     | Inr priv \<Rightarrow>
         (case ValidPublicKeysFromEd25519 [serverPubKey] st of
            Inl err \<Rightarrow> Inl err
          | Inr (pubs, st1) \<Rightarrow>
              (case NewClientTLSConfig create priv pubs of
                 Inl err \<Rightarrow> Inl err
               | Inr config \<Rightarrow> Inr (set_dial_creds (NewTLS config pubs) o', st1))))"

definition WithTransportSigner ::
  "(int \<Rightarrow> Signer \<Rightarrow> bytes res) \<Rightarrow> Signer \<Rightarrow> bytes \<Rightarrow> DialOption"
where
  "WithTransportSigner create signer serverPubKey = newFuncDialOptionWithErr (\<lambda>(o', st).
     case ValidPublicKeysFromEd25519 [serverPubKey] st of
       Inl err \<Rightarrow> Inl err
     | Inr (pubs, st1) \<Rightarrow>
         (case NewClientTLSSigner create signer pubs of
            Inl err \<Rightarrow> Inl err
          | Inr config \<Rightarrow> Inr (set_dial_creds (NewTLS config pubs) o', st1)))"

definition WithBlock :: DialOption where
  "WithBlock = newFuncDialOption (\<lambda>o'. o'\<lparr>do_block := True\<rparr>)"

definition WithWriteTimeout :: "duration \<Rightarrow> DialOption" where
  "WithWriteTimeout d =
     newFuncDialOption (\<lambda>o'. o'\<lparr>do_copts := (do_copts o')\<lparr>co_WriteTimeout := d\<rparr>\<rparr>)"

definition WithReadLimit :: "int64 \<Rightarrow> DialOption" where
  "WithReadLimit sz =
     newFuncDialOption (\<lambda>o'. o'\<lparr>do_copts := (do_copts o')\<lparr>co_ReadLimit := sz\<rparr>\<rparr>)"

definition WithLogger :: "Logger \<Rightarrow> DialOption" where
  "WithLogger l = newFuncDialOption (\<lambda>o'. o'\<lparr>do_logger := l\<rparr>)"

text \<open>The loop of \<open>DialWithContext\<close> over its options; \<open>i\<close> numbers them for the error text.\<close>

definition option_error :: "nat \<Rightarrow> go_error \<Rightarrow> go_error" where
  "option_error i err = Wrap (''dial option '' @ show_nat i @ '' failed: '') err"

fun apply_dial_options ::
  "nat \<Rightarrow> DialOption list \<Rightarrow> dialOptions \<times> pk_store \<Rightarrow> (dialOptions \<times> pk_store) res"
where
  "apply_dial_options i [] os = Inr os"
| "apply_dial_options i (opt # opts) os =
     (case opt os of
        Inl err \<Rightarrow> Inl (option_error i err)
      | Inr os1 \<Rightarrow> apply_dial_options (Suc i) opts os1)"

lemma apply_dial_options_append:
  "apply_dial_options i (xs @ ys) os =
     (case apply_dial_options i xs os of
        Inl e \<Rightarrow> Inl e
      | Inr os1 \<Rightarrow> apply_dial_options (i + length xs) ys os1)"
  by (induction xs arbitrary: i os) (auto split: sum.split)

lemma apply_dial_options_first_error:
  assumes "apply_dial_options i opts os = Inl e"
  obtains pre opt post os1 err where "opts = pre @ opt # post"
    "apply_dial_options i pre os = Inr os1" "opt os1 = Inl err" "e = option_error (i + length pre) err"
proof -
  have "\<exists>pre opt post os1 err. opts = pre @ opt # post \<and> apply_dial_options i pre os = Inr os1
    \<and> opt os1 = Inl err \<and> e = option_error (i + length pre) err"
    using assms
  proof (induction opts arbitrary: i os)
    case Nil
    then show ?case by simp
  next
    case (Cons o1 opts)
    show ?case
    proof (cases "o1 os")
      case (Inl err)
      with Cons.prems show ?thesis
        by (intro exI [of _ "[]"] exI [of _ o1] exI [of _ opts] exI [of _ os] exI [of _ err]) simp
    next
      case (Inr os1)
      with Cons.prems have "apply_dial_options (Suc i) opts os1 = Inl e" by simp
      from Cons.IH [OF this] obtain pre opt post os2 err where "opts = pre @ opt # post"
        "apply_dial_options (Suc i) pre os1 = Inr os2" "opt os2 = Inl err"
        "e = option_error (Suc i + length pre) err" by blast
      with Inr show ?thesis
        by (intro exI [of _ "o1 # pre"] exI [of _ opt] exI [of _ post] exI [of _ os2] exI [of _ err]) simp
    qed
  qed
  with that show ?thesis by blast
qed

subsection \<open>Server options\<close>

record serverOptions =
  so_writeBufferSize :: int
  so_readBufferSize :: int
  so_creds :: TransportCredentials
  so_healthcheckAddr :: string
  so_healthcheckTimeout :: duration
  so_wsTimeout :: duration
  so_wsReadLimit :: int64

type_synonym ServerOption = "serverOptions \<times> pk_store \<Rightarrow> serverOptions \<times> pk_store"

definition newFuncServerOption :: "(serverOptions \<Rightarrow> serverOptions) \<Rightarrow> ServerOption" where
  "newFuncServerOption f = (\<lambda>(o', st). (f o', st))"

definition WithHTTPReadTimeout :: "duration \<Rightarrow> duration \<Rightarrow> ServerOption" where
  "WithHTTPReadTimeout hctime wstime =
     newFuncServerOption (\<lambda>o'. o'\<lparr>so_healthcheckTimeout := hctime, so_wsTimeout := wstime\<rparr>)"

definition WithWSReadLimit :: "int64 \<Rightarrow> ServerOption" where
  "WithWSReadLimit numBytes = newFuncServerOption (\<lambda>o'. o'\<lparr>so_wsReadLimit := numBytes\<rparr>)"

text \<open>
  The two credential options return without a trace when a step fails.  A list of public keys
  that was already checked stays allocated.
\<close>

definition WithCreds ::
  "(int \<Rightarrow> Signer \<Rightarrow> bytes res) \<Rightarrow> bytes \<Rightarrow> bytes list \<Rightarrow> ServerOption"
where
  "WithCreds create privKey pubKeys = (\<lambda>(o', st).
     case ValidPrivateKeyFromEd25519 privKey of
       Inl err \<Rightarrow> (o', st)
     | Inr priv \<Rightarrow>
         (case ValidPublicKeysFromEd25519 pubKeys st of
            Inl err \<Rightarrow> (o', st)
          | Inr (pubs, st1) \<Rightarrow>
              (case NewServerTLSConfig create priv pubs of
                 Inl err \<Rightarrow> (o', st1)
               | Inr config \<Rightarrow> (o'\<lparr>so_creds := NewTLS config pubs\<rparr>, st1))))"

definition WithSigner ::
  "(int \<Rightarrow> Signer \<Rightarrow> bytes res) \<Rightarrow> Signer \<Rightarrow> bytes list \<Rightarrow> ServerOption"
where
  "WithSigner create signer pubKeys = (\<lambda>(o', st).
     case ValidPublicKeysFromEd25519 pubKeys st of
       Inl err \<Rightarrow> (o', st)
     | Inr (pubs, st1) \<Rightarrow>
         (case NewServerTLSSigner create signer pubs of
            Inl err \<Rightarrow> (o', st1)
          | Inr config \<Rightarrow> (o'\<lparr>so_creds := NewTLS config pubs\<rparr>, st1)))"

definition WriteBufferSize :: "int \<Rightarrow> ServerOption" where
  "WriteBufferSize sz = newFuncServerOption (\<lambda>o'. o'\<lparr>so_writeBufferSize := sz\<rparr>)"

definition ReadBufferSize :: "int \<Rightarrow> ServerOption" where
  "ReadBufferSize sz = newFuncServerOption (\<lambda>o'. o'\<lparr>so_readBufferSize := sz\<rparr>)"

definition defaultServerOptions :: serverOptions where
  "defaultServerOptions =
     \<lparr>so_writeBufferSize = 4096, so_readBufferSize = 4096, so_creds = no_creds,
      so_healthcheckAddr = [], so_healthcheckTimeout = 5 * Second, so_wsTimeout = 10 * Second,
      so_wsReadLimit = 10000000\<rparr>"

definition WithHealthcheck :: "string \<Rightarrow> ServerOption" where
  "WithHealthcheck addr = newFuncServerOption (\<lambda>o'. o'\<lparr>so_healthcheckAddr := addr\<rparr>)"

text \<open>The loop of \<open>NewServer\<close> over its options.\<close>

definition apply_server_options :: "ServerOption list \<Rightarrow> pk_store \<Rightarrow> serverOptions \<times> pk_store" where
  "apply_server_options opts st = fold (\<lambda>opt os. opt os) opts (defaultServerOptions, st)"

text \<open>The credentials an option list leaves always check peers against their own key list.\<close>

definition creds_linked :: "TransportCredentials \<Rightarrow> bool" where
  "creds_linked c = (case (creds_config c, creds_public_keys c) of
       (None, None) \<Rightarrow> True
     | (Some cfg, Some r) \<Rightarrow> cfg_verify_peer cfg = r \<and> cfg_client_auth cfg = RequireAnyClientCert
     | _ \<Rightarrow> False)"

lemma NewServerTLSSigner_verify:
  "NewServerTLSSigner create signer pubs = Inr c \<Longrightarrow>
     cfg_verify_peer c = pubs \<and> cfg_client_auth c = RequireAnyClientCert"
  by (auto simp: NewServerTLSSigner_def newMutualTLSConfig_def split: sum.splits)

lemma creds_linked_NewTLS [simp]:
  "creds_linked (NewTLS config r) \<longleftrightarrow>
     cfg_verify_peer config = r \<and> cfg_client_auth config = RequireAnyClientCert"
  by (simp add: creds_linked_def NewTLS_def)

lemma creds_linked_no_creds [simp]: "creds_linked no_creds"
  by (simp add: creds_linked_def no_creds_def)

text \<open>
  \<open>WithCreds\<close> drops key errors: with a private key of the wrong length or a public key of
  the wrong length it changes nothing, so the server keeps the credentials it had, by default
  none; with keys of the right lengths and a certificate it installs a configuration that
  requires a client certificate and checks it against exactly these public keys.
\<close>

lemma WithCreds_spec:
  "(length privKey \<noteq> PrivateKeySize \<or> (\<exists>k \<in> set pubKeys. \<not> is_static k) \<longrightarrow>
      WithCreds create privKey pubKeys (o', st) = (o', st))
   \<and> (length privKey = PrivateKeySize \<and> (\<forall>k \<in> set pubKeys. is_static k)
        \<and> create 0 (PrivateKeySigner privKey) = Inr cert \<longrightarrow>
      (\<exists>cfg st'. WithCreds create privKey pubKeys (o', st) = (o'\<lparr>so_creds := NewTLS cfg (pk_next st)\<rparr>, st')
        \<and> cfg_client_auth cfg = RequireAnyClientCert \<and> cfg_verify_peer cfg = pk_next st
        \<and> cfg_certificates cfg \<noteq> [] \<and> PublicKeys_Keys st' (pk_next st) = pubKeys))"
proof (intro conjI impI, goal_cases)
  case 1
  then show ?case
    by (auto simp: WithCreds_def ValidPrivateKeyFromEd25519_def ValidPublicKeysFromEd25519_def is_static_def
        split: option.splits)
next
  case 2
  then have "check_key_lengths pubKeys = None" by (simp add: is_static_def)
  with 2 show ?case
    by (auto simp del: check_key_lengths_None simp: WithCreds_def ValidPrivateKeyFromEd25519_def
        ValidPublicKeysFromEd25519_def NewServerTLSConfig_def newMutualTLSConfig_def newMinimalX509Cert_def PublicKeys_Keys_def)
qed

end
