(* ===== verification/AddrConn.thy ===== *)
theory AddrConn
  imports Event Connectivity Options
begin

text \<open>
  The \<open>addrConn\<close> of \<open>client.go\<close>, the connection of a client to one address, together with the
  goroutine \<open>listenForConnectivityChange\<close> that mirrors its state into the connectivity state
  manager of the \<open>ClientConn\<close>.

  Every access to the mutable fields of an \<open>addrConn\<close> holds \<open>ac.mu\<close>, so a critical section is
  one step; goroutines interleave between critical sections.  The send on \<open>stateCh\<close> inside
  \<open>updateConnectivityState\<close> happens with the lock held: a step that contains it is enabled only
  when the listener is at its \<open>select\<close> or the context is done, and otherwise the goroutine waits
  there with the lock.  The transports are those of the theory \<open>Transport\<close>, every one that was
  ever created stays in a list, and a pointer to a transport is an index into it.
\<close>

subsection \<open>State\<close>

definition errConnClosing :: go_error where
  "errConnClosing = New ''wsrpc: the connection is closing''"

text \<open>What one call of \<open>createTransport\<close> shares with its callback: the transport, \<open>once\<close>, \<open>reconnect\<close>.\<close>

record client_tr =
  ct_tr :: WebsocketClient
  ct_once :: bool
  ct_reconnect :: Event

text \<open>
  Where the goroutine \<open>resetTransport\<close> stands: at the head of its loop, between the two
  critical sections after a failed or a successful \<open>createTransport\<close>, in the backoff wait, or
  in the last \<open>select\<close>.
\<close>

datatype reset_pc = RT_NotStarted | RT_Top | RT_Failed | RT_Backoff | RT_Created nat | RT_Watching nat | RT_Exited

text \<open>Where \<open>teardown\<close> stands: closing the old transport, waiting for \<open>resetTransport\<close>, returned.\<close>

datatype teardown_pc = TD_NotCalled | TD_Closing nat | TD_ClosingWait nat | TD_Waiting | TD_Returned

datatype bs_call = NextBackOff | Reset

record addrConn =
  ac_ctx_done :: bool
  ac_addr :: string
  ac_copts :: ConnectOptions
  ac_transport :: "nat option"
  ac_state :: State
  ac_trs :: "client_tr list"
  ac_bs :: "bs_call list"
  ac_reset :: reset_pc
  ac_teardown :: teardown_pc

datatype listener_pc = LS_Select | LS_Got State | LS_Exited

record conn_listener =
  ls_ctx_done :: bool
  ls_pc :: listener_pc
  ls_csMgr :: connectivityStateManager
  ls_chans :: chan_store

type_synonym conn = "addrConn \<times> conn_listener"

subsection \<open>Operations\<close>

datatype upd_branch = ToListener | OnDone

text \<open>\<open>updateConnectivityState\<close>; \<open>None\<close>: the chosen branch of the \<open>select\<close> is not ready.\<close>

definition updateConnectivityState :: "State \<Rightarrow> upd_branch \<Rightarrow> conn \<Rightarrow> conn option" where
  "updateConnectivityState s br = (\<lambda>(ac, ls).
     if ac_state ac = s then Some (ac, ls)
     else let ac1 = ac\<lparr>ac_state := s\<rparr>
          in case br of
               ToListener \<Rightarrow> if ls_pc ls = LS_Select then Some (ac1, ls\<lparr>ls_pc := LS_Got s\<rparr>) else None
             | OnDone \<Rightarrow> if ac_ctx_done ac1 then Some (ac1, ls) else None)"

definition connect_ac :: "upd_branch \<Rightarrow> conn \<Rightarrow> (unit res \<times> conn) option" where
  "connect_ac br = (\<lambda>(ac, ls).
     if ac_state ac = Shutdown then Some (Inl errConnClosing, (ac, ls))
     else if ac_state ac \<noteq> Idle then Some (Inr (), (ac, ls))
     else case updateConnectivityState Connecting br (ac, ls) of
            None \<Rightarrow> None
          | Some (ac1, ls1) \<Rightarrow> Some (Inr (), (ac1\<lparr>ac_reset := RT_Top\<rparr>, ls1)))"

text \<open>\<open>createTransport\<close>: a fresh \<open>reconnect\<close> event and \<open>once\<close>, and what the dialler returns.\<close>

definition createTransport ::
  "(string \<Rightarrow> tls_config option \<Rightarrow> unit res) \<Rightarrow> string \<Rightarrow> ConnectOptions \<Rightarrow> client_tr res"
where
  "createTransport dial addr copts =
     (case NewClientTransport dial addr copts of
        Inl err \<Rightarrow> Inl err
      | Inr tr \<Rightarrow> Inr \<lparr>ct_tr = tr, ct_once = False, ct_reconnect = NewEvent\<rparr>)"

text \<open>The critical sections and waits of \<open>resetTransport\<close>, in the order of the code.\<close>

definition reset_top ::
  "(string \<Rightarrow> tls_config option \<Rightarrow> unit res) \<Rightarrow> upd_branch \<Rightarrow> conn \<Rightarrow> conn option"
where
  "reset_top dial br = (\<lambda>(ac, ls).
     if ac_reset ac \<noteq> RT_Top then None
     else if ac_state ac = Shutdown then Some (ac\<lparr>ac_reset := RT_Exited\<rparr>, ls)
     else let ac1 = ac\<lparr>ac_bs := ac_bs ac @ [NextBackOff], ac_transport := None\<rparr>
          in case updateConnectivityState Connecting br (ac1, ls) of
               None \<Rightarrow> None
             | Some (ac2, ls2) \<Rightarrow>
                 (case createTransport dial (ac_addr ac2) (ac_copts ac2) of
                    Inl err \<Rightarrow> Some (ac2\<lparr>ac_reset := RT_Failed\<rparr>, ls2)
                  | Inr ct \<Rightarrow> Some (ac2\<lparr>ac_trs := ac_trs ac2 @ [ct],
                      ac_reset := RT_Created (length (ac_trs ac2))\<rparr>, ls2)))"

definition reset_failed :: "upd_branch \<Rightarrow> conn \<Rightarrow> conn option" where
  "reset_failed br = (\<lambda>(ac, ls).
     if ac_reset ac \<noteq> RT_Failed then None
     else if ac_state ac = Shutdown then Some (ac\<lparr>ac_reset := RT_Exited\<rparr>, ls)
     else case updateConnectivityState TransientFailure br (ac, ls) of
            None \<Rightarrow> None
          | Some (ac1, ls1) \<Rightarrow> Some (ac1\<lparr>ac_reset := RT_Backoff\<rparr>, ls1))"

datatype backoff_branch = TimerFires | BackoffCtxDone

definition reset_backoff :: "backoff_branch \<Rightarrow> conn \<Rightarrow> conn option" where
  "reset_backoff br = (\<lambda>(ac, ls).
     if ac_reset ac \<noteq> RT_Backoff then None
     else case br of
            TimerFires \<Rightarrow> Some (ac\<lparr>ac_reset := RT_Top\<rparr>, ls)
          | BackoffCtxDone \<Rightarrow> if ac_ctx_done ac then Some (ac\<lparr>ac_reset := RT_Exited\<rparr>, ls) else None)"

definition reset_created :: "upd_branch \<Rightarrow> conn \<Rightarrow> conn option" where
  "reset_created br = (\<lambda>(ac, ls).
     case ac_reset ac of
       RT_Created i \<Rightarrow>
         if ac_state ac = Shutdown then Some (ac\<lparr>ac_reset := RT_Exited\<rparr>, ls)
         else (case updateConnectivityState Ready br
                  (ac\<lparr>ac_transport := Some i, ac_bs := ac_bs ac @ [Reset]\<rparr>, ls) of
                 None \<Rightarrow> None
               | Some (ac1, ls1) \<Rightarrow> Some (ac1\<lparr>ac_reset := RT_Watching i\<rparr>, ls1))
     | _ \<Rightarrow> None)"

datatype watch_branch = WatchCtxDone | WatchReconnect

definition reset_watch :: "watch_branch \<Rightarrow> conn \<Rightarrow> conn option" where
  "reset_watch br = (\<lambda>(ac, ls).
     case ac_reset ac of
       RT_Watching i \<Rightarrow>
         (case br of
            WatchCtxDone \<Rightarrow> if ac_ctx_done ac then Some (ac\<lparr>ac_reset := RT_Exited\<rparr>, ls) else None
          | WatchReconnect \<Rightarrow>
              if i < length (ac_trs ac) \<and> Done (ct_reconnect (ac_trs ac ! i))
              then Some (ac\<lparr>ac_reset := RT_Top\<rparr>, ls) else None)
     | _ \<Rightarrow> None)"

text \<open>The callback \<open>afterWritePump\<close> of the transport with index \<open>i\<close>.\<close>

definition afterWritePump_ac :: "nat \<Rightarrow> upd_branch \<Rightarrow> conn \<Rightarrow> conn go option" where
  "afterWritePump_ac i br = (\<lambda>(ac, ls).
     let ct = ac_trs ac ! i;
         upd = (if \<not> ct_once ct \<and> ac_state ac = Ready
                then updateConnectivityState Idle br (ac, ls) else Some (ac, ls))
     in case upd of
          None \<Rightarrow> None
        | Some (ac1, ls1) \<Rightarrow> Some (go_bind (Fire (ct_reconnect ct)) (\<lambda>(_, ev).
            Ret (ac1\<lparr>ac_trs := (ac_trs ac1)[i := ct\<lparr>ct_once := True, ct_reconnect := ev\<rparr>]\<rparr>, ls1))))"

text \<open>
  One event of the transport \<open>i\<close>.  When its write pump exits, the callback runs.  \<open>Close\<close> is
  called by \<open>teardown\<close> only.
\<close>

definition transport_event :: "nat \<Rightarrow> pump_event \<Rightarrow> upd_branch \<Rightarrow> conn \<Rightarrow> conn go option" where
  "transport_event i ev br = (\<lambda>(ac, ls).
     if \<not> i < length (ac_trs ac) \<or> ev = CallClose then None
     else case client_step (ct_tr (ac_trs ac ! i)) ev of
            None \<Rightarrow> None
          | Some (Panic p) \<Rightarrow> Some (Panic p)
          | Some (Ret tr) \<Rightarrow>
              let ac1 = ac\<lparr>ac_trs := (ac_trs ac)[i := (ac_trs ac ! i)\<lparr>ct_tr := tr\<rparr>]\<rparr>
              in if ev = PumpExits then afterWritePump_ac i br (ac1, ls) else Some (Ret (ac1, ls)))"

text \<open>\<open>teardown\<close>: the critical section, then closing the old transport, then waiting.\<close>

definition teardown_lock :: "upd_branch \<Rightarrow> conn \<Rightarrow> conn option" where
  "teardown_lock br = (\<lambda>(ac, ls).
     if ac_teardown ac \<noteq> TD_NotCalled then None
     else let ac1 = ac\<lparr>ac_ctx_done := True\<rparr>
          in if ac_state ac1 = Shutdown then Some (ac1\<lparr>ac_teardown := TD_Returned\<rparr>, ls)
             else (case updateConnectivityState Shutdown br (ac1\<lparr>ac_transport := None\<rparr>, ls) of
                     None \<Rightarrow> None
                   | Some (ac2, ls2) \<Rightarrow>
                       Some (ac2\<lparr>ac_teardown := (case ac_transport ac of
                                                  None \<Rightarrow> TD_Waiting
                                                | Some i \<Rightarrow> TD_Closing i)\<rparr>, ls2)))"

definition teardown_close :: "conn \<Rightarrow> conn go option" where
  "teardown_close = (\<lambda>(ac, ls).
     case ac_teardown ac of
       TD_Closing i \<Rightarrow>
         if i < length (ac_trs ac)
         then Some (go_bind (WebsocketClient_Close (ct_tr (ac_trs ac ! i))) (\<lambda>tr.
                Ret (ac\<lparr>ac_trs := (ac_trs ac)[i := (ac_trs ac ! i)\<lparr>ct_tr := tr\<rparr>],
                        ac_teardown := TD_ClosingWait i\<rparr>, ls)))
         else None
     | TD_ClosingWait i \<Rightarrow>
         if i < length (ac_trs ac) \<and> WebsocketClient_wg (ct_tr (ac_trs ac ! i)) = 0
         then Some (Ret (ac\<lparr>ac_teardown := TD_Waiting\<rparr>, ls)) else None
     | TD_Waiting \<Rightarrow>
         if ac_reset ac \<in> {RT_NotStarted, RT_Exited}
         then Some (Ret (ac\<lparr>ac_teardown := TD_Returned\<rparr>, ls)) else None
     | _ \<Rightarrow> None)"

text \<open>\<open>cc.cancel\<close>: the context of the \<open>addrConn\<close> is a child of the one of the \<open>ClientConn\<close>.\<close>

definition cancel_cc :: "conn \<Rightarrow> conn" where
  "cancel_cc = (\<lambda>(ac, ls). (ac\<lparr>ac_ctx_done := True\<rparr>, ls\<lparr>ls_ctx_done := True\<rparr>))"

text \<open>The goroutine \<open>listenForConnectivityChange\<close>: finish an update, or leave the \<open>select\<close>.\<close>

definition listen_update :: "conn \<Rightarrow> conn go option" where
  "listen_update = (\<lambda>(ac, ls).
     case ls_pc ls of
       LS_Got s \<Rightarrow> Some (go_bind (updateState s (ls_csMgr ls) (ls_chans ls)) (\<lambda>(csm, h).
         Ret (ac, ls\<lparr>ls_csMgr := csm, ls_chans := h, ls_pc := LS_Select\<rparr>)))
     | _ \<Rightarrow> None)"

definition listen_done :: "conn \<Rightarrow> conn option" where
  "listen_done = (\<lambda>(ac, ls).
     if ls_pc ls = LS_Select \<and> ls_ctx_done ls then Some (ac, ls\<lparr>ls_pc := LS_Exited\<rparr>) else None)"

text \<open>\<open>newAddrConn\<close>; the notification channel of the new \<open>ClientConn\<close> is taken once.\<close>

definition newAddrConn :: "string \<Rightarrow> dialOptions \<Rightarrow> bool \<Rightarrow> chan_store \<Rightarrow> conn" where
  "newAddrConn addr dopts ctx_done h =
     (case getNotifyChan new_csm h of (_, csm, h1) \<Rightarrow>
        (\<lparr>ac_ctx_done = ctx_done, ac_addr = addr, ac_copts = do_copts dopts, ac_transport = None,
          ac_state = Idle, ac_trs = [], ac_bs = [], ac_reset = RT_NotStarted,
          ac_teardown = TD_NotCalled\<rparr>,
         \<lparr>ls_ctx_done = ctx_done, ls_pc = LS_Select, ls_csMgr = csm, ls_chans = h1\<rparr>))"

subsection \<open>The step relation\<close>

text \<open>
  \<open>DialWithContext\<close> calls \<open>connect\<close> once, right after \<open>newAddrConn\<close>, and \<open>Close\<close> reaches
  \<open>teardown\<close> once.  \<open>StateWatcher\<close> is any goroutine that takes the notification channel.
\<close>

datatype conn_event =
    Connect upd_branch
  | ResetTop "string \<Rightarrow> tls_config option \<Rightarrow> unit res" upd_branch
  | ResetFailed upd_branch
  | ResetBackoff backoff_branch
  | ResetCreated upd_branch
  | ResetWatch watch_branch
  | TransportEvent nat pump_event upd_branch
  | TeardownLock upd_branch
  | TeardownClose
  | Cancel
  | ListenUpdate
  | ListenDone
  | StateWatcher

definition watch_state :: "conn \<Rightarrow> conn" where
  "watch_state = (\<lambda>(ac, ls). case getNotifyChan (ls_csMgr ls) (ls_chans ls) of
     (_, csm, h) \<Rightarrow> (ac, ls\<lparr>ls_csMgr := csm, ls_chans := h\<rparr>))"

primrec conn_step :: "conn_event \<Rightarrow> conn \<Rightarrow> conn go option" where
  "conn_step (Connect br) c =
     (if ac_reset (fst c) = RT_NotStarted \<and> ac_teardown (fst c) = TD_NotCalled
      then map_option (\<lambda>(_, c'). Ret c') (connect_ac br c) else None)"
| "conn_step (ResetTop dial br) c = map_option Ret (reset_top dial br c)"
| "conn_step (ResetFailed br) c = map_option Ret (reset_failed br c)"
| "conn_step (ResetBackoff br) c = map_option Ret (reset_backoff br c)"
| "conn_step (ResetCreated br) c = map_option Ret (reset_created br c)"
| "conn_step (ResetWatch br) c = map_option Ret (reset_watch br c)"
| "conn_step (TransportEvent i ev br) c = transport_event i ev br c"
| "conn_step (TeardownLock br) c = map_option Ret (teardown_lock br c)"
| "conn_step TeardownClose c = teardown_close c"
| "conn_step Cancel c = Some (Ret (cancel_cc c))"
| "conn_step ListenUpdate c = listen_update c"
| "conn_step ListenDone c = map_option Ret (listen_done c)"
| "conn_step StateWatcher c = Some (Ret (watch_state c))"

inductive conn_reachable :: "conn \<Rightarrow> bool" where
  conn_init: "wf_chans h \<Longrightarrow> conn_reachable (newAddrConn addr dopts ctx_done h)"
| conn_next: "conn_reachable c \<Longrightarrow> conn_step e c = Some (Ret c') \<Longrightarrow> conn_reachable c'"

subsection \<open>The invariant\<close>

text \<open>The state the listener has or is about to publish.\<close>

definition ls_view :: "conn_listener \<Rightarrow> State" where
  "ls_view ls = (case ls_pc ls of LS_Got s \<Rightarrow> s | _ \<Rightarrow> csm_state (ls_csMgr ls))"

definition inv_listener :: "conn \<Rightarrow> bool" where
  "inv_listener = (\<lambda>(ac, ls). csm_ok (ls_csMgr ls) (ls_chans ls)
     \<and> (ls_ctx_done ls \<longrightarrow> ac_ctx_done ac) \<and> (ls_pc ls = LS_Exited \<longrightarrow> ls_ctx_done ls)
     \<and> (\<not> ac_ctx_done ac \<longrightarrow> ls_view ls = ac_state ac))"

text \<open>A transport has ended when its write pump has, and exactly then \<open>reconnect\<close> has fired.\<close>

definition ended :: "client_tr \<Rightarrow> bool" where
  "ended ct \<longleftrightarrow> tr_writePump (ct_tr ct) = WP_Done"

definition tr_ok :: "client_tr \<Rightarrow> bool" where
  "tr_ok ct \<longleftrightarrow> good_client (ct_tr ct) \<and> wf_event (ct_reconnect ct) \<and> (Done (ct_reconnect ct) \<longleftrightarrow> ended ct)"

definition inv_trs :: "client_tr list \<Rightarrow> bool" where
  "inv_trs trs \<longleftrightarrow> (\<forall>ct \<in> set trs. tr_ok ct) \<and> (\<forall>ct \<in> set (butlast trs). ended ct)"

primrec pc_ok :: "reset_pc \<Rightarrow> client_tr list \<Rightarrow> nat option \<Rightarrow> State \<Rightarrow> bool \<Rightarrow> bool" where
  "pc_ok RT_NotStarted trs tr s d \<longleftrightarrow> trs = [] \<and> tr = None \<and> s \<in> {Idle, Shutdown}"
| "pc_ok RT_Top trs tr s d \<longleftrightarrow> (\<forall>ct \<in> set trs. ended ct)"
| "pc_ok RT_Failed trs tr s d \<longleftrightarrow> (\<forall>ct \<in> set trs. ended ct) \<and> tr = None \<and> s \<noteq> Ready"
| "pc_ok RT_Backoff trs tr s d \<longleftrightarrow> (\<forall>ct \<in> set trs. ended ct) \<and> tr = None \<and> s \<noteq> Ready"
| "pc_ok (RT_Created i) trs tr s d \<longleftrightarrow> Suc i = length trs \<and> tr = None \<and> s \<in> {Connecting, Shutdown}"
| "pc_ok (RT_Watching i) trs tr s d \<longleftrightarrow> Suc i = length trs \<and> (s = Shutdown \<or> tr = Some i)"
| "pc_ok RT_Exited trs tr s d \<longleftrightarrow> d"

definition inv_reset :: "addrConn \<Rightarrow> bool" where
  "inv_reset ac \<longleftrightarrow>
     pc_ok (ac_reset ac) (ac_trs ac) (ac_transport ac) (ac_state ac) (ac_ctx_done ac)
     \<and> (ac_state ac = Ready \<longrightarrow> ac_transport ac \<noteq> None)
     \<and> (\<forall>i. ac_transport ac = Some i \<longrightarrow> Suc i = length (ac_trs ac) \<and> ac_state ac \<in> {Ready, Idle})"

lemma pc_ok_shutdown: "pc_ok pc trs tr s d \<Longrightarrow> pc_ok pc trs None Shutdown True"
  by (cases pc) auto

lemma pc_ok_cancel: "pc_ok pc trs tr s d \<Longrightarrow> pc_ok pc trs tr s True"
  by (cases pc) auto

lemma pc_ok_idle: "pc_ok pc trs tr Ready d \<Longrightarrow> tr \<noteq> None \<Longrightarrow> pc_ok pc trs tr Idle d"
  by (cases pc) auto

definition inv_teardown :: "addrConn \<Rightarrow> bool" where
  "inv_teardown ac \<longleftrightarrow>
     (ac_state ac = Shutdown \<longleftrightarrow> ac_teardown ac \<noteq> TD_NotCalled)
     \<and> (ac_teardown ac \<noteq> TD_NotCalled \<longrightarrow> ac_ctx_done ac \<and> ac_transport ac = None)
     \<and> (ac_teardown ac = TD_NotCalled \<longrightarrow> (\<forall>ct \<in> set (ac_trs ac). \<not> tr_closeConn (ct_tr ct)))
     \<and> (\<forall>i. ac_teardown ac = TD_Closing i \<longrightarrow> i < length (ac_trs ac) \<and> \<not> tr_closeConn (ct_tr (ac_trs ac ! i)))
     \<and> (\<forall>i. ac_teardown ac = TD_ClosingWait i \<longrightarrow> i < length (ac_trs ac))
     \<and> (ac_teardown ac = TD_Returned \<longrightarrow> ac_reset ac \<in> {RT_NotStarted, RT_Exited})"

definition conn_inv :: "conn \<Rightarrow> bool" where
  "conn_inv c \<longleftrightarrow> inv_listener c \<and> inv_trs (ac_trs (fst c)) \<and> inv_reset (fst c) \<and> inv_teardown (fst c)"

lemma updateConnectivityState_cases:
  assumes "updateConnectivityState s br (ac, ls) = Some c"
  obtains (same) "ac_state ac = s" "c = (ac, ls)"
  | (sent) "ls_pc ls = LS_Select" "c = (ac\<lparr>ac_state := s\<rparr>, ls\<lparr>ls_pc := LS_Got s\<rparr>)"
  | (dropped) "ac_ctx_done ac" "c = (ac\<lparr>ac_state := s\<rparr>, ls)"
  using assms by (auto simp: updateConnectivityState_def Let_def split: if_splits upd_branch.splits)

text \<open>An update keeps what the listener side promises and changes the state field only.\<close>

lemma updateConnectivityState_inv:
  assumes "updateConnectivityState s br (ac, ls) = Some (ac', ls')" "inv_listener (ac, ls)"
  shows "inv_listener (ac', ls') \<and> ac' = ac\<lparr>ac_state := s\<rparr>"
  using assms(1)
  by (cases rule: updateConnectivityState_cases) (use assms(2) in \<open>auto simp: inv_listener_def ls_view_def\<close>)

lemma inv_listener_cong:
  "ac_ctx_done ac' = ac_ctx_done ac \<Longrightarrow> ac_state ac' = ac_state ac \<Longrightarrow>
     inv_listener (ac', ls) = inv_listener (ac, ls)"
  by (simp add: inv_listener_def)

lemma createTransport_ok:
  "createTransport dial addr copts = Inr ct \<Longrightarrow> tr_ok ct \<and> \<not> ended ct \<and> \<not> tr_closeConn (ct_tr ct)"
  by (auto simp: createTransport_def NewClientTransport_def newWebsocketClient_def tr_ok_def ended_def
      good_client_def NewEvent_def wf_event_def Done_def WebsocketClient_Start_def
      newWebsocketClientConfig_def Let_def split: sum.splits)

lemma conn_inv_init:
  assumes "wf_chans h"
  shows "conn_inv (newAddrConn addr dopts d h)"
proof -
  obtain ch csm h1 where g: "getNotifyChan new_csm h = (ch, csm, h1)" by (cases "getNotifyChan new_csm h")
  have "csm_ok csm h1" "csm_state csm = Idle"
    using csm.get_chan_live [OF csm_ok_new [OF assms] g] by (simp_all add: new_csm_def)
  with g show ?thesis
    by (simp add: newAddrConn_def conn_inv_def inv_listener_def inv_trs_def inv_reset_def inv_teardown_def ls_view_def)
qed

lemmas inv_defs = conn_inv_def inv_trs_def inv_reset_def inv_teardown_def

text \<open>Moves of \<open>resetTransport\<close> that change nothing else.\<close>

lemma conn_inv_exit:
  assumes "conn_inv (ac, ls)" "ac_ctx_done ac"
  shows "conn_inv (ac\<lparr>ac_reset := RT_Exited\<rparr>, ls)"
  using assms by (simp add: conn_inv_def inv_listener_def inv_reset_def inv_teardown_def)

lemma conn_inv_top:
  assumes "conn_inv (ac, ls)" "ac_reset ac \<notin> {RT_NotStarted, RT_Exited}" "\<forall>ct \<in> set (ac_trs ac). ended ct"
  shows "conn_inv (ac\<lparr>ac_reset := RT_Top\<rparr>, ls)"
  using assms by (simp add: conn_inv_def inv_listener_def inv_reset_def inv_teardown_def)

lemma shutdown_ctx_done: "conn_inv (ac, ls) \<Longrightarrow> ac_state ac = Shutdown \<Longrightarrow> ac_ctx_done ac"
  by (simp add: conn_inv_def inv_teardown_def)

text \<open>Every step keeps the invariant; first the steps that publish a state.\<close>

lemma connect_inv:
  assumes "conn_inv c" "conn_step (Connect br) c = Some (Ret c')"
  shows "conn_inv c'"
proof -
  obtain ac ls where c: "c = (ac, ls)" by (cases c)
  from assms(2) c have start: "ac_reset ac = RT_NotStarted" "ac_teardown ac = TD_NotCalled"
    by (auto split: if_splits)
  with assms(1) c have "ac_state ac = Idle" by (auto simp: inv_defs)
  with assms(2) c start obtain ac1 ls1 where
    u: "updateConnectivityState Connecting br (ac, ls) = Some (ac1, ls1)" and c': "c' = (ac1\<lparr>ac_reset := RT_Top\<rparr>, ls1)"
    by (auto simp: connect_ac_def split: if_splits option.splits)
  with updateConnectivityState_inv [OF u] assms(1) c start show ?thesis
    by (auto simp: inv_defs inv_listener_def)
qed

lemma reset_top_inv:
  assumes "conn_inv c" "reset_top dial br c = Some c'"
  shows "conn_inv c'"
proof -
  obtain ac ls where c: "c = (ac, ls)" by (cases c)
  let ?ac1 = "ac\<lparr>ac_bs := ac_bs ac @ [NextBackOff], ac_transport := None\<rparr>"
  from assms(2) c have top: "ac_reset ac = RT_Top" by (auto simp: reset_top_def split: if_splits)
  show ?thesis
  proof (cases "ac_state ac = Shutdown")
    case True
    with assms(2) c top have "c' = (ac\<lparr>ac_reset := RT_Exited\<rparr>, ls)" by (simp add: reset_top_def)
    with assms(1) c True show ?thesis by (simp add: conn_inv_exit shutdown_ctx_done)
  next
    case False
    with assms(2) c top obtain ac2 ls2 where
      u: "updateConnectivityState Connecting br (?ac1, ls) = Some (ac2, ls2)"
      and c': "c' = (case createTransport dial (ac_addr ac2) (ac_copts ac2) of
                    Inl err \<Rightarrow> (ac2\<lparr>ac_reset := RT_Failed\<rparr>, ls2)
                  | Inr ct \<Rightarrow> (ac2\<lparr>ac_trs := ac_trs ac2 @ [ct],
                      ac_reset := RT_Created (length (ac_trs ac2))\<rparr>, ls2))"
      by (auto simp: reset_top_def Let_def split: option.splits sum.splits)
    from assms(1) c have "inv_listener (?ac1, ls)" by (simp add: conn_inv_def inv_listener_def)
    with updateConnectivityState_inv [OF u]
    have ac2: "inv_listener (ac2, ls2)" "ac2 = ?ac1\<lparr>ac_state := Connecting\<rparr>" by blast+
    have ended_all: "\<forall>ct \<in> set (ac_trs ac). ended ct \<and> tr_ok ct"
      using assms(1) c top by (auto simp: inv_defs)
    show ?thesis
    proof (cases "createTransport dial (ac_addr ac2) (ac_copts ac2)")
      case (Inl err)
      with assms(1) c False top c' ac2 show ?thesis
        by (auto simp: inv_defs inv_listener_def dest: in_set_butlastD)
    next
      case (Inr ct)
      with createTransport_ok [OF Inr] assms(1) c False top c' ac2 ended_all show ?thesis
        by (auto simp: inv_defs inv_listener_def)
    qed
  qed
qed

lemma reset_failed_inv:
  assumes "conn_inv c" "reset_failed br c = Some c'"
  shows "conn_inv c'"
proof -
  obtain ac ls where c: "c = (ac, ls)" by (cases c)
  from assms(2) c have f: "ac_reset ac = RT_Failed" by (auto simp: reset_failed_def split: if_splits)
  show ?thesis
  proof (cases "ac_state ac = Shutdown")
    case True
    with assms(2) c f have "c' = (ac\<lparr>ac_reset := RT_Exited\<rparr>, ls)" by (simp add: reset_failed_def)
    with assms(1) c True show ?thesis by (simp add: conn_inv_exit shutdown_ctx_done)
  next
    case False
    with assms(2) c f obtain ac1 ls1 where
      u: "updateConnectivityState TransientFailure br (ac, ls) = Some (ac1, ls1)"
      and c': "c' = (ac1\<lparr>ac_reset := RT_Backoff\<rparr>, ls1)"
      by (auto simp: reset_failed_def split: option.splits)
    with updateConnectivityState_inv [OF u] assms(1) c f False show ?thesis
      by (auto simp: inv_defs inv_listener_def)
  qed
qed

lemma reset_created_inv:
  assumes "conn_inv c" "reset_created br c = Some c'"
  shows "conn_inv c'"
proof -
  obtain ac ls where c: "c = (ac, ls)" by (cases c)
  from assms(2) c obtain i where f: "ac_reset ac = RT_Created i"
    by (auto simp: reset_created_def split: reset_pc.splits)
  let ?ac1 = "ac\<lparr>ac_transport := Some i, ac_bs := ac_bs ac @ [Reset]\<rparr>"
  show ?thesis
  proof (cases "ac_state ac = Shutdown")
    case True
    with assms(2) c f have "c' = (ac\<lparr>ac_reset := RT_Exited\<rparr>, ls)" by (simp add: reset_created_def)
    with assms(1) c True show ?thesis by (simp add: conn_inv_exit shutdown_ctx_done)
  next
    case False
    with assms(2) c f obtain ac1 ls1 where
      u: "updateConnectivityState Ready br (?ac1, ls) = Some (ac1, ls1)"
      and c': "c' = (ac1\<lparr>ac_reset := RT_Watching i\<rparr>, ls1)"
      by (auto simp: reset_created_def split: option.splits)
    from assms(1) c have "inv_listener (?ac1, ls)" by (simp add: conn_inv_def inv_listener_def)
    with updateConnectivityState_inv [OF u] assms(1) c f False c' show ?thesis
      by (auto simp: inv_defs inv_listener_def)
  qed
qed

lemma teardown_lock_inv:
  assumes "conn_inv c" "teardown_lock br c = Some c'"
  shows "conn_inv c'"
proof -
  obtain ac ls where c: "c = (ac, ls)" by (cases c)
  let ?ac1 = "ac\<lparr>ac_ctx_done := True, ac_transport := None\<rparr>"
  from assms(2) c have f: "ac_teardown ac = TD_NotCalled" by (auto simp: teardown_lock_def split: if_splits)
  with assms(1) c have ns: "ac_state ac \<noteq> Shutdown" by (auto simp: inv_defs)
  with assms(2) c f obtain ac1 ls1 where
    u: "updateConnectivityState Shutdown br (?ac1, ls) = Some (ac1, ls1)"
    and c': "c' = (ac1\<lparr>ac_teardown := (case ac_transport ac of None \<Rightarrow> TD_Waiting | Some i \<Rightarrow> TD_Closing i)\<rparr>, ls1)"
    by (auto simp: teardown_lock_def split: option.splits)
  from assms(1) c have "inv_listener (?ac1, ls)" by (simp add: conn_inv_def inv_listener_def)
  with updateConnectivityState_inv [OF u] have l1: "inv_listener (ac1, ls1)" and ac1: "ac1 = ?ac1\<lparr>ac_state := Shutdown\<rparr>"
    by blast+
  have tr: "\<forall>i. ac_transport ac = Some i \<longrightarrow> i < length (ac_trs ac) \<and> \<not> tr_closeConn (ct_tr (ac_trs ac ! i))"
    using assms(1) c f by (auto simp: conn_inv_def inv_reset_def inv_teardown_def)
  have pc: "pc_ok (ac_reset ac) (ac_trs ac) None Shutdown True"
    using assms(1) c by (auto simp: conn_inv_def inv_reset_def intro: pc_ok_shutdown)
  show ?thesis
    using assms(1) c l1 tr pc unfolding c' ac1
    by (simp add: conn_inv_def inv_listener_def inv_reset_def inv_teardown_def split: option.split)
qed

text \<open>What a transport event does to the facts the invariant keeps of a transport.\<close>

lemma client_step_facts:
  assumes "client_step tr ev = Some (Ret tr')" "ev \<noteq> CallClose"
  shows "tr_closeConn tr' = tr_closeConn tr
    \<and> (tr_writePump tr' = WP_Done \<longleftrightarrow> tr_writePump tr = WP_Done \<or> ev = PumpExits)
    \<and> (ev = PumpExits \<longrightarrow> tr_writePump tr \<noteq> WP_Done)"
  using assms by (cases ev) (auto simp: client_step_simps split: if_splits read_pc.splits)

lemma trs_update_ok:
  assumes "inv_trs trs" "i < length trs" "tr_ok ct" "ended (trs ! i) \<Longrightarrow> ended ct"
  shows "inv_trs (trs[i := ct])"
proof -
  have "ended x" if "x \<in> set (butlast (trs[i := ct]))" for x
  proof -
    from that obtain j where j: "j < length (butlast trs)" "x = (trs[i := ct]) ! j"
      by (auto simp: in_set_conv_nth nth_butlast)
    then have "ended (trs ! j)"
      using assms(1) nth_mem [OF j(1)] by (simp add: inv_trs_def nth_butlast)
    with j assms(2,4) show ?thesis by (cases "i = j") (auto simp: nth_list_update)
  qed
  moreover have "\<forall>x \<in> set (trs[i := ct]). tr_ok x"
    using assms(1,3) set_update_subset_insert [of trs i ct] by (auto simp: inv_trs_def)
  ultimately show ?thesis by (simp add: inv_trs_def)
qed

text \<open>Replacing a transport by one that has the same \<open>closeConn\<close> and is not less ended.\<close>

lemma ended_update:
  assumes "\<forall>x \<in> set trs. ended x" "i < length trs" "ended (trs ! i) \<Longrightarrow> ended ct"
  shows "\<forall>x \<in> set (trs[i := ct]). ended x"
  using assms set_update_subset_insert [of trs i ct] by auto

lemma inv_reset_update:
  assumes "inv_reset ac" "i < length (ac_trs ac)" "ended (ac_trs ac ! i) \<Longrightarrow> ended ct"
  shows "inv_reset (ac\<lparr>ac_trs := (ac_trs ac)[i := ct]\<rparr>)"
  using assms(1) ended_update [OF _ assms(2,3)] assms(2)
  by (cases "ac_reset ac") (auto simp: inv_reset_def)

lemma inv_teardown_update:
  assumes "inv_teardown ac" "i < length (ac_trs ac)"
    and "tr_closeConn (ct_tr ct) = tr_closeConn (ct_tr (ac_trs ac ! i))"
  shows "inv_teardown (ac\<lparr>ac_trs := (ac_trs ac)[i := ct]\<rparr>)"
proof -
  have "\<not> tr_closeConn (ct_tr x)" if "\<forall>x \<in> set (ac_trs ac). \<not> tr_closeConn (ct_tr x)"
    "x \<in> set ((ac_trs ac)[i := ct])" for x
    using that assms(2,3) set_update_subset_insert [of "ac_trs ac" i ct] by auto
  with assms show ?thesis by (auto simp: inv_teardown_def nth_list_update)
qed

lemma transport_event_inv:
  assumes "conn_inv c" "transport_event i ev br c = Some (Ret c')"
  shows "conn_inv c'"
proof -
  obtain ac ls where c: "c = (ac, ls)" by (cases c)
  let ?ct = "ac_trs ac ! i"
  from assms(2) c obtain tr where i: "i < length (ac_trs ac)" and ev: "ev \<noteq> CallClose"
    and st: "client_step (ct_tr ?ct) ev = Some (Ret tr)"
    by (auto simp: transport_event_def split: if_splits option.splits go.splits)
  let ?ct1 = "?ct\<lparr>ct_tr := tr\<rparr>"
  let ?ac1 = "ac\<lparr>ac_trs := (ac_trs ac)[i := ?ct1]\<rparr>"
  have ok: "tr_ok ?ct" using assms(1) c i by (auto simp: inv_defs)
  note facts = client_step_facts [OF st ev, THEN conjunct1] client_step_facts [OF st ev, THEN conjunct2]
  have good: "good_client tr" using client_pump.step_good [OF _ st] ok by (simp add: tr_ok_def)
  show ?thesis
  proof (cases "ev = PumpExits")
    case False
    with assms(2) c i ev st have c': "c' = (?ac1, ls)" by (simp add: transport_event_def)
    have "tr_ok ?ct1" "ended ?ct \<Longrightarrow> ended ?ct1"
      using ok good facts False by (auto simp: tr_ok_def ended_def)
    with assms(1) c c' i facts show ?thesis
      by (auto simp: conn_inv_def inv_listener_def intro: trs_update_ok inv_reset_update inv_teardown_update)
  next
    case True
    define upd where "upd = (if \<not> ct_once ?ct1 \<and> ac_state ?ac1 = Ready
                then updateConnectivityState Idle br (?ac1, ls) else Some (?ac1, ls))"
    from assms(2) c i ev st True obtain ac2 ls2 b e where
      u: "upd = Some (ac2, ls2)" and f: "Fire (ct_reconnect ?ct) = Ret (b, e)"
      and c': "c' = (ac2\<lparr>ac_trs := (ac_trs ac2)[i := ?ct1\<lparr>ct_once := True, ct_reconnect := e\<rparr>]\<rparr>, ls2)"
      by (auto simp: transport_event_def afterWritePump_ac_def upd_def Let_def split: option.splits)
    let ?ct2 = "?ct1\<lparr>ct_once := True, ct_reconnect := e\<rparr>"
    have l1: "inv_listener (?ac1, ls)" using assms(1) c by (simp add: conn_inv_def inv_listener_def)
    have ac2: "inv_listener (ac2, ls2) \<and> (ac2 = ?ac1 \<or> ac_state ac = Ready \<and> ac2 = ?ac1\<lparr>ac_state := Idle\<rparr>)"
      using u l1 updateConnectivityState_inv [of Idle br ?ac1 ls ac2 ls2]
      by (auto simp: upd_def split: if_splits)
    have "wf_event e \<and> Done e"
      using ok f by (auto simp: tr_ok_def wf_event_def Done_def Fire_def Let_def split: if_splits)
    then have ct2: "tr_ok ?ct2" "ended ?ct2"
      using good facts True by (auto simp: tr_ok_def ended_def)
    let ?ac3 = "ac\<lparr>ac_trs := (ac_trs ac)[i := ?ct2]\<rparr>"
    have inv3: "inv_trs (ac_trs ?ac3)" "inv_reset ?ac3" "inv_teardown ?ac3"
      using assms(1) c i ct2 facts(1)
      by (auto simp: conn_inv_def intro: trs_update_ok inv_reset_update inv_teardown_update)
    have "c' = (?ac3, ls2) \<or> ac_state ac = Ready \<and> c' = (?ac3\<lparr>ac_state := Idle\<rparr>, ls2)"
      using c' ac2 by auto
    moreover have "inv_listener c'" using ac2 c' by (auto simp: inv_listener_def)
    moreover have "inv_reset (?ac3\<lparr>ac_state := Idle\<rparr>)" "inv_teardown (?ac3\<lparr>ac_state := Idle\<rparr>)"
      if "ac_state ac = Ready"
      using that inv3(2,3) by (auto simp: inv_reset_def inv_teardown_def intro: pc_ok_idle)
    ultimately show ?thesis using inv3 by (auto simp: conn_inv_def)
  qed
qed

lemma teardown_close_inv:
  assumes "conn_inv c" "teardown_close c = Some (Ret c')"
  shows "conn_inv c'"
proof -
  obtain ac ls where c: "c = (ac, ls)" by (cases c)
  show ?thesis
  proof (cases "ac_teardown ac")
    case (TD_Closing i)
    let ?ct = "ac_trs ac ! i"
    from assms c TD_Closing have i: "i < length (ac_trs ac)" and nc: "\<not> tr_closeConn (ct_tr ?ct)"
      by (auto simp: inv_defs)
    let ?ct1 = "?ct\<lparr>ct_tr := (ct_tr ?ct)\<lparr>tr_closeConn := True\<rparr>\<rparr>"
    from assms(2) c TD_Closing i nc have c': "c' = (ac\<lparr>ac_trs := (ac_trs ac)[i := ?ct1], ac_teardown := TD_ClosingWait i\<rparr>, ls)"
      by (auto simp: teardown_close_def WebsocketClient_Close_def)
    have "tr_ok ?ct" using assms(1) c i by (auto simp: inv_defs)
    then have "tr_ok ?ct1" by (simp add: tr_ok_def good_client_def ended_def)
    then have "inv_trs ((ac_trs ac)[i := ?ct1])" "inv_reset (ac\<lparr>ac_trs := (ac_trs ac)[i := ?ct1]\<rparr>)"
      using assms(1) c i by (auto simp: conn_inv_def ended_def intro: trs_update_ok inv_reset_update)
    with assms(1) c c' TD_Closing i show ?thesis
      by (auto simp: conn_inv_def inv_listener_def inv_teardown_def inv_reset_def)
  next
    case (TD_ClosingWait i)
    with assms(2) c have "c' = (ac\<lparr>ac_teardown := TD_Waiting\<rparr>, ls)"
      by (auto simp: teardown_close_def split: if_splits)
    with assms(1) c TD_ClosingWait show ?thesis
      by (auto simp: conn_inv_def inv_listener_def inv_reset_def inv_teardown_def intro: pc_ok_shutdown)
  next
    case TD_Waiting
    with assms(2) c have "c' = (ac\<lparr>ac_teardown := TD_Returned\<rparr>, ls)" "ac_reset ac \<in> {RT_NotStarted, RT_Exited}"
      by (auto simp: teardown_close_def split: if_splits)
    with assms(1) c TD_Waiting show ?thesis
      by (auto simp: conn_inv_def inv_listener_def inv_reset_def inv_teardown_def intro: pc_ok_shutdown)
  qed (use assms(2) c in \<open>simp_all add: teardown_close_def\<close>)
qed

lemma listen_update_inv:
  assumes "conn_inv c" "listen_update c = Some (Ret c')"
  shows "conn_inv c'"
proof -
  obtain ac ls where c: "c = (ac, ls)" by (cases c)
  from assms(2) c obtain s where s: "ls_pc ls = LS_Got s" by (auto simp: listen_update_def split: listener_pc.splits)
  from assms(1) c have ok: "csm_ok (ls_csMgr ls) (ls_chans ls)" by (simp add: conn_inv_def inv_listener_def)
  show ?thesis
  proof (rule csm.change_live [OF ok, of s])
    fix csm h assume u: "updateState s (ls_csMgr ls) (ls_chans ls) = Ret (csm, h)" and "csm_ok csm h"
    moreover from u have "csm_state csm = s"
      by (auto simp: updateState_def Let_def split: if_splits option.splits)
    ultimately show ?thesis
      using assms c s by (auto simp: listen_update_def conn_inv_def inv_listener_def ls_view_def)
  qed
qed

text \<open>The remaining steps, and the invariant of every reachable state.\<close>

lemma quiet_steps_inv:
  assumes "conn_inv c"
  shows "reset_backoff bb c = Some c' \<Longrightarrow> conn_inv c'"
    and "reset_watch wb c = Some c' \<Longrightarrow> conn_inv c'"
    and "listen_done c = Some c' \<Longrightarrow> conn_inv c'"
proof -
  obtain ac ls where c: "c = (ac, ls)" by (cases c)
  show "conn_inv c'" if b: "reset_backoff bb c = Some c'"
  proof (cases bb)
    case TimerFires
    with b c have c': "c' = (ac\<lparr>ac_reset := RT_Top\<rparr>, ls)" and pc: "ac_reset ac = RT_Backoff"
      by (auto simp: reset_backoff_def split: if_splits)
    with assms c have "\<forall>ct \<in> set (ac_trs ac). ended ct" by (simp add: conn_inv_def inv_reset_def)
    with assms c c' pc show ?thesis by (simp add: conn_inv_top)
  next
    case BackoffCtxDone
    with b c have "c' = (ac\<lparr>ac_reset := RT_Exited\<rparr>, ls)" "ac_ctx_done ac"
      by (auto simp: reset_backoff_def split: if_splits)
    with assms c show ?thesis by (simp add: conn_inv_exit)
  qed
  show "listen_done c = Some c' \<Longrightarrow> conn_inv c'"
    using assms c by (auto simp: listen_done_def conn_inv_def inv_listener_def ls_view_def split: if_splits)
  assume w: "reset_watch wb c = Some c'"
  with c obtain i where i: "ac_reset ac = RT_Watching i" by (auto simp: reset_watch_def split: reset_pc.splits)
  have all: "\<forall>ct \<in> set (ac_trs ac). ended ct"
    if "Suc i = length (ac_trs ac)" "ended (ac_trs ac ! i)"
  proof -
    have "ac_trs ac = butlast (ac_trs ac) @ [ac_trs ac ! i]"
      using that(1) by (metis append_butlast_last_id diff_Suc_1 last_conv_nth length_0_conv nat.distinct(1))
    then have "set (ac_trs ac) = insert (ac_trs ac ! i) (set (butlast (ac_trs ac)))"
      by (metis Un_insert_right list.simps(15) set_append sup_bot_right list.set(1))
    with assms c that show ?thesis by (auto simp: conn_inv_def inv_trs_def)
  qed
  show "conn_inv c'"
  proof (cases wb)
    case WatchCtxDone
    with w c i have "c' = (ac\<lparr>ac_reset := RT_Exited\<rparr>, ls)" "ac_ctx_done ac"
      by (auto simp: reset_watch_def split: if_splits)
    with assms c show ?thesis by (simp add: conn_inv_exit)
  next
    case WatchReconnect
    with w c i have c': "c' = (ac\<lparr>ac_reset := RT_Top\<rparr>, ls)" and l: "i < length (ac_trs ac)"
      and d: "Done (ct_reconnect (ac_trs ac ! i))"
      by (auto simp: reset_watch_def split: if_splits)
    from assms c l d have "ended (ac_trs ac ! i)" by (auto simp: conn_inv_def inv_trs_def tr_ok_def)
    with assms c i all have "\<forall>ct \<in> set (ac_trs ac). ended ct" by (auto simp: conn_inv_def inv_reset_def)
    with assms c c' i show ?thesis by (simp add: conn_inv_top)
  qed
qed

lemma cancel_watch_inv:
  assumes "conn_inv c"
  shows "conn_inv (cancel_cc c)" "conn_inv (watch_state c)"
proof -
  obtain ac ls where c: "c = (ac, ls)" by (cases c)
  show "conn_inv (cancel_cc c)"
    using assms c pc_ok_cancel [of "ac_reset ac" "ac_trs ac" "ac_transport ac" "ac_state ac" "ac_ctx_done ac"]
    by (simp add: cancel_cc_def conn_inv_def inv_listener_def inv_reset_def inv_teardown_def)
  obtain ch csm h where g: "getNotifyChan (ls_csMgr ls) (ls_chans ls) = (ch, csm, h)"
    by (cases "getNotifyChan (ls_csMgr ls) (ls_chans ls)")
  from assms c have "csm_ok (ls_csMgr ls) (ls_chans ls)" by (simp add: conn_inv_def inv_listener_def)
  from csm.get_chan_live [OF this g] assms c g show "conn_inv (watch_state c)"
    by (auto simp: watch_state_def conn_inv_def inv_listener_def ls_view_def split: listener_pc.splits)
qed

lemmas conn_step_invs = connect_inv reset_top_inv reset_failed_inv reset_created_inv teardown_lock_inv
  transport_event_inv teardown_close_inv listen_update_inv quiet_steps_inv cancel_watch_inv

lemma conn_step_inv: "conn_inv c \<Longrightarrow> conn_step e c = Some (Ret c') \<Longrightarrow> conn_inv c'"
  by (cases e) (auto simp del: conn_step.simps(1) intro: conn_step_invs)

lemma reachable_inv: "conn_reachable c \<Longrightarrow> conn_inv c"
  by (induction rule: conn_reachable.induct) (auto intro: conn_inv_init conn_step_inv)

lemma conn_step_safe:
  assumes "conn_inv c"
  shows "conn_step e c \<noteq> Some (Panic p)"
proof -
  obtain ac ls where c: "c = (ac, ls)" by (cases c)
  show ?thesis
  proof (cases e)
    case (TransportEvent i ev br)
    show ?thesis
    proof (cases "i < length (ac_trs ac) \<and> ev \<noteq> CallClose")
      case True
      then have "tr_ok (ac_trs ac ! i)" using assms c by (simp add: conn_inv_def inv_trs_def)
      then have ok: "good_client (ct_tr (ac_trs ac ! i))" "wf_event (ct_reconnect (ac_trs ac ! i))"
        by (simp_all add: tr_ok_def)
      have s: "client_step (ct_tr (ac_trs ac ! i)) ev \<noteq> Some (Panic q)" for q
        using client_pump.step_safe [OF ok(1)] True by blast
      obtain e' where "Fire (ct_reconnect (ac_trs ac ! i)) = Ret (\<not> HasFired (ct_reconnect (ac_trs ac ! i)), e')"
        by (rule Fire_wf [OF ok(2)])
      with True s c TransportEvent show ?thesis
        by (auto simp: transport_event_def afterWritePump_ac_def Let_def split: option.splits go.splits)
    qed (use c TransportEvent in \<open>auto simp: transport_event_def\<close>)
  next
    case TeardownClose
    with assms c show ?thesis
      by (auto simp: teardown_close_def conn_inv_def inv_teardown_def WebsocketClient_Close_def
          split: teardown_pc.splits)
  next
    case ListenUpdate
    from assms c have ok: "csm_ok (ls_csMgr ls) (ls_chans ls)" by (simp add: conn_inv_def inv_listener_def)
    show ?thesis
    proof (cases "ls_pc ls")
      case (LS_Got s)
      show ?thesis
        by (rule csm.change_live [OF ok, of s]) (simp add: ListenUpdate c listen_update_def LS_Got)
    qed (simp_all add: ListenUpdate c listen_update_def)
  qed (auto simp: map_option_case split: option.splits)
qed

subsection \<open>Properties\<close>

text \<open>
  C7.  The life cycle of a client connection is safe: in every state that any interleaving of
  the connecting goroutine, its transports, the state listener, cancellation and \<open>teardown\<close>
  can reach, no step panics, a Ready connection has a transport, at most the newest transport
  is still running (a new one is dialled only after the write pump of the previous one has
  ended), and Shutdown is reached through \<open>teardown\<close> only, with the context cancelled and the
  transport field reset.
\<close>

theorem addrConn_safe:
  assumes "conn_reachable (ac, ls)"
  shows "conn_step e (ac, ls) \<noteq> Some (Panic p)
    \<and> (ac_state ac = Ready \<longrightarrow> ac_transport ac \<noteq> None)
    \<and> (\<forall>i. ac_transport ac = Some i \<longrightarrow> Suc i = length (ac_trs ac))
    \<and> (\<forall>ct \<in> set (butlast (ac_trs ac)). tr_writePump (ct_tr ct) = WP_Done)
    \<and> (ac_state ac = Shutdown \<longleftrightarrow> ac_teardown ac \<noteq> TD_NotCalled)
    \<and> (ac_state ac = Shutdown \<longrightarrow> ac_ctx_done ac \<and> ac_transport ac = None)"
proof -
  have inv: "conn_inv (ac, ls)" by (rule reachable_inv [OF assms])
  have "conn_step e (ac, ls) \<noteq> Some (Panic p)" by (rule conn_step_safe [OF inv])
  with inv show ?thesis
    by (simp add: conn_inv_def inv_reset_def inv_teardown_def inv_trs_def ended_def)
qed

text \<open>A concrete run: connect, dial, the listener in between, and the connection is Ready.\<close>

definition accept_dial :: "string \<Rightarrow> tls_config option \<Rightarrow> unit res" where
  "accept_dial url cfg = Inr ()"

definition ready_run :: "conn_event list" where
  "ready_run = [Connect ToListener, ListenUpdate, ResetTop accept_dial ToListener, ResetCreated ToListener, ListenUpdate]"

abbreviation run_conn :: "conn_event list \<Rightarrow> conn \<Rightarrow> conn go option" where
  "run_conn \<equiv> run_steps conn_step"

lemma run_conn_reachable: "conn_reachable c \<Longrightarrow> run_conn es c = Some (Ret c') \<Longrightarrow> conn_reachable c'"
  by (erule run_steps_keeps [where P = conn_reachable]) (auto intro: conn_next)

abbreviation fresh_conn :: conn where
  "fresh_conn \<equiv> newAddrConn ''host'' defaultDialOptions False empty_chans"

lemma fresh_reachable: "run_conn es fresh_conn = Some (Ret c') \<Longrightarrow> conn_reachable c'"
  by (rule run_conn_reachable [OF conn_init]) simp_all

lemmas conn_run_defs = newAddrConn_def defaultDialOptions_def new_csm_def empty_chans_def getNotifyChan_def make_chan_def
  connect_ac_def updateConnectivityState_def listen_update_def listen_done_def updateState_def close_chan_def
  reset_top_def reset_failed_def reset_created_def reset_watch_def createTransport_def NewClientTransport_def newWebsocketClient_def accept_dial_def
  WebsocketClient_Start_def newWebsocketClientConfig_def Let_def transport_event_def client_step_simps
  afterWritePump_ac_def NewEvent_def Fire_def cancel_cc_def teardown_lock_def teardown_close_def

lemma ready_run_result:
  "\<exists>ac ls. run_conn ready_run fresh_conn = Some (Ret (ac, ls)) \<and> ac_state ac = Ready
     \<and> ac_transport ac = Some 0 \<and> getState (ls_csMgr ls) = Ready \<and> ac_reset ac = RT_Watching 0
     \<and> length (ac_trs ac) = 1 \<and> ls_pc ls = LS_Select \<and> ac_teardown ac = TD_NotCalled"
  by (simp add: ready_run_def conn_run_defs getState_def)

theorem addrConn_safe_witness:
  "\<exists>ac ls. conn_reachable (ac, ls) \<and> ac_state ac = Ready \<and> ac_transport ac \<noteq> None"
proof -
  obtain ac ls where r: "run_conn ready_run fresh_conn = Some (Ret (ac, ls))" "ac_state ac = Ready"
    using ready_run_result by blast
  have "conn_reachable (ac, ls)" by (rule fresh_reachable [OF r(1)])
  with r(2) addrConn_safe [OF this] show ?thesis by blast
qed

text \<open>
  C20.  While its context is not cancelled, the connectivity state the \<open>ClientConn\<close> reports is
  the state of its connection, up to the one value the listener has received and not yet
  published: when the listener is at its \<open>select\<close> both are equal, and when it holds a value,
  that value is the current state.
\<close>

theorem reported_state_tracks_connection:
  assumes "conn_reachable (ac, ls)" "\<not> ac_ctx_done ac"
  shows "ls_pc ls = LS_Select \<and> getState (ls_csMgr ls) = ac_state ac \<or> ls_pc ls = LS_Got (ac_state ac)"
  using reachable_inv [OF assms(1)] assms(2)
  by (cases "ls_pc ls") (auto simp: conn_inv_def inv_listener_def ls_view_def getState_def)

theorem reported_state_tracks_connection_witness:
  "\<exists>ac ls. conn_reachable (ac, ls) \<and> \<not> ac_ctx_done ac \<and> ls_pc ls = LS_Select
     \<and> getState (ls_csMgr ls) = Ready \<and> ac_state ac = Ready"
proof -
  obtain ac ls where r: "run_conn ready_run fresh_conn = Some (Ret (ac, ls))" "ls_pc ls = LS_Select" "ac_state ac = Ready"
    and d: "\<not> ac_ctx_done ac"
    by (simp add: ready_run_def conn_run_defs)
  have reach: "conn_reachable (ac, ls)" by (rule fresh_reachable [OF r(1)])
  with r d reported_state_tracks_connection [OF reach d] show ?thesis by auto
qed

text \<open>
  C22.  Publishing a state does not deadlock although it holds \<open>ac.mu\<close>: in every reachable state
  \<open>updateConnectivityState\<close> can return at once, or after the listener has finished the one
  update it is working on, which it always can.
\<close>

theorem update_never_stuck:
  assumes "conn_reachable (ac, ls)"
  shows "(\<exists>br. updateConnectivityState s br (ac, ls) \<noteq> None)
    \<or> (\<exists>ls'. conn_step ListenUpdate (ac, ls) = Some (Ret (ac, ls'))
         \<and> updateConnectivityState s ToListener (ac, ls') \<noteq> None)"
proof -
  from reachable_inv [OF assms] have l: "inv_listener (ac, ls)" by (simp add: conn_inv_def)
  show ?thesis
  proof (cases "ls_pc ls")
    case LS_Select
    then have "updateConnectivityState s ToListener (ac, ls) \<noteq> None"
      by (simp add: updateConnectivityState_def)
    then show ?thesis by blast
  next
    case LS_Exited
    with l have "updateConnectivityState s OnDone (ac, ls) \<noteq> None"
      by (simp add: updateConnectivityState_def inv_listener_def)
    then show ?thesis by blast
  next
    case (LS_Got v)
    from l have ok: "csm_ok (ls_csMgr ls) (ls_chans ls)" by (simp add: inv_listener_def)
    show ?thesis
    proof (rule csm.change_live [OF ok, of v])
      fix csm h assume "updateState v (ls_csMgr ls) (ls_chans ls) = Ret (csm, h)"
      with LS_Got show ?thesis
        by (intro disjI2 exI [of _ "ls\<lparr>ls_csMgr := csm, ls_chans := h, ls_pc := LS_Select\<rparr>"])
          (simp add: listen_update_def updateConnectivityState_def)
    qed
  qed
qed

theorem update_never_stuck_witness:
  "\<exists>ac ls. conn_reachable (ac, ls) \<and> ls_pc ls = LS_Got Connecting
     \<and> (\<exists>ls'. conn_step ListenUpdate (ac, ls) = Some (Ret (ac, ls'))
          \<and> updateConnectivityState Ready ToListener (ac, ls') \<noteq> None)"
proof -
  obtain ac ls where r: "run_conn [Connect ToListener] fresh_conn = Some (Ret (ac, ls))"
    and g: "ls_pc ls = LS_Got Connecting" "\<not> ac_ctx_done ac" "ac_state ac = Connecting"
    by (simp add: conn_run_defs)
  have reach: "conn_reachable (ac, ls)" by (rule fresh_reachable [OF r])
  have "\<not> (\<exists>br. updateConnectivityState Ready br (ac, ls) \<noteq> None)"
    using g by (auto simp: updateConnectivityState_def Let_def split: upd_branch.splits)
  with reach g update_never_stuck [OF reach, of Ready] show ?thesis by blast
qed

text \<open>A step taken when the listener is free, and the update of the listener after it.\<close>

lemma updateConnectivityState_send:
  assumes "ls_pc ls = LS_Select" "ac_state ac \<noteq> s"
  shows "updateConnectivityState s ToListener (ac, ls) = Some (ac\<lparr>ac_state := s\<rparr>, ls\<lparr>ls_pc := LS_Got s\<rparr>)"
  using assms by (simp add: updateConnectivityState_def)

lemma listen_update_publishes:
  assumes "csm_ok (ls_csMgr ls) (ls_chans ls)" "ls_pc ls = LS_Got s"
  obtains csm h where "listen_update (ac, ls) = Some (Ret (ac, ls\<lparr>ls_csMgr := csm, ls_chans := h, ls_pc := LS_Select\<rparr>))"
    "csm_ok csm h" "csm_state csm = s"
proof (rule csm.change_live [OF assms(1), of s])
  fix csm h assume u: "updateState s (ls_csMgr ls) (ls_chans ls) = Ret (csm, h)" "csm_ok csm h"
  have "csm_state csm = s" using u(1) by (auto simp: updateState_def Let_def split: if_splits option.splits)
  with u assms(2) show ?thesis by (intro that [of h csm]) (simp_all add: listen_update_def)
qed

definition reconnect_run :: "conn_event list" where
  "reconnect_run = [ResetWatch WatchReconnect, ResetTop accept_dial ToListener, ListenUpdate, ResetCreated ToListener, ListenUpdate]"

lemma accept_dial_creates: "\<exists>ct. createTransport accept_dial addr copts = Inr ct"
  by (simp add: createTransport_def NewClientTransport_def newWebsocketClient_def accept_dial_def)


text \<open>The transport of a Ready connection breaks: its reader fails, its write pump ends.\<close>

definition lost_run :: "conn_event list" where
  "lost_run = ready_run @ [TransportEvent 0 ReadFails OnDone, TransportEvent 0 SeesCloseWritePump OnDone,
     TransportEvent 0 PumpExits ToListener, ListenUpdate]"


text \<open>
  C21.  \<open>teardown\<close> ends the connecting goroutine and is final: once the state is Shutdown, no
  step leaves Shutdown or dials a new transport, and wherever \<open>resetTransport\<close> stands, its
  next step can be to return, so \<open>ac.wg.Wait\<close> does not wait for the peer.
\<close>

theorem shutdown_is_final:
  assumes "conn_reachable (ac, ls)" "ac_state ac = Shutdown"
  shows "(\<forall>e ac' ls'. conn_step e (ac, ls) = Some (Ret (ac', ls')) \<longrightarrow>
        ac_state ac' = Shutdown \<and> length (ac_trs ac') = length (ac_trs ac))
    \<and> (ac_reset ac \<notin> {RT_NotStarted, RT_Exited} \<longrightarrow>
        (\<exists>e ac' ls'. conn_step e (ac, ls) = Some (Ret (ac', ls')) \<and> ac_reset ac' = RT_Exited))"
proof (intro conjI allI impI)
  have inv: "conn_inv (ac, ls)" by (rule reachable_inv [OF assms(1)])
  then have td: "ac_teardown ac \<noteq> TD_NotCalled" and d: "ac_ctx_done ac"
    using assms(2) by (simp_all add: conn_inv_def inv_teardown_def)
  fix e ac' ls' assume st: "conn_step e (ac, ls) = Some (Ret (ac', ls'))"
  have "ac_state ac' = Shutdown \<and> length (ac_trs ac') = length (ac_trs ac)"
  proof (cases e)
    case (TransportEvent i ev br)
    with st assms(2) show ?thesis
      by (auto simp: transport_event_def afterWritePump_ac_def Let_def split: if_splits option.splits go.splits)
  qed (use st td assms(2) in \<open>auto simp: reset_top_def reset_failed_def reset_backoff_def reset_created_def
      reset_watch_def teardown_lock_def teardown_close_def cancel_cc_def listen_update_def listen_done_def watch_state_def
      split: if_splits reset_pc.splits backoff_branch.splits watch_branch.splits teardown_pc.splits listener_pc.splits
        prod.splits\<close>)
  then show "ac_state ac' = Shutdown" "length (ac_trs ac') = length (ac_trs ac)" by simp_all
next
  assume run: "ac_reset ac \<notin> {RT_NotStarted, RT_Exited}"
  have d: "ac_ctx_done ac"
    using reachable_inv [OF assms(1)] assms(2) by (simp add: conn_inv_def inv_teardown_def)
  have "\<exists>e. conn_step e (ac, ls) = Some (Ret (ac\<lparr>ac_reset := RT_Exited\<rparr>, ls))"
  proof (cases "ac_reset ac")
    case RT_Top
    then show ?thesis using assms(2) by (intro exI [of _ "ResetTop accept_dial OnDone"]) (simp add: reset_top_def)
  next
    case RT_Failed
    then show ?thesis using assms(2) by (intro exI [of _ "ResetFailed OnDone"]) (simp add: reset_failed_def)
  next
    case RT_Backoff
    then show ?thesis using d by (intro exI [of _ "ResetBackoff BackoffCtxDone"]) (simp add: reset_backoff_def)
  next
    case (RT_Created i)
    then show ?thesis using assms(2) by (intro exI [of _ "ResetCreated OnDone"]) (simp add: reset_created_def)
  next
    case (RT_Watching i)
    then show ?thesis using d by (intro exI [of _ "ResetWatch WatchCtxDone"]) (simp add: reset_watch_def)
  qed (use run in simp_all)
  then show "\<exists>e ac' ls'. conn_step e (ac, ls) = Some (Ret (ac', ls')) \<and> ac_reset ac' = RT_Exited"
    by fastforce
qed

text \<open>\<open>ClientConn.Close\<close> on a Ready connection: cancel, then \<open>teardown\<close>.\<close>

definition close_run :: "conn_event list" where
  "close_run = ready_run @ [Cancel, ListenDone, TeardownLock OnDone]"

lemma close_run_result:
  "\<exists>ac ls. run_conn close_run fresh_conn = Some (Ret (ac, ls)) \<and> ac_state ac = Shutdown
     \<and> ac_reset ac = RT_Watching 0 \<and> ls_pc ls = LS_Exited \<and> getState (ls_csMgr ls) = Ready"
  by (simp add: close_run_def ready_run_def conn_run_defs getState_def)

theorem shutdown_is_final_witness:
  "\<exists>ac ls e ac' ls'. conn_reachable (ac, ls) \<and> ac_state ac = Shutdown \<and> ac_reset ac = RT_Watching 0
     \<and> conn_step e (ac, ls) = Some (Ret (ac', ls')) \<and> ac_reset ac' = RT_Exited"
proof -
  obtain ac ls where r: "run_conn close_run fresh_conn = Some (Ret (ac, ls))" "ac_state ac = Shutdown"
    "ac_reset ac = RT_Watching 0"
    using close_run_result by blast
  have reach: "conn_reachable (ac, ls)" by (rule fresh_reachable [OF r(1)])
  from shutdown_is_final [OF reach r(2)] r(3)
  have "\<exists>e ac' ls'. conn_step e (ac, ls) = Some (Ret (ac', ls')) \<and> ac_reset ac' = RT_Exited" by auto
  with reach r show ?thesis by blast
qed

text \<open>
  C40.  The state a closed \<open>ClientConn\<close> reports is the one its listener published last: once
  \<open>listenForConnectivityChange\<close> has returned, which cancelling the context lets it do before
  \<open>teardown\<close> publishes Shutdown, no later step changes it.  In the run of the witness
  \<open>GetState\<close> stays Ready for ever after \<open>Close\<close>, and so \<open>WaitForReady\<close> returns true.
\<close>

theorem state_frozen_after_listener_exit:
  assumes "ls_pc ls = LS_Exited" "run_conn es (ac, ls) = Some (Ret (ac', ls'))"
  shows "ls_pc ls' = LS_Exited \<and> getState (ls_csMgr ls') = getState (ls_csMgr ls)"
  using assms
proof (induction es arbitrary: ac ls)
  case Nil
  then show ?case by simp
next
  case (Cons e es)
  then obtain ac1 ls1 where st: "conn_step e (ac, ls) = Some (Ret (ac1, ls1))"
    and rest: "run_conn es (ac1, ls1) = Some (Ret (ac', ls'))"
    by (auto split: option.splits go.splits)
  have upd: "ls2 = ls" if "updateConnectivityState s br (ac0, ls) = Some (ac2, ls2)" for s br ac0 ac2 ls2
    using that by (cases rule: updateConnectivityState_cases) (use Cons.prems(1) in auto)
  have "ls_pc ls1 = LS_Exited \<and> csm_state (ls_csMgr ls1) = csm_state (ls_csMgr ls)"
  proof (cases e)
    case StateWatcher
    with st Cons.prems(1) show ?thesis
      by (auto simp: watch_state_def getNotifyChan_def make_chan_def split: option.splits)
  qed (use st Cons.prems(1) in \<open>auto simp: connect_ac_def reset_top_def reset_failed_def reset_backoff_def
      reset_created_def reset_watch_def transport_event_def afterWritePump_ac_def teardown_lock_def teardown_close_def
      cancel_cc_def listen_update_def listen_done_def Let_def dest!: upd
      split: if_splits option.splits sum.splits go.splits reset_pc.splits backoff_branch.splits watch_branch.splits
        teardown_pc.splits\<close>)
  with Cons.IH [OF _ rest] show ?case by (simp add: getState_def)
qed

theorem state_frozen_after_listener_exit_witness:
  "\<exists>ac ls ac' ls'. run_conn close_run fresh_conn = Some (Ret (ac, ls)) \<and> ac_state ac = Shutdown
     \<and> run_conn [ResetWatch WatchCtxDone, StateWatcher] (ac, ls) = Some (Ret (ac', ls'))
     \<and> getState (ls_csMgr ls') = Ready"
proof -
  obtain ac ls where r: "run_conn close_run fresh_conn = Some (Ret (ac, ls))" "ac_state ac = Shutdown"
    "ac_reset ac = RT_Watching 0" "ls_pc ls = LS_Exited" "getState (ls_csMgr ls) = Ready"
    using close_run_result by blast
  have "ac_ctx_done ac"
    using reachable_inv [OF fresh_reachable [OF r(1)]] r(2) by (simp add: conn_inv_def inv_teardown_def)
  with r(3) obtain ac' ls' where r': "run_conn [ResetWatch WatchCtxDone, StateWatcher] (ac, ls) = Some (Ret (ac', ls'))"
    by (cases "watch_state (ac\<lparr>ac_reset := RT_Exited\<rparr>, ls)") (simp add: reset_watch_def)
  show ?thesis using r r' state_frozen_after_listener_exit [OF r(4) r'] by auto
qed

text \<open>
  A transport that was dialled while \<open>Close\<close> ran is never closed: when \<open>teardown\<close> has its
  critical section between \<open>createTransport\<close> and the following check for Shutdown, the new
  transport is not the one it closes; \<open>resetTransport\<close> drops it without closing it, and
  after \<open>teardown\<close> has returned no step closes any transport.
\<close>

lemma teardown_leaks_new_transport:
  assumes "ac_teardown ac = TD_Returned" "i < length (ac_trs ac)" "ac_state ac = Shutdown"
    and "ac_reset ac = RT_Exited" "\<not> tr_closeConn (ct_tr (ac_trs ac ! i))"
    and "run_conn es (ac, ls) = Some (Ret (ac', ls'))"
  shows "\<not> tr_closeConn (ct_tr (ac_trs ac' ! i)) \<and> ac_transport ac' = ac_transport ac"
  using assms
proof (induction es arbitrary: ac ls)
  case Nil
  then show ?case by simp
next
  case (Cons e es)
  then obtain ac1 ls1 where st: "conn_step e (ac, ls) = Some (Ret (ac1, ls1))"
    and rest: "run_conn es (ac1, ls1) = Some (Ret (ac', ls'))"
    by (auto split: option.splits go.splits)
  have "ac_teardown ac1 = TD_Returned \<and> i < length (ac_trs ac1) \<and> ac_state ac1 = Shutdown
    \<and> ac_reset ac1 = RT_Exited \<and> \<not> tr_closeConn (ct_tr (ac_trs ac1 ! i)) \<and> ac_transport ac1 = ac_transport ac"
  proof (cases e)
    case (TransportEvent j ev br)
    with st obtain tr where j: "j < length (ac_trs ac)" "ev \<noteq> CallClose"
      and tr: "client_step (ct_tr (ac_trs ac ! j)) ev = Some (Ret tr)"
      by (auto simp: transport_event_def split: if_splits option.splits go.splits)
    from st TransportEvent j tr Cons.prems(3) obtain o' ev' where
      "ac1 = ac\<lparr>ac_trs := (ac_trs ac)[j := (ac_trs ac ! j)\<lparr>ct_tr := tr, ct_once := o', ct_reconnect := ev'\<rparr>]\<rparr>"
      by (cases "ac_trs ac ! j")
        (auto simp: transport_event_def afterWritePump_ac_def Let_def split: if_splits option.splits)
    with Cons.prems client_step_facts [OF tr j(2)] j(1) show ?thesis
      by (cases "i = j") auto
  qed (use st Cons.prems in \<open>auto simp: reset_top_def reset_failed_def reset_backoff_def
      reset_created_def reset_watch_def teardown_lock_def teardown_close_def
      cancel_cc_def listen_update_def listen_done_def watch_state_def split: prod.splits listener_pc.splits if_splits\<close>)
  with Cons.IH [OF _ _ _ _ _ rest] show ?case by simp
qed

text \<open>The run of the previous property, and afterwards the peer goes on reading and pinging.\<close>

definition leak_run :: "conn_event list" where
  "leak_run = [Connect ToListener, ListenUpdate, ResetTop accept_dial ToListener, Cancel, ListenDone,
     TeardownLock OnDone, ResetCreated OnDone, TeardownClose]"

end
