(* ===== verification/Backoff.thy ===== *)
theory Backoff
  imports Complex_Main AddrConn
begin

text \<open>
  \<open>internal/backoff/backoff.go\<close>: the strategy that spaces the attempts of \<open>addrConn\<close> to
  reconnect.  It wraps \<open>ExponentialBackOff\<close> of \<open>github.com/cenkalti/backoff\<close>, which is not part of
  the repository: \<open>backoff_lib\<close> is its constructor, its \<open>NextBackOff\<close> and its \<open>Reset\<close>, on states of
  any type, which hold the current interval and the source of randomness.  A \<open>float64\<close> is the
  rational number it stands for.
\<close>

subsection \<open>Configuration\<close>

record backoff_Config =
  BaseDelay :: duration
  Multiplier :: rat
  Jitter :: rat
  MaxDelay :: duration

text \<open>The literals 1.6 and 0.2 as the nearest \<open>float64\<close>.\<close>

definition backoff_defaultConfig :: backoff_Config where
  "backoff_defaultConfig = \<lparr>BaseDelay = Second, Multiplier = 7205759403792794 / 2 ^ 52,
     Jitter = 3602879701896397 / 2 ^ 54, MaxDelay = 120 * Second\<rparr>"

record ExponentialBackOff =
  ebo_InitialInterval :: duration
  ebo_Multiplier :: rat
  ebo_RandomizationFactor :: rat
  ebo_MaxInterval :: duration
  ebo_MaxElapsedTime :: duration

record 's backoff_lib =
  lib_new :: "ExponentialBackOff \<Rightarrow> 's"
  lib_NextBackOff :: "'s \<Rightarrow> duration \<times> 's"
  lib_Reset :: "'s \<Rightarrow> 's"

subsection \<open>Operations\<close>

text \<open>\<open>es.mu\<close> makes each method one step.\<close>

record 's Exponential =
  es_BackOff :: 's

definition exponential_fields :: "backoff_Config \<Rightarrow> ExponentialBackOff" where
  "exponential_fields config = \<lparr>ebo_InitialInterval = BaseDelay config, ebo_Multiplier = Multiplier config,
     ebo_RandomizationFactor = Jitter config, ebo_MaxInterval = MaxDelay config, ebo_MaxElapsedTime = 0\<rparr>"

definition NewExponential :: "'s backoff_lib \<Rightarrow> backoff_Config \<Rightarrow> 's Exponential" where
  "NewExponential lib config =
     (let boff = lib_new lib (exponential_fields config)
      in \<lparr>es_BackOff = lib_Reset lib boff\<rparr>)"

definition Exponential_NextBackOff :: "'s backoff_lib \<Rightarrow> 's Exponential \<Rightarrow> duration \<times> 's Exponential" where
  "Exponential_NextBackOff lib es =
     (case lib_NextBackOff lib (es_BackOff es) of (d, st) \<Rightarrow> (d, es\<lparr>es_BackOff := st\<rparr>))"

definition Exponential_Reset :: "'s backoff_lib \<Rightarrow> 's Exponential \<Rightarrow> 's Exponential" where
  "Exponential_Reset lib es = es\<lparr>es_BackOff := lib_Reset lib (es_BackOff es)\<rparr>"

definition DefaultExponential :: "'s backoff_lib \<Rightarrow> 's Exponential" where
  "DefaultExponential lib = NewExponential lib backoff_defaultConfig"

text \<open>The durations the calls of a connection get, in their order.\<close>

primrec bs_run :: "'s backoff_lib \<Rightarrow> bs_call list \<Rightarrow> 's Exponential \<Rightarrow> duration list \<times> 's Exponential" where
  "bs_run lib [] es = ([], es)"
| "bs_run lib (c # cs) es =
     (case c of
        NextBackOff \<Rightarrow>
          (case Exponential_NextBackOff lib es of (d, es1) \<Rightarrow>
             case bs_run lib cs es1 of (ds, es2) \<Rightarrow> (d # ds, es2))
      | Reset \<Rightarrow> bs_run lib cs (Exponential_Reset lib es))"

subsection \<open>What the library documents\<close>

text \<open>
  The interval starts at \<open>InitialInterval\<close>, grows by \<open>Multiplier\<close> with each call, and
  \<open>MaxInterval\<close> caps it; each call returns it randomized by at most \<open>RandomizationFactor\<close> of it;
  \<open>Reset\<close> starts again; with \<open>MaxElapsedTime\<close> 0 it never stops.  \<open>slack\<close> covers the conversions
  between \<open>float64\<close> and nanoseconds.
\<close>

definition ns :: "duration \<Rightarrow> rat" where
  "ns d = of_int (sint d)"

primrec interval :: "ExponentialBackOff \<Rightarrow> nat \<Rightarrow> rat" where
  "interval b 0 = ns (ebo_InitialInterval b)"
| "interval b (Suc n) = min (ns (ebo_MaxInterval b)) (ebo_Multiplier b * interval b n)"

definition lib_call :: "'s backoff_lib \<Rightarrow> bs_call \<Rightarrow> 's \<Rightarrow> 's" where
  "lib_call lib c st = (case c of NextBackOff \<Rightarrow> snd (lib_NextBackOff lib st) | Reset \<Rightarrow> lib_Reset lib st)"

definition near :: "rat \<Rightarrow> rat \<Rightarrow> rat \<Rightarrow> duration \<Rightarrow> bool" where
  "near r slack i d \<longleftrightarrow> \<bar>ns d - i\<bar> \<le> r * i + slack"

definition sane_fields :: "ExponentialBackOff \<Rightarrow> bool" where
  "sane_fields b \<longleftrightarrow> 0 <s ebo_InitialInterval b \<and> ebo_InitialInterval b \<le>s ebo_MaxInterval b
     \<and> sint (ebo_MaxInterval b) < 2 ^ 60 \<and> 1 \<le> ebo_Multiplier b
     \<and> 0 \<le> ebo_RandomizationFactor b \<and> ebo_RandomizationFactor b \<le> 1 \<and> ebo_MaxElapsedTime b = 0"

definition documented_backoff :: "rat \<Rightarrow> 's backoff_lib \<Rightarrow> bool" where
  "documented_backoff slack lib \<longleftrightarrow>
     (\<forall>b cs n. sane_fields b \<longrightarrow>
        near (ebo_RandomizationFactor b) slack (interval b n)
          (fst (lib_NextBackOff lib
             (fold (lib_call lib) (cs @ Reset # replicate n NextBackOff) (lib_new lib b)))))"

text \<open>A strategy of this kind, without randomness.\<close>

definition plain_lib :: "(ExponentialBackOff \<times> nat) backoff_lib" where
  "plain_lib = \<lparr>lib_new = \<lambda>b. (b, 0),
     lib_NextBackOff = \<lambda>(b, n). (word_of_int \<lfloor>interval b n\<rfloor>, (b, Suc n)),
     lib_Reset = \<lambda>(b, n). (b, 0)\<rparr>"

lemma sane_ns:
  assumes "sane_fields b"
  shows "0 < ns (ebo_InitialInterval b)" "ns (ebo_InitialInterval b) \<le> ns (ebo_MaxInterval b)"
    "ns (ebo_MaxInterval b) < 2 ^ 60"
proof -
  have "0 < sint (ebo_InitialInterval b)" "sint (ebo_InitialInterval b) \<le> sint (ebo_MaxInterval b)"
    "sint (ebo_MaxInterval b) < 2 ^ 60"
    using assms by (auto simp: sane_fields_def word_sless_alt word_sle_eq)
  then show "0 < ns (ebo_InitialInterval b)" "ns (ebo_InitialInterval b) \<le> ns (ebo_MaxInterval b)"
    "ns (ebo_MaxInterval b) < 2 ^ 60"
    unfolding ns_def of_int_0_less_iff of_int_le_iff by (simp_all del: of_int_sint)
qed

lemma interval_closed:
  assumes "sane_fields b"
  shows "interval b n = min (ns (ebo_MaxInterval b)) (ebo_Multiplier b ^ n * ns (ebo_InitialInterval b))"
proof (induction n)
  case 0
  then show ?case using sane_ns [OF assms] by simp
next
  case (Suc n)
  let ?M = "ns (ebo_MaxInterval b)" and ?m = "ebo_Multiplier b"
  let ?p = "?m ^ n * ns (ebo_InitialInterval b)"
  from assms have m: "1 \<le> ?m" by (simp add: sane_fields_def)
  moreover have "0 < ?M" using sane_ns [OF assms] by linarith
  ultimately have "?M \<le> ?m * ?M" by simp
  moreover have "?m * min ?M ?p = min (?m * ?M) (?m * ?p)" using m by (simp add: min_mult_distrib_left)
  ultimately show ?case by (simp add: Suc.IH mult.assoc)
qed

lemma interval_bounds:
  assumes "sane_fields b"
  shows "0 < interval b n" "interval b n \<le> ns (ebo_MaxInterval b)"
  using sane_ns [OF assms] assms by (simp_all add: interval_closed sane_fields_def)

lemma ns_word_of_int: "0 \<le> i \<Longrightarrow> i < 2 ^ 60 \<Longrightarrow> ns (word_of_int i) = of_int i"
  by (simp add: ns_def signed_take_bit_int_eq_self sint_sbintrunc' del: of_int_sint)

lemma plain_lib_documented: "documented_backoff 1 plain_lib"
  unfolding documented_backoff_def
proof (intro allI impI)
  fix b cs n
  assume b: "sane_fields b"
  have fst_b: "fst (fold (lib_call plain_lib) cs st) = fst st" for cs st
    by (induction cs arbitrary: st) (auto simp: lib_call_def plain_lib_def split: bs_call.splits)
  have steps: "fold (lib_call plain_lib) (replicate n NextBackOff) (b, m) = (b, m + n)" for m
    by (induction n arbitrary: m) (auto simp: lib_call_def plain_lib_def)
  have "fold (lib_call plain_lib) (cs @ Reset # replicate n NextBackOff) (lib_new plain_lib b) = (b, n)"
    using fst_b [of cs "(b, 0)"] steps [of 0] by (simp add: lib_call_def plain_lib_def split_beta)
  moreover have "ns (word_of_int \<lfloor>interval b n\<rfloor>) = of_int \<lfloor>interval b n\<rfloor>"
    using interval_bounds [OF b, of n] sane_ns [OF b]
    by (intro ns_word_of_int) (auto simp: floor_less_iff)
  moreover have "\<bar>of_int \<lfloor>interval b n\<rfloor> - interval b n\<bar> \<le> 1" by linarith
  moreover have "0 \<le> ebo_RandomizationFactor b * interval b n"
    using b interval_bounds(1) [OF b, of n] by (simp add: sane_fields_def)
  ultimately show "near (ebo_RandomizationFactor b) 1 (interval b n) (fst (lib_NextBackOff plain_lib
      (fold (lib_call plain_lib) (cs @ Reset # replicate n NextBackOff) (lib_new plain_lib b))))"
    by (simp add: near_def plain_lib_def)
qed

subsection \<open>The waits of a connection\<close>

lemma bs_run_append:
  "bs_run lib (cs @ cs') es =
     (case bs_run lib cs es of (ds, es1) \<Rightarrow> case bs_run lib cs' es1 of (ds', es2) \<Rightarrow> (ds @ ds', es2))"
  by (induction cs arbitrary: es) (auto split: bs_call.splits prod.splits)

lemma bs_run_state: "es_BackOff (snd (bs_run lib cs es)) = fold (lib_call lib) cs (es_BackOff es)"
  by (induction cs arbitrary: es)
    (auto simp: lib_call_def Exponential_NextBackOff_def Exponential_Reset_def split_beta split: bs_call.splits)

text \<open>The calls of \<open>NextBackOff\<close> since the last \<open>Reset\<close>.\<close>

definition since_reset :: "bs_call list \<Rightarrow> nat" where
  "since_reset cs = length (takeWhile (\<lambda>c. c = NextBackOff) (rev cs))"

lemma since_reset_snoc [simp]:
  "since_reset [] = 0" "since_reset (cs @ [NextBackOff]) = Suc (since_reset cs)" "since_reset (cs @ [Reset]) = 0"
  by (simp_all add: since_reset_def)

lemma split_at_reset:
  obtains pre where "Reset # cs = pre @ Reset # replicate (since_reset cs) NextBackOff"
proof -
  have "\<exists>pre. Reset # cs = pre @ Reset # replicate (since_reset cs) NextBackOff"
  proof (induction cs rule: rev_induct)
    case (snoc c cs)
    then obtain pre where pre: "Reset # cs = pre @ Reset # replicate (since_reset cs) NextBackOff" by blast
    show ?case
    proof (cases c)
      case NextBackOff
      with pre have "Reset # cs @ [c] = pre @ Reset # replicate (Suc (since_reset cs)) NextBackOff"
        by (simp flip: replicate_append_same append_Cons)
      with NextBackOff show ?thesis by auto
    next
      case Reset
      then show ?thesis by (intro exI [of _ "Reset # cs"]) simp
    qed
  qed simp
  with that show ?thesis by blast
qed

text \<open>What a call returns depends on the calls since the last \<open>Reset\<close>, or since \<open>NewExponential\<close>.\<close>

lemma wait_near:
  assumes "documented_backoff slack lib" "sane_fields (exponential_fields config)"
  shows "near (Jitter config) slack (interval (exponential_fields config) (since_reset cs))
    (last (fst (bs_run lib (cs @ [NextBackOff]) (NewExponential lib config))))"
proof -
  let ?b = "exponential_fields config"
  obtain pre where pre: "Reset # cs = pre @ Reset # replicate (since_reset cs) NextBackOff" by (rule split_at_reset)
  have "es_BackOff (snd (bs_run lib cs (NewExponential lib config))) = fold (lib_call lib) (Reset # cs) (lib_new lib ?b)"
    by (simp add: bs_run_state NewExponential_def lib_call_def)
  then have "last (fst (bs_run lib (cs @ [NextBackOff]) (NewExponential lib config)))
      = fst (lib_NextBackOff lib (fold (lib_call lib) (pre @ Reset # replicate (since_reset cs) NextBackOff) (lib_new lib ?b)))"
    by (auto simp: bs_run_append Exponential_NextBackOff_def pre split: prod.splits)
  moreover have "near (ebo_RandomizationFactor ?b) slack (interval ?b (since_reset cs))
      (fst (lib_NextBackOff lib (fold (lib_call lib) (pre @ Reset # replicate (since_reset cs) NextBackOff) (lib_new lib ?b))))"
    using assms unfolding documented_backoff_def by blast
  ultimately show ?thesis by (simp add: exponential_fields_def)
qed

text \<open>An attempt of \<open>resetTransport\<close> takes its wait before it dials; a success resets the strategy.\<close>

definition bs_inv :: "addrConn \<Rightarrow> bool" where
  "bs_inv ac \<longleftrightarrow> (ac_reset ac \<in> {RT_Failed, RT_Backoff} \<longrightarrow> ac_bs ac \<noteq> [] \<and> last (ac_bs ac) = NextBackOff)"

lemma updateConnectivityState_bs:
  "updateConnectivityState s br (ac, ls) = Some (ac', ls') \<Longrightarrow> ac_bs ac' = ac_bs ac \<and> ac_reset ac' = ac_reset ac"
  by (cases rule: updateConnectivityState_cases) auto

lemma bs_inv_step:
  assumes st: "conn_step e (ac, ls) = Some (Ret (ac', ls'))" and inv: "bs_inv ac"
  shows "bs_inv ac'"
proof (cases e)
  case (Connect br)
  with st inv show ?thesis
    by (auto simp: bs_inv_def connect_ac_def dest!: updateConnectivityState_bs split: if_splits option.splits)
next
  case (ResetTop dial br)
  with st inv show ?thesis
    by (auto simp: bs_inv_def reset_top_def Let_def dest!: updateConnectivityState_bs split: if_splits option.splits sum.splits)
next
  case (ResetFailed br)
  with st inv show ?thesis
    by (auto simp: bs_inv_def reset_failed_def dest!: updateConnectivityState_bs split: if_splits option.splits)
next
  case (ResetBackoff br)
  with st inv show ?thesis
    by (auto simp: bs_inv_def reset_backoff_def split: if_splits backoff_branch.splits)
next
  case (ResetCreated br)
  with st inv show ?thesis
    by (auto simp: bs_inv_def reset_created_def dest!: updateConnectivityState_bs split: if_splits option.splits reset_pc.splits)
next
  case (ResetWatch br)
  with st inv show ?thesis
    by (auto simp: bs_inv_def reset_watch_def split: if_splits reset_pc.splits watch_branch.splits)
next
  case (TransportEvent i ev br)
  from st inv show ?thesis
    unfolding TransportEvent conn_step.simps transport_event_def
    by (auto simp: bs_inv_def afterWritePump_ac_def Let_def dest!: updateConnectivityState_bs
        split: if_splits option.splits go.splits)
next
  case (TeardownLock br)
  with st inv show ?thesis
    by (auto simp: bs_inv_def teardown_lock_def Let_def dest!: updateConnectivityState_bs split: if_splits option.splits)
next
  case TeardownClose
  with st inv show ?thesis
    by (auto simp: bs_inv_def teardown_close_def split: if_splits teardown_pc.splits)
qed (use st inv in \<open>auto simp: bs_inv_def cancel_cc_def listen_update_def listen_done_def watch_state_def
    split: if_splits listener_pc.splits prod.splits\<close>)

lemma reachable_bs_inv: "conn_reachable c \<Longrightarrow> bs_inv (fst c)"
proof (induction rule: conn_reachable.induct)
  case (conn_init h addr dopts ctx_done)
  then show ?case by (simp add: bs_inv_def newAddrConn_def split: prod.splits)
next
  case (conn_next c e c')
  then show ?case by (metis bs_inv_step prod.collapse)
qed

lemma sane_default: "sane_fields (exponential_fields backoff_defaultConfig)"
  by (simp add: sane_fields_def exponential_fields_def backoff_defaultConfig_def Second_def word_sless_alt word_sle_eq)


definition refuse_dial :: "string \<Rightarrow> tls_config option \<Rightarrow> unit res" where
  "refuse_dial url cfg = Inl (New ''connection refused'')"

definition two_failures :: "conn_event list" where
  "two_failures = [Connect ToListener, ListenUpdate, ResetTop refuse_dial ToListener, ResetFailed ToListener, ListenUpdate,
     ResetBackoff TimerFires, ResetTop refuse_dial ToListener]"


text \<open>
  \<open>DialWithContext\<close> gives every \<open>ClientConn\<close> the same \<open>DefaultExponential\<close>: after \<open>k\<close> failed
  attempts of one connection, the first wait of another is that of its own attempt \<open>k + 1\<close>.
\<close>

lemma shared_strategy_wait:
  assumes "documented_backoff slack lib"
  shows "near (Jitter backoff_defaultConfig) slack (interval (exponential_fields backoff_defaultConfig) k)
    (last (fst (bs_run lib (replicate k NextBackOff @ [NextBackOff]) (DefaultExponential lib))))"
proof -
  have "since_reset (replicate k NextBackOff) = k"
    by (simp add: since_reset_def)
  with wait_near [OF assms sane_default, of "replicate k NextBackOff"] show ?thesis by (simp add: DefaultExponential_def)
qed

end
