(* ===== verification/Message.thy ===== *)
theory Message
  imports Credentials
begin

text \<open>
  \<open>internal/message/message.go\<close> and the message types and getters of
  \<open>internal/message/message.pb.go\<close>, \<open>utils.go\<close>, and \<open>peer/peer.go\<close> with the part of
  \<open>context.Context\<close> the repository uses.

  \<open>google.golang.org/protobuf/proto\<close> is not part of the repository.  It is the parameter
  \<open>pb :: 'm proto\<close>: what \<open>proto.Marshal\<close> and \<open>proto.Unmarshal\<close> do on the messages of one
  Go type.  Properties that need it to decode what it encodes say so with \<open>decodes\<close>.
\<close>

subsection \<open>Message types\<close>

record Request =
  req_Method :: string
  req_CallId :: string
  req_Payload :: slice

record Response =
  resp_CallId :: string
  resp_Payload :: slice
  resp_Error :: string

text \<open>The \<open>oneof\<close> wrapper: each case holds a pointer.\<close>

datatype Exchange = Message_Request "Request option" | Message_Response "Response option"

record Message =
  msg_Exchange :: "Exchange option"

definition Message_GetExchange :: "Message option \<Rightarrow> Exchange option" where
  "Message_GetExchange m = (case m of Some v \<Rightarrow> msg_Exchange v | None \<Rightarrow> None)"

definition Message_GetRequest :: "Message option \<Rightarrow> Request option" where
  "Message_GetRequest x =
     (case Message_GetExchange x of Some (Message_Request r) \<Rightarrow> r | _ \<Rightarrow> None)"

definition Message_GetResponse :: "Message option \<Rightarrow> Response option" where
  "Message_GetResponse x =
     (case Message_GetExchange x of Some (Message_Response r) \<Rightarrow> r | _ \<Rightarrow> None)"

definition Request_GetMethod :: "Request option \<Rightarrow> string" where
  "Request_GetMethod x = (case x of Some r \<Rightarrow> req_Method r | None \<Rightarrow> [])"

definition Request_GetCallId :: "Request option \<Rightarrow> string" where
  "Request_GetCallId x = (case x of Some r \<Rightarrow> req_CallId r | None \<Rightarrow> [])"

definition Request_GetPayload :: "Request option \<Rightarrow> slice" where
  "Request_GetPayload x = (case x of Some r \<Rightarrow> req_Payload r | None \<Rightarrow> None)"

definition Response_GetCallId :: "Response option \<Rightarrow> string" where
  "Response_GetCallId x = (case x of Some r \<Rightarrow> resp_CallId r | None \<Rightarrow> [])"

definition Response_GetPayload :: "Response option \<Rightarrow> slice" where
  "Response_GetPayload x = (case x of Some r \<Rightarrow> resp_Payload r | None \<Rightarrow> None)"

definition Response_GetError :: "Response option \<Rightarrow> string" where
  "Response_GetError x = (case x of Some r \<Rightarrow> resp_Error r | None \<Rightarrow> [])"

lemmas getter_defs [go_simps] =
  Message_GetExchange_def Message_GetRequest_def Message_GetResponse_def
  Request_GetMethod_def Request_GetCallId_def Request_GetPayload_def
  Response_GetCallId_def Response_GetPayload_def Response_GetError_def

subsection \<open>Encoding\<close>

text \<open>
  An \<open>interface{}\<close> value as the marshalling functions see it: nil, a value whose type
  implements \<open>proto.Message\<close>, or a value of another type (with the name \<open>%T\<close> prints).
\<close>

datatype 'm go_value = NilValue | ProtoMessage 'm | OtherValue string

primrec type_name :: "'m go_value \<Rightarrow> string" where
  "type_name NilValue = ''<nil>''"
| "type_name (ProtoMessage m) = ''proto.Message''"
| "type_name (OtherValue t) = t"

record 'm proto =
  pb_marshal :: "'m \<Rightarrow> slice res"
  pb_unmarshal :: "slice \<Rightarrow> 'm \<Rightarrow> 'm res"

definition marshalProtoMessage :: "'m proto \<Rightarrow> 'm go_value \<Rightarrow> slice res" where
  "marshalProtoMessage pb v =
     (case v of
        ProtoMessage vv \<Rightarrow> pb_marshal pb vv
      | _ \<Rightarrow> Inl (New (''failed to marshal, message is '' @ type_name v @ '', want proto.Message'')))"

text \<open>\<open>utils.go\<close> repeats \<open>marshalProtoMessage\<close> and adds the inverse.\<close>

definition MarshalProtoMessage :: "'m proto \<Rightarrow> 'm go_value \<Rightarrow> slice res" where
  "MarshalProtoMessage pb v =
     (case v of
        ProtoMessage vv \<Rightarrow> pb_marshal pb vv
      | _ \<Rightarrow> Inl (New (''failed to marshal, message is '' @ type_name v @ '', want proto.Message'')))"

text \<open>\<open>UnmarshalProtoMessage data v\<close>: the new contents of the message \<open>v\<close> points to.\<close>

definition UnmarshalProtoMessage :: "'m proto \<Rightarrow> slice \<Rightarrow> 'm go_value \<Rightarrow> 'm res" where
  "UnmarshalProtoMessage pb data v =
     (case v of
        ProtoMessage vv \<Rightarrow> pb_unmarshal pb data vv
      | _ \<Rightarrow> Inl (New (''failed to unmarshal, message is '' @ type_name v @ '', want proto.Message'')))"

definition NewRequest :: "'p proto \<Rightarrow> string \<Rightarrow> string \<Rightarrow> 'p go_value \<Rightarrow> Message res" where
  "NewRequest pb callID method v =
     (case marshalProtoMessage pb v of
        Inl e \<Rightarrow> Inl e
      | Inr payload \<Rightarrow> Inr \<lparr>msg_Exchange = Some (Message_Request (Some
          \<lparr>req_Method = method, req_CallId = callID, req_Payload = payload\<rparr>))\<rparr>)"

definition NewResponse ::
  "'p proto \<Rightarrow> string \<Rightarrow> 'p go_value \<Rightarrow> go_error option \<Rightarrow> Message res"
where
  "NewResponse pb callID v rerr =
     (case marshalProtoMessage pb v of
        Inl e \<Rightarrow> Inl e
      | Inr payload \<Rightarrow>
          let resp = \<lparr>resp_CallId = callID, resp_Payload = payload, resp_Error = []\<rparr>;
              resp1 = (case rerr of Some e \<Rightarrow> resp\<lparr>resp_Error := Error e\<rparr> | None \<Rightarrow> resp)
          in Inr \<lparr>msg_Exchange = Some (Message_Response (Some resp1))\<rparr>)"

text \<open>The zero value \<open>&message.Message{}\<close> the readers decode into.\<close>

definition empty_message :: Message where
  "empty_message = \<lparr>msg_Exchange = None\<rparr>"

subsection \<open>What the encoder is relied on for\<close>

text \<open>
  \<open>decodes pb norm\<close>: decoding an encoded message gives the message back up to \<open>norm\<close>, into
  any target, and a nil slice decodes like an empty one.  For \<open>Message\<close> itself \<open>norm\<close> is the documented behaviour of proto3: an empty
  bytes field is not sent and reads back as nil, and a sub-message that is set but nil reads
  back as an empty one.
\<close>

definition norm_slice :: "slice \<Rightarrow> slice" where
  "norm_slice s = (if s = Some [] then None else s)"

definition decodes :: "'m proto \<Rightarrow> ('m \<Rightarrow> 'm) \<Rightarrow> bool" where
  "decodes pb norm \<longleftrightarrow> (\<forall>m b t. pb_marshal pb m = Inr b \<longrightarrow>
     pb_unmarshal pb b t = Inr (norm m) \<and> pb_unmarshal pb (norm_slice b) t = Inr (norm m))"

definition norm_request :: "Request option \<Rightarrow> Request" where
  "norm_request x = (case x of
       None \<Rightarrow> \<lparr>req_Method = [], req_CallId = [], req_Payload = None\<rparr>
     | Some r \<Rightarrow> r\<lparr>req_Payload := norm_slice (req_Payload r)\<rparr>)"

definition norm_response :: "Response option \<Rightarrow> Response" where
  "norm_response x = (case x of
       None \<Rightarrow> \<lparr>resp_CallId = [], resp_Payload = None, resp_Error = []\<rparr>
     | Some r \<Rightarrow> r\<lparr>resp_Payload := norm_slice (resp_Payload r)\<rparr>)"

definition norm_message :: "Message \<Rightarrow> Message" where
  "norm_message m = (case msg_Exchange m of
       None \<Rightarrow> m
     | Some (Message_Request r) \<Rightarrow> \<lparr>msg_Exchange = Some (Message_Request (Some (norm_request r)))\<rparr>
     | Some (Message_Response r) \<Rightarrow> \<lparr>msg_Exchange = Some (Message_Response (Some (norm_response r)))\<rparr>)"

lemmas norm_defs [go_simps] = norm_message_def norm_request_def norm_response_def

lemma NewRequest_Inr:
  "NewRequest pb callID method v = Inr m \<longleftrightarrow>
     (\<exists>p payload. v = ProtoMessage p \<and> pb_marshal pb p = Inr payload \<and>
        m = \<lparr>msg_Exchange = Some (Message_Request (Some
          \<lparr>req_Method = method, req_CallId = callID, req_Payload = payload\<rparr>))\<rparr>)"
  by (cases v) (auto simp: NewRequest_def marshalProtoMessage_def split: sum.splits)

lemma NewResponse_Inr:
  "NewResponse pb callID v rerr = Inr m \<longleftrightarrow>
     (\<exists>p payload. v = ProtoMessage p \<and> pb_marshal pb p = Inr payload \<and>
        m = \<lparr>msg_Exchange = Some (Message_Response (Some
          \<lparr>resp_CallId = callID, resp_Payload = payload,
           resp_Error = (case rerr of None \<Rightarrow> [] | Some e \<Rightarrow> Error e)\<rparr>))\<rparr>)"
  by (cases v) (auto simp: NewResponse_def marshalProtoMessage_def Let_def split: sum.splits option.splits)

lemma wire_decode:
  assumes "decodes wire norm_message" "MarshalProtoMessage wire (ProtoMessage m) = Inr b"
  shows "UnmarshalProtoMessage wire b (ProtoMessage t) = Inr (norm_message m)"
  using assms by (auto simp: decodes_def MarshalProtoMessage_def UnmarshalProtoMessage_def)

lemma payload_decode:
  assumes "decodes pb norm" "marshalProtoMessage pb (ProtoMessage p) = Inr b"
  shows "UnmarshalProtoMessage pb (norm_slice b) (ProtoMessage t) = Inr (norm p)"
  using assms by (auto simp: decodes_def marshalProtoMessage_def UnmarshalProtoMessage_def)

subsection \<open>Contexts and peers\<close>

text \<open>
  A context: why it is done, if it is (\<open>ctx.Err()\<close>), its deadline, and the value stored under
  \<open>peerKey{}\<close>, the only key the repository uses.
\<close>

record Peer =
  peer_PublicKey :: static_key

record go_ctx =
  ctx_Err :: "go_error option"
  ctx_Deadline :: "int option"
  ctx_peer :: "Peer option"

definition Background :: go_ctx where
  "Background = \<lparr>ctx_Err = None, ctx_Deadline = None, ctx_peer = None\<rparr>"

definition peer_NewContext :: "go_ctx \<Rightarrow> Peer \<Rightarrow> go_ctx" where
  "peer_NewContext ctx p = ctx\<lparr>ctx_peer := Some p\<rparr>"

definition peer_FromContext :: "go_ctx \<Rightarrow> Peer option" where
  "peer_FromContext ctx = ctx_peer ctx"

definition peer_NewCallContext :: "go_ctx \<Rightarrow> static_key \<Rightarrow> go_ctx" where
  "peer_NewCallContext ctx pubkey = peer_NewContext ctx \<lparr>peer_PublicKey = pubkey\<rparr>"

lemmas peer_defs [go_simps] = peer_NewContext_def peer_FromContext_def peer_NewCallContext_def

end
