(* ===== verification/Service.thy ===== *)
theory Service
  imports Message
begin

text \<open>
  \<open>service.go\<close>, the registration loop both endpoints share, and the code that
  \<open>protoc-gen-go-wsrpc\<close> emits around a service method (as checked in under
  \<open>examples/simple/ping\<close>).  A method handler is user code: it is a value of the model.
\<close>

type_synonym ('i, 'p) methodHandler =
  "'i \<Rightarrow> go_ctx \<Rightarrow> ('p go_value \<Rightarrow> 'p res) \<Rightarrow> 'p go_value \<times> go_error option"

record ('i, 'p) MethodDesc =
  md_MethodName :: string
  md_Handler :: "('i, 'p) methodHandler"

record ('i, 'p) ServiceDesc =
  sd_ServiceName :: string
  sd_HandlerType :: string
  sd_Methods :: "('i, 'p) MethodDesc list"

record ('i, 'p) serviceInfo =
  si_serviceImpl :: 'i
  si_methods :: "string \<rightharpoonup> ('i, 'p) MethodDesc"

text \<open>The loop of \<open>register\<close>: a later method of the same name replaces an earlier one.\<close>

fun register_methods ::
  "('i, 'p) MethodDesc list \<Rightarrow> (string \<rightharpoonup> ('i, 'p) MethodDesc) \<Rightarrow> (string \<rightharpoonup> ('i, 'p) MethodDesc)"
where
  "register_methods [] m = m"
| "register_methods (d # ds) m = register_methods ds (m(md_MethodName d \<mapsto> d))"

definition new_serviceInfo :: "('i, 'p) ServiceDesc \<Rightarrow> 'i \<Rightarrow> ('i, 'p) serviceInfo" where
  "new_serviceInfo sd ss =
     \<lparr>si_serviceImpl = ss, si_methods = register_methods (sd_Methods sd) Map.empty\<rparr>"

lemma register_methods_map_of:
  "register_methods ds m = m ++ map_of (rev (map (\<lambda>d. (md_MethodName d, d)) ds))"
  by (induction ds arbitrary: m) (auto simp: fun_eq_iff map_add_def split: option.splits)

lemma new_serviceInfo_method:
  assumes "distinct (map md_MethodName (sd_Methods sd))" "d \<in> set (sd_Methods sd)"
  shows "si_methods (new_serviceInfo sd ss) (md_MethodName d) = Some d"
proof -
  let ?ps = "map (\<lambda>d. (md_MethodName d, d)) (sd_Methods sd)"
  have "map fst (rev ?ps) = rev (map md_MethodName (sd_Methods sd))"
    by (simp add: rev_map comp_def)
  then have "distinct (map fst (rev ?ps))" using assms(1) by (metis distinct_rev)
  moreover have "(md_MethodName d, d) \<in> set (rev ?ps)" using assms(2) by auto
  ultimately show ?thesis
    by (simp add: new_serviceInfo_def register_methods_map_of map_of_eq_Some_iff)
qed

lemma new_serviceInfo_None:
  "n \<notin> md_MethodName ` set (sd_Methods sd) \<Longrightarrow> si_methods (new_serviceInfo sd ss) n = None"
  by (auto simp: new_serviceInfo_def register_methods_map_of map_of_eq_None_iff image_iff)

text \<open>
  \<open>ServiceRegistrar\<close>: what registration code generated for a service relies on, whether it
  registers on a client connection or on a server.
\<close>

locale registrar =
  fixes register :: "('i, 'p) ServiceDesc \<Rightarrow> 'i \<Rightarrow> 's \<Rightarrow> 's"
    and service_of :: "'s \<Rightarrow> ('i, 'p) serviceInfo option"
  assumes service_register: "service_of (register sd ss s) = Some (new_serviceInfo sd ss)"
begin

lemma registered_method:
  assumes "distinct (map md_MethodName (sd_Methods sd))" "d \<in> set (sd_Methods sd)"
  shows "\<exists>si. service_of (register sd ss s) = Some si \<and> si_serviceImpl si = ss
    \<and> si_methods si (md_MethodName d) = Some d"
  using new_serviceInfo_method [OF assms] by (simp add: service_register new_serviceInfo_def)

lemma register_replaces: "service_of (register sd2 ss2 (register sd1 ss1 s)) = Some (new_serviceInfo sd2 ss2)"
  by (rule service_register)

end

subsection \<open>Generated code\<close>

text \<open>
  A generated handler, e.g. \<open>_Ping_Ping_Handler\<close>: decode into a new request message
  \<open>new_in\<close>; a decoding error is returned with a nil reply.
\<close>

definition generated_handler ::
  "'p \<Rightarrow> ('i \<Rightarrow> go_ctx \<Rightarrow> 'p \<Rightarrow> 'p go_value \<times> go_error option) \<Rightarrow> ('i, 'p) methodHandler"
where
  "generated_handler new_in method srv ctx dec =
     (case dec (ProtoMessage new_in) of
        Inl err \<Rightarrow> (NilValue, Some err)
      | Inr in_msg \<Rightarrow> method srv ctx in_msg)"

text \<open>
  A generated client method, e.g. \<open>pingClient.Ping\<close>, over the \<open>Invoke\<close> of a
  \<open>ClientInterface\<close>, which fills the new reply message \<open>out\<close> or returns an error.
\<close>

definition generated_client_method ::
  "(string \<Rightarrow> 'p go_value \<Rightarrow> 'p go_value \<Rightarrow> 'p res) \<Rightarrow> string \<Rightarrow> 'p \<Rightarrow> 'p \<Rightarrow> 'p res"
where
  "generated_client_method invoke name out in_msg =
     (case invoke name (ProtoMessage in_msg) (ProtoMessage out) of
        Inl err \<Rightarrow> Inl err
      | Inr out' \<Rightarrow> Inr out')"

end
