(* ===== verification/Wire.thy ===== *)
theory Wire
  imports Message
begin

text \<open>
  Concrete encoders for concrete runs, and the round trips of the message layer.  The encoders
  are no model of protobuf: they only show that the behaviour the properties rely on
  (\<open>decodes\<close>) can be had, and they make examples computable.  \<open>sample_wire\<close> encodes
  \<open>Message\<close>; \<open>sample_payload\<close> encodes payload messages that are byte strings, and refuses to
  encode or decode byte strings that start with 255.
\<close>

subsection \<open>Encoders\<close>

fun enc_bytes :: "bytes \<Rightarrow> bytes" where
  "enc_bytes [] = [0]"
| "enc_bytes (b # bs) = 1 # b # enc_bytes bs"

fun dec_bytes :: "bytes \<Rightarrow> (bytes \<times> bytes) option" where
  "dec_bytes (t # b # r) =
     (if t = 0 then Some ([], b # r)
      else map_option (\<lambda>(bs, r'). (b # bs, r')) (dec_bytes r))"
| "dec_bytes [t] = (if t = 0 then Some ([], []) else None)"
| "dec_bytes [] = None"

lemma dec_enc_bytes [simp]: "dec_bytes (enc_bytes bs @ r) = Some (bs, r)"
proof (induction bs)
  case Nil
  then show ?case by (cases r) auto
next
  case (Cons b bs)
  then show ?case by simp
qed

lemma dec_enc_bytes_end [simp]: "dec_bytes (enc_bytes bs) = Some (bs, [])"
  using dec_enc_bytes [of bs "[]"] by simp

definition bytes_of_string :: "string \<Rightarrow> bytes" where
  "bytes_of_string s = map (\<lambda>c. word_of_nat (of_char c)) s"

definition string_of_bytes :: "bytes \<Rightarrow> string" where
  "string_of_bytes bs = map (\<lambda>b. char_of (unat b)) bs"

lemma string_of_bytes_inverse [simp]: "string_of_bytes (bytes_of_string s) = s"
proof -
  have "char_of (unat (word_of_nat (of_char c) :: byte)) = c" for c
    by (simp add: unat_of_nat take_bit_nat_eq_self)
  then show ?thesis by (simp add: string_of_bytes_def bytes_of_string_def comp_def)
qed

definition slice_bytes :: "slice \<Rightarrow> bytes" where
  "slice_bytes s = (case s of None \<Rightarrow> [] | Some b \<Rightarrow> b)"

definition bytes_slice :: "bytes \<Rightarrow> slice" where
  "bytes_slice b = (if b = [] then None else Some b)"

lemma bytes_slice_inverse [simp]: "bytes_slice (slice_bytes s) = norm_slice s"
  by (cases s) (auto simp: bytes_slice_def slice_bytes_def norm_slice_def)

definition enc3 :: "bytes \<Rightarrow> bytes \<Rightarrow> bytes \<Rightarrow> bytes" where
  "enc3 x y z = enc_bytes x @ enc_bytes y @ enc_bytes z"

definition dec3 :: "bytes \<Rightarrow> (bytes \<times> bytes \<times> bytes) option" where
  "dec3 bs = Option.bind (dec_bytes bs) (\<lambda>(x, r1). Option.bind (dec_bytes r1) (\<lambda>(y, r2).
     Option.bind (dec_bytes r2) (\<lambda>(z, _). Some (x, y, z))))"

lemma dec3_enc3 [simp]: "dec3 (enc3 x y z) = Some (x, y, z)"
  by (simp add: dec3_def enc3_def)

definition sample_encode :: "Message \<Rightarrow> slice res" where
  "sample_encode m = Inr (Some (case msg_Exchange m of
       None \<Rightarrow> []
     | Some (Message_Request r) \<Rightarrow> (let q = norm_request r in
         2 # enc3 (bytes_of_string (req_Method q)) (bytes_of_string (req_CallId q)) (slice_bytes (req_Payload q)))
     | Some (Message_Response r) \<Rightarrow> (let q = norm_response r in
         3 # enc3 (bytes_of_string (resp_CallId q)) (slice_bytes (resp_Payload q)) (bytes_of_string (resp_Error q)))))"

definition sample_decode :: "slice \<Rightarrow> Message \<Rightarrow> Message res" where
  "sample_decode s t = (case slice_bytes s of
       [] \<Rightarrow> Inr \<lparr>msg_Exchange = None\<rparr>
     | tag # bs \<Rightarrow> (case dec3 bs of
         None \<Rightarrow> Inl (New ''proto: cannot parse invalid wire-format data'')
       | Some (x, y, z) \<Rightarrow>
           if tag = 2 then Inr \<lparr>msg_Exchange = Some (Message_Request (Some \<lparr>req_Method = string_of_bytes x,
             req_CallId = string_of_bytes y, req_Payload = bytes_slice z\<rparr>))\<rparr>
           else if tag = 3 then Inr \<lparr>msg_Exchange = Some (Message_Response (Some \<lparr>resp_CallId = string_of_bytes x,
             resp_Payload = bytes_slice y, resp_Error = string_of_bytes z\<rparr>))\<rparr>
           else Inl (New ''proto: cannot parse invalid wire-format data'')))"

definition sample_wire :: "Message proto" where
  "sample_wire = \<lparr>pb_marshal = sample_encode, pb_unmarshal = sample_decode\<rparr>"

lemma norm_slice_None [simp]: "norm_slice None = None"
  by (simp add: norm_slice_def)

lemma norm_slice_idem [simp]: "norm_slice (norm_slice s) = norm_slice s"
  by (simp add: norm_slice_def)

lemma slice_bytes_norm [simp]: "slice_bytes (norm_slice s) = slice_bytes s"
  by (auto simp: slice_bytes_def norm_slice_def)

lemma slice_bytes_Some [simp]: "slice_bytes (Some b) = b"
  by (simp add: slice_bytes_def)

lemma sample_decode_encode:
  assumes "sample_encode m = Inr b"
  shows "sample_decode b t = Inr (norm_message m)"
proof (cases "msg_Exchange m")
  case None
  with assms show ?thesis
    by (cases m) (auto simp: sample_encode_def sample_decode_def norm_message_def)
next
  case (Some x)
  show ?thesis
  proof (cases x)
    case (Message_Request r)
    with assms Some show ?thesis
      by (cases r) (auto simp: sample_encode_def sample_decode_def norm_message_def norm_request_def Let_def)
  next
    case (Message_Response r)
    with assms Some show ?thesis
      by (cases r) (auto simp: sample_encode_def sample_decode_def norm_message_def norm_response_def Let_def)
  qed
qed

lemma decodes_sample_wire: "decodes sample_wire norm_message"
  unfolding decodes_def
proof (intro allI impI)
  fix m b t
  assume "pb_marshal sample_wire m = Inr b"
  then have "sample_encode m = Inr b" by (simp add: sample_wire_def)
  then have "sample_decode b t = Inr (norm_message m)" by (rule sample_decode_encode)
  then show "pb_unmarshal sample_wire b t = Inr (norm_message m) \<and>
      pb_unmarshal sample_wire (norm_slice b) t = Inr (norm_message m)"
    by (simp add: sample_wire_def sample_decode_def)
qed

definition sample_payload :: "bytes proto" where
  "sample_payload = \<lparr>
     pb_marshal = (\<lambda>p. if take 1 p = [255] then Inl (New ''proto: invalid UTF-8'') else Inr (Some p)),
     pb_unmarshal = (\<lambda>s t. if take 1 (slice_bytes s) = [255]
        then Inl (New ''proto: cannot parse invalid wire-format data'') else Inr (slice_bytes s))\<rparr>"

lemma decodes_sample_payload: "decodes sample_payload id"
  by (auto simp: decodes_def sample_payload_def split: if_splits)

subsection \<open>Round trips\<close>

text \<open>
  A request crosses the wire intact: what \<open>NewRequest\<close> builds and
  \<open>MarshalProtoMessage\<close> encodes is decoded by the reader into a request with the same method
  and call id, whose payload decodes to the argument message.
\<close>

lemma request_roundtrip:
  assumes "decodes wire norm_message" and "decodes pb norm"
    and "NewRequest pb callID method (ProtoMessage p) = Inr m"
    and "MarshalProtoMessage wire (ProtoMessage m) = Inr b"
  shows "\<exists>r. UnmarshalProtoMessage wire b (ProtoMessage empty_message)
      = Inr \<lparr>msg_Exchange = Some (Message_Request (Some r))\<rparr>
    \<and> Request_GetMethod (Some r) = method \<and> Request_GetCallId (Some r) = callID
    \<and> UnmarshalProtoMessage pb (Request_GetPayload (Some r)) (ProtoMessage t) = Inr (norm p)"
proof -
  from assms(3) obtain payload where enc: "pb_marshal pb p = Inr payload"
    and m: "m = \<lparr>msg_Exchange = Some (Message_Request (Some
          \<lparr>req_Method = method, req_CallId = callID, req_Payload = payload\<rparr>))\<rparr>"
    by (auto simp: NewRequest_Inr)
  have "UnmarshalProtoMessage pb (norm_slice payload) (ProtoMessage t) = Inr (norm p)"
    using payload_decode [OF assms(2)] enc by (simp add: marshalProtoMessage_def)
  with wire_decode [OF assms(1,4), of empty_message] show ?thesis
    by (simp add: m go_simps)
qed

text \<open>
  A response crosses the wire with its call id and with the text of the handler's error,
  empty when there was none; a value that is not a protobuf message gives no response at all.
\<close>

lemma response_roundtrip:
  assumes "decodes wire norm_message"
  shows "(case NewResponse pb callID v rerr of
      Inl _ \<Rightarrow> is_err (marshalProtoMessage pb v)
    | Inr m \<Rightarrow> (\<forall>b. MarshalProtoMessage wire (ProtoMessage m) = Inr b \<longrightarrow>
        (\<exists>r payload. UnmarshalProtoMessage wire b (ProtoMessage empty_message)
            = Inr \<lparr>msg_Exchange = Some (Message_Response (Some r))\<rparr>
          \<and> Response_GetCallId (Some r) = callID
          \<and> Response_GetError (Some r) = (case rerr of None \<Rightarrow> [] | Some e \<Rightarrow> Error e)
          \<and> marshalProtoMessage pb v = Inr payload \<and> Response_GetPayload (Some r) = norm_slice payload)))"
proof (cases "NewResponse pb callID v rerr")
  case (Inl e)
  then show ?thesis by (auto simp: NewResponse_def Let_def split: sum.splits)
next
  case (Inr m)
  from Inr obtain p payload where v: "v = ProtoMessage p" "pb_marshal pb p = Inr payload"
    and m: "m = \<lparr>msg_Exchange = Some (Message_Response (Some
          \<lparr>resp_CallId = callID, resp_Payload = payload,
           resp_Error = (case rerr of None \<Rightarrow> [] | Some e \<Rightarrow> Error e)\<rparr>))\<rparr>"
    by (auto simp: NewResponse_Inr)
  show ?thesis
    unfolding Inr
    using wire_decode [OF assms, of m _ empty_message] v
    by (auto simp: m go_simps marshalProtoMessage_def)
qed

end
