(* ===== verification/Methods.thy ===== *)
theory Methods
  imports Credentials
begin

text \<open>
  \<open>internal/methods/methods.go\<close>: the calls a server waits on, a map from public keys to maps
  from call ids to response channels.  The inner objects are pointers, but each is reachable
  from its outer entry only, so the nested maps are values here.

  \<open>call_table\<close> is what the two users of pending-call tables rely on (the server, over public
  keys and call ids, and the client connection, over call ids): a stored call is found until it
  is deleted, and calls do not disturb each other.
\<close>

locale call_table =
  fixes tbl_empty :: "'t"
    and tbl_put :: "'k \<Rightarrow> 'v \<Rightarrow> 't \<Rightarrow> 't"
    and tbl_del :: "'k \<Rightarrow> 't \<Rightarrow> 't"
    and tbl_get :: "'k \<Rightarrow> 't \<Rightarrow> 'v option"
  assumes get_empty: "tbl_get k tbl_empty = None"
    and get_put: "tbl_get k (tbl_put k' v t) = (if k = k' then Some v else tbl_get k t)"
    and get_del: "tbl_get k (tbl_del k' t) = (if k = k' then None else tbl_get k t)"
begin

lemmas table_laws = get_empty get_put get_del

definition pending :: "'t \<Rightarrow> 'k set" where
  "pending t = {k. tbl_get k t \<noteq> None}"

lemma pending_simps:
  "pending tbl_empty = {}"
  "pending (tbl_put k v t) = insert k (pending t)"
  "pending (tbl_del k t) = pending t - {k}"
  by (auto simp: pending_def table_laws split: if_splits)

text \<open>A call that is registered and removed again leaves no trace in the table.\<close>

lemma del_put: "tbl_get k (tbl_del k' (tbl_put k' v t)) = tbl_get k (tbl_del k' t)"
  by (simp add: table_laws)

end

subsection \<open>The calls of one public key\<close>

record 'c MethodCallsForPublicKey =
  mcpk_calls :: "string \<rightharpoonup> 'c"

definition NewMethodCallsForPublicKey :: "'c MethodCallsForPublicKey" where
  "NewMethodCallsForPublicKey = \<lparr>mcpk_calls = Map.empty\<rparr>"

definition PutMessageResponseChannel ::
  "string \<Rightarrow> 'c \<Rightarrow> 'c MethodCallsForPublicKey \<Rightarrow> 'c MethodCallsForPublicKey"
where
  "PutMessageResponseChannel i ch m = m\<lparr>mcpk_calls := (mcpk_calls m)(i \<mapsto> ch)\<rparr>"

definition GetMessageResponseChannel :: "string \<Rightarrow> 'c MethodCallsForPublicKey \<Rightarrow> 'c res" where
  "GetMessageResponseChannel i m =
     (case mcpk_calls m i of
        None \<Rightarrow> Inl (New (''id not found: '' @ i))
      | Some call \<Rightarrow> Inr call)"

definition MethodCallsForPublicKey_Delete ::
  "string \<Rightarrow> 'c MethodCallsForPublicKey \<Rightarrow> 'c MethodCallsForPublicKey"
where
  "MethodCallsForPublicKey_Delete i m = m\<lparr>mcpk_calls := (mcpk_calls m)(i := None)\<rparr>"

subsection \<open>The calls of all public keys\<close>

record 'c MethodCalls =
  mc_calls :: "static_key \<rightharpoonup> 'c MethodCallsForPublicKey"

definition NewMethodCalls :: "'c MethodCalls" where
  "NewMethodCalls = \<lparr>mc_calls = Map.empty\<rparr>"

definition PutMethodCallForPublicKey ::
  "static_key \<Rightarrow> string \<Rightarrow> 'c \<Rightarrow> 'c MethodCalls \<Rightarrow> 'c MethodCalls"
where
  "PutMethodCallForPublicKey pubKey i ch m =
     (let forKey = (case mc_calls m pubKey of
                      None \<Rightarrow> NewMethodCallsForPublicKey
                    | Some f \<Rightarrow> f)
      in m\<lparr>mc_calls := (mc_calls m)(pubKey \<mapsto> PutMessageResponseChannel i ch forKey)\<rparr>)"

definition GetMessageResponseChannelForPublicKey ::
  "static_key \<Rightarrow> string \<Rightarrow> 'c MethodCalls \<Rightarrow> 'c res"
where
  "GetMessageResponseChannelForPublicKey pubKey i m =
     (case mc_calls m pubKey of
        Some forKey \<Rightarrow> GetMessageResponseChannel i forKey
      | None \<Rightarrow> Inl (New (''public key not found: '' @ StaticSizedPublicKey_String pubKey)))"

definition DeleteMethodCall :: "static_key \<Rightarrow> string \<Rightarrow> 'c MethodCalls \<Rightarrow> 'c MethodCalls" where
  "DeleteMethodCall pubKey i m =
     (case mc_calls m pubKey of
        Some forKey \<Rightarrow> m\<lparr>mc_calls := (mc_calls m)(pubKey \<mapsto> MethodCallsForPublicKey_Delete i forKey)\<rparr>
      | None \<Rightarrow> m)"

lemmas method_calls_defs =
  NewMethodCallsForPublicKey_def PutMessageResponseChannel_def GetMessageResponseChannel_def
  MethodCallsForPublicKey_Delete_def NewMethodCalls_def PutMethodCallForPublicKey_def
  GetMessageResponseChannelForPublicKey_def DeleteMethodCall_def

subsection \<open>Refinement to one flat map\<close>

text \<open>The nested maps implement one map over pairs of a public key and a call id.\<close>

definition abs_calls :: "'c MethodCalls \<Rightarrow> (static_key \<times> string) \<rightharpoonup> 'c" where
  "abs_calls m = (\<lambda>(pubKey, i). case mc_calls m pubKey of None \<Rightarrow> None | Some f \<Rightarrow> mcpk_calls f i)"

lemma abs_New: "abs_calls NewMethodCalls = Map.empty"
  by (auto simp: abs_calls_def method_calls_defs)

lemma abs_Put: "abs_calls (PutMethodCallForPublicKey k i ch m) = (abs_calls m)((k, i) \<mapsto> ch)"
proof (rule ext)
  fix kj :: "static_key \<times> string"
  obtain k' j where "kj = (k', j)" by (cases kj)
  then show "abs_calls (PutMethodCallForPublicKey k i ch m) kj = ((abs_calls m)((k, i) \<mapsto> ch)) kj"
    by (cases "k' = k"; cases "j = i") (auto simp: abs_calls_def method_calls_defs Let_def split: option.splits)
qed

lemma abs_Delete: "abs_calls (DeleteMethodCall k i m) = (abs_calls m)((k, i) := None)"
proof (rule ext)
  fix kj :: "static_key \<times> string"
  obtain k' j where "kj = (k', j)" by (cases kj)
  then show "abs_calls (DeleteMethodCall k i m) kj = ((abs_calls m)((k, i) := None)) kj"
    by (cases "k' = k"; cases "j = i") (auto simp: abs_calls_def method_calls_defs split: option.splits)
qed

lemma Get_abs:
  "GetMessageResponseChannelForPublicKey k i m = Inr ch \<longleftrightarrow> abs_calls m (k, i) = Some ch"
  by (auto simp: abs_calls_def method_calls_defs split: option.splits)

interpretation srv_calls: call_table NewMethodCalls
  "\<lambda>(k, i). PutMethodCallForPublicKey k i" "\<lambda>(k, i). DeleteMethodCall k i" "\<lambda>ki m. abs_calls m ki"
  by unfold_locales (simp_all add: abs_New abs_Put abs_Delete split_beta prod_eq_iff)

text \<open>
  C28.  \<open>MethodCalls\<close> refines one flat map from (public key, call id) to channels: the new
  table is empty, storing and deleting act on one pair only, and a lookup answers from the
  flat map, an error when the pair is absent.
\<close>

theorem MethodCalls_refines_flat_map:
  "abs_calls NewMethodCalls = Map.empty
   \<and> abs_calls (PutMethodCallForPublicKey k i ch m) = (abs_calls m)((k, i) \<mapsto> ch)
   \<and> abs_calls (DeleteMethodCall k i m) = (abs_calls m)((k, i) := None)
   \<and> (GetMessageResponseChannelForPublicKey k i m = Inr ch \<longleftrightarrow> abs_calls m (k, i) = Some ch)
   \<and> (is_err (GetMessageResponseChannelForPublicKey k i m) \<longleftrightarrow> abs_calls m (k, i) = None)"
proof -
  have "is_err (GetMessageResponseChannelForPublicKey k i m) \<longleftrightarrow> abs_calls m (k, i) = None"
    by (auto simp: abs_calls_def method_calls_defs split: option.splits)
  then show ?thesis by (simp add: abs_New abs_Put abs_Delete Get_abs)
qed

end
