(* ===== verification/Client.thy ===== *)
theory Client
  imports AddrConn Service Wire Methods
begin

text \<open>
  The \<open>ClientConn\<close> of \<open>client.go\<close>: dialling, the goroutine \<open>listenForRead\<close> that starts
  readers, the dispatch of incoming messages, serving requests, and the pieces of \<open>Invoke\<close>.
  Each definition is what the code does without releasing control: what runs between two of
  them may be interleaved with other goroutines.  How calls that are in progress interact is
  the theory \<open>ClientCalls\<close>.

  \<open>cc_conn\<close> is the \<open>addrConn\<close> with its listener; \<open>cc_addrConn\<close> says whether the field that
  points to it is set (\<open>Close\<close> resets it).  A pending call is stored with the number of the
  channel its \<open>Invoke\<close> waits on.
\<close>

record ('i, 'p) ClientConn =
  cc_target :: string
  cc_dopts :: dialOptions
  cc_conn :: conn
  cc_addrConn :: bool
  cc_methodCalls :: "string \<rightharpoonup> nat"
  cc_service :: "('i, 'p) serviceInfo option"

subsection \<open>Dialling\<close>

text \<open>
  \<open>DialWithContext\<close> up to its \<open>if cc.dopts.block\<close>; \<open>None\<close> means that \<open>connect\<close> waits for the
  listener on the branch \<open>br\<close>.
\<close>

definition DialWithContext ::
  "go_ctx \<Rightarrow> string \<Rightarrow> DialOption list \<Rightarrow> upd_branch \<Rightarrow> pk_store \<Rightarrow> chan_store
    \<Rightarrow> (('i, 'p) ClientConn \<times> pk_store) res option"
where
  "DialWithContext ctx target opts br st h =
     (case apply_dial_options 0 opts (defaultDialOptions, st) of
        Inl err \<Rightarrow> Some (Inl err)
      | Inr (dopts, st1) \<Rightarrow>
          let dopts1 = dopts\<lparr>do_bs := Some DefaultExponential\<rparr>
          in (case connect_ac br (newAddrConn target dopts1 (ctx_Err ctx \<noteq> None) h) of
                None \<Rightarrow> None
              | Some (Inl err, _) \<Rightarrow> Some (Inl (Wrap ''error connecting: '' err))
              | Some (Inr _, c) \<Rightarrow> Some (Inr (\<lparr>cc_target = target, cc_dopts = dopts1, cc_conn = c,
                  cc_addrConn = True, cc_methodCalls = Map.empty, cc_service = None\<rparr>, st1))))"

definition Dial where
  "Dial target opts br st h = DialWithContext Background target opts br st h"

text \<open>
  The loop of a blocking dial.  A round holds what other goroutines do to the state manager:
  after the loop has read the state, and in the two gaps of \<open>WaitForStateChange\<close>.
\<close>

datatype dial_result = Dialled | DialFailed | DialBlocked | DialWoken

type_synonym dial_round =
  "State notify_op list \<times> State notify_op list \<times> State notify_op list \<times> bool \<times> wait_branch"

fun dial_wait ::
  "dial_round list \<Rightarrow> connectivityStateManager \<Rightarrow> chan_store
    \<Rightarrow> (dial_result \<times> connectivityStateManager \<times> chan_store) go"
where
  "dial_wait [] csm h = Ret (if getState csm = Ready then Dialled else DialWoken, csm, h)"
| "dial_wait ((env0, env1, env2, ctx_done, br) # rounds) csm h =
     (if getState csm = Ready then Ret (Dialled, csm, h)
      else go_bind (run_csm env0 csm h) (\<lambda>(csm1, h1).
        go_bind (WaitForStateChange (getState csm) env1 env2 ctx_done br csm1 h1) (\<lambda>(r, csm2, h2).
          if r = Returned True then dial_wait rounds csm2 h2
          else Ret (if r = Returned False then DialFailed else DialBlocked, csm2, h2))))"

definition ClientConn_GetState :: "('i, 'p) ClientConn \<Rightarrow> State" where
  "ClientConn_GetState cc = getState (ls_csMgr (snd (cc_conn cc)))"

subsection \<open>Starting readers\<close>

text \<open>
  The goroutine \<open>listenForRead\<close>: about to take the notification channel, waiting on it, or
  woken.  \<open>lr_done\<close> is its local \<open>done\<close> channel and \<open>lr_readers\<close> counts the goroutines
  \<open>handleRead\<close> it has started.
\<close>

datatype listen_read_pc = LR_Top | LR_Waiting nat | LR_Woken | LR_Returned

record listen_read =
  lr_pc :: listen_read_pc
  lr_done :: bool
  lr_readers :: nat
  lr_csMgr :: connectivityStateManager
  lr_chans :: chan_store

datatype listen_read_event = LR_Subscribe | LR_Wake | LR_Handle | LR_CtxDone | LR_Env "State notify_op"

definition listenForRead :: "bool \<Rightarrow> listen_read_event \<Rightarrow> listen_read \<Rightarrow> listen_read go option" where
  "listenForRead ctx_done ev l =
     (case ev of
        LR_Subscribe \<Rightarrow>
          if lr_pc l = LR_Top
          then (case getNotifyChan (lr_csMgr l) (lr_chans l) of (ch, csm, h) \<Rightarrow>
                  Some (Ret (l\<lparr>lr_csMgr := csm, lr_chans := h, lr_pc := LR_Waiting ch\<rparr>)))
          else None
      | LR_Wake \<Rightarrow>
          (case lr_pc l of
             LR_Waiting ch \<Rightarrow> if chan_closed ch (lr_chans l) then Some (Ret (l\<lparr>lr_pc := LR_Woken\<rparr>)) else None
           | _ \<Rightarrow> None)
      | LR_Handle \<Rightarrow>
          if lr_pc l = LR_Woken
          then Some (Ret (if getState (lr_csMgr l) = Ready
                          then l\<lparr>lr_pc := LR_Top, lr_done := True, lr_readers := Suc (lr_readers l)\<rparr>
                          else l\<lparr>lr_pc := LR_Top, lr_done := False\<rparr>))
          else None
      | LR_CtxDone \<Rightarrow>
          (case lr_pc l of
             LR_Waiting ch \<Rightarrow> if ctx_done then Some (Ret (l\<lparr>lr_pc := LR_Returned\<rparr>)) else None
           | _ \<Rightarrow> None)
      | LR_Env op \<Rightarrow>
          Some (go_bind (run_csm [op] (lr_csMgr l) (lr_chans l)) (\<lambda>(csm, h).
            Ret (l\<lparr>lr_csMgr := csm, lr_chans := h\<rparr>))))"

subsection \<open>Incoming messages\<close>

text \<open>
  \<open>handleRead\<close>: the transport it reads from (it returns at once when there is none), and what
  it does with a message.  Its parameter \<open>done\<close> is not used; the loop ends with \<open>cc.ctx\<close> only.
\<close>

definition handleRead_transport :: "('i, 'p) ClientConn \<Rightarrow> nat option" where
  "handleRead_transport cc = (if cc_addrConn cc then ac_transport (fst (cc_conn cc)) else None)"

datatype dispatch = Undecodable | HandleRequest "Request option" | HandleResponse "Response option" | InvalidType

definition ClientConn_handleRead :: "Message proto \<Rightarrow> slice \<Rightarrow> dispatch" where
  "ClientConn_handleRead wire data =
     (case UnmarshalProtoMessage wire data (ProtoMessage empty_message) of
        Inl err \<Rightarrow> Undecodable
      | Inr msg \<Rightarrow> (case msg_Exchange msg of
            Some (Message_Request r) \<Rightarrow> HandleRequest r
          | Some (Message_Response r) \<Rightarrow> HandleResponse r
          | None \<Rightarrow> InvalidType))"

text \<open>
  \<open>handleMessageRequest\<close>: the reply to write, if any (an unknown method and a reply that
  cannot be encoded are dropped); then, possibly later, the transport to write it to.
\<close>

definition ClientConn_handleMessageRequest ::
  "'p proto \<Rightarrow> Message proto \<Rightarrow> ('i, 'p) ClientConn \<Rightarrow> Request option \<Rightarrow> slice option go"
where
  "ClientConn_handleMessageRequest pb wire cc r =
     go_bind (deref (cc_service cc)) (\<lambda>service.
       case si_methods service (Request_GetMethod r) of
         None \<Rightarrow> Ret None
       | Some md \<Rightarrow>
           let dec = (\<lambda>v. UnmarshalProtoMessage pb (Request_GetPayload r) v)
           in case md_Handler md (si_serviceImpl service) Background dec of (v, herr) \<Rightarrow>
                (case NewResponse pb (Request_GetCallId r) v herr of
                   Inl err \<Rightarrow> Ret None
                 | Inr msg \<Rightarrow>
                     (case MarshalProtoMessage wire (ProtoMessage msg) of
                        Inl err \<Rightarrow> Ret None
                      | Inr replyMsg \<Rightarrow> Ret (Some replyMsg))))"

definition ClientConn_reply_transport :: "('i, 'p) ClientConn \<Rightarrow> nat go" where
  "ClientConn_reply_transport cc =
     (if cc_addrConn cc then deref (ac_transport (fst (cc_conn cc))) else Panic NilDereference)"

text \<open>\<open>handleMessageResponse\<close>: the channel of the pending call with the id of the response.\<close>

definition ClientConn_handleMessageResponse :: "('i, 'p) ClientConn \<Rightarrow> Response option \<Rightarrow> nat option" where
  "ClientConn_handleMessageResponse cc r = cc_methodCalls cc (Response_GetCallId r)"

definition ClientConn_register :: "('i, 'p) ServiceDesc \<Rightarrow> 'i \<Rightarrow> ('i, 'p) ClientConn \<Rightarrow> ('i, 'p) ClientConn" where
  "ClientConn_register sd ss cc = cc\<lparr>cc_service := Some (new_serviceInfo sd ss)\<rparr>"

interpretation cc_registrar: registrar ClientConn_register cc_service
  by unfold_locales (simp add: ClientConn_register_def)

subsection \<open>Closing\<close>

text \<open>
  \<open>Close\<close> up to \<open>teardown\<close>: cancel, take the \<open>addrConn\<close> and reset the field.  Calling
  \<open>teardown\<close> on the nil pointer of a second \<open>Close\<close> panics.
\<close>

definition ClientConn_Close :: "('i, 'p) ClientConn \<Rightarrow> ('i, 'p) ClientConn go" where
  "ClientConn_Close cc =
     (if cc_addrConn cc then Ret (cc\<lparr>cc_conn := cancel_cc (cc_conn cc), cc_addrConn := False\<rparr>)
      else Panic NilDereference)"

subsection \<open>Invoking\<close>

text \<open>The parts of \<open>Invoke\<close>, in the order of the code.\<close>

definition Invoke_check :: "('i, 'p) ClientConn \<Rightarrow> unit res go" where
  "Invoke_check cc =
     (if \<not> cc_addrConn cc then Panic NilDereference
      else Ret (if ac_state (fst (cc_conn cc)) \<noteq> Ready then Inl (New ''connection is not ready'') else Inr ()))"

definition Invoke_request :: "'p proto \<Rightarrow> Message proto \<Rightarrow> string \<Rightarrow> string \<Rightarrow> 'p go_value \<Rightarrow> slice res" where
  "Invoke_request pb wire callID method args =
     (case NewRequest pb callID method args of
        Inl err \<Rightarrow> Inl err
      | Inr req \<Rightarrow> pb_marshal wire req)"

definition ClientConn_registerMethodCall :: "string \<Rightarrow> nat \<Rightarrow> (string \<rightharpoonup> nat) \<Rightarrow> (string \<rightharpoonup> nat)" where
  "ClientConn_registerMethodCall i wait calls = calls(i \<mapsto> wait)"

definition ClientConn_removeMethodCall :: "string \<Rightarrow> (string \<rightharpoonup> nat) \<Rightarrow> (string \<rightharpoonup> nat)" where
  "ClientConn_removeMethodCall i calls = calls(i := None)"

interpretation cc_calls: call_table Map.empty ClientConn_registerMethodCall ClientConn_removeMethodCall "\<lambda>i calls. calls i"
  by unfold_locales (auto simp: ClientConn_registerMethodCall_def ClientConn_removeMethodCall_def)

definition Invoke_transport :: "('i, 'p) ClientConn \<Rightarrow> nat res" where
  "Invoke_transport cc =
     (if \<not> cc_addrConn cc then Inl (New ''client Close() called'')
      else case ac_transport (fst (cc_conn cc)) of
             None \<Rightarrow> Inl (New ''wsrpc: transport not ready'')
           | Some tr \<Rightarrow> Inr tr)"

text \<open>What \<open>Invoke\<close> makes of the response it has received; a nil response panics.\<close>

definition Invoke_result :: "'p proto \<Rightarrow> Response option \<Rightarrow> 'p go_value \<Rightarrow> 'p res go" where
  "Invoke_result pb resp reply =
     go_bind (deref resp) (\<lambda>r.
       Ret (if resp_Error r \<noteq> [] then Inl (New (resp_Error r))
            else UnmarshalProtoMessage pb (Response_GetPayload resp) reply))"

definition call_timeout :: "go_ctx \<Rightarrow> go_error" where
  "call_timeout ctx = (case ctx_Err ctx of
       Some e \<Rightarrow> Wrap ''call timeout: '' e
     | None \<Rightarrow> New ''call timeout: %!w(<nil>)'')"

subsection \<open>Properties\<close>

lemma connect_fresh:
  "\<exists>ac ls. connect_ac ToListener (newAddrConn addr dopts d h) = Some (Inr (), (ac, ls))
     \<and> ac_state ac = Connecting \<and> ac_reset ac = RT_Top \<and> ac_addr ac = addr \<and> ac_copts ac = do_copts dopts"
  by (auto simp: connect_ac_def newAddrConn_def updateConnectivityState_def Let_def split: prod.splits)

text \<open>
  C30.  A non-blocking dial, whose listener is at its \<open>select\<close>, returns: an error exactly when
  an option fails, and then the error of the first option that does, numbered; otherwise a
  connection that is Connecting, with the connecting goroutine started, no pending call, no
  service, the options as applied in order and the default backoff strategy.
\<close>

theorem Dial_spec:
  "case (Dial target opts ToListener st h :: (('i, 'p) ClientConn \<times> pk_store) res option) of
     None \<Rightarrow> False
   | Some (Inl e) \<Rightarrow>
       (\<exists>pre opt post os1 err. opts = pre @ opt # post
          \<and> apply_dial_options 0 pre (defaultDialOptions, st) = Inr os1 \<and> opt os1 = Inl err
          \<and> e = option_error (length pre) err)
   | Some (Inr (cc, st')) \<Rightarrow>
       (\<exists>dopts. apply_dial_options 0 opts (defaultDialOptions, st) = Inr (dopts, st')
          \<and> cc_dopts cc = dopts\<lparr>do_bs := Some DefaultExponential\<rparr>)
       \<and> ac_state (fst (cc_conn cc)) = Connecting \<and> ac_reset (fst (cc_conn cc)) = RT_Top
       \<and> ac_copts (fst (cc_conn cc)) = do_copts (cc_dopts cc) \<and> ac_addr (fst (cc_conn cc)) = target
       \<and> cc_addrConn cc \<and> cc_methodCalls cc = Map.empty \<and> cc_service cc = None"
proof (cases "apply_dial_options 0 opts (defaultDialOptions, st)")
  case (Inl e)
  obtain pre opt post os1 err where "opts = pre @ opt # post"
    "apply_dial_options 0 pre (defaultDialOptions, st) = Inr os1" "opt os1 = Inl err" "e = option_error (length pre) err"
    by (rule apply_dial_options_first_error [OF Inl]) simp
  then have ex: "\<exists>pre opt post os1 err. opts = pre @ opt # post
      \<and> apply_dial_options 0 pre (defaultDialOptions, st) = Inr os1 \<and> opt os1 = Inl err
      \<and> e = option_error (length pre) err" by blast
  show ?thesis
    unfolding Dial_def DialWithContext_def Inl by (simp only: sum.case option.case) (rule ex)
next
  case (Inr os)
  obtain dopts st1 where os: "os = (dopts, st1)" by (cases os)
  let ?d = "dopts\<lparr>do_bs := Some DefaultExponential\<rparr>"
  obtain ac ls where c: "connect_ac ToListener (newAddrConn target ?d False h) = Some (Inr (), (ac, ls))"
    "ac_state ac = Connecting" "ac_reset ac = RT_Top" "ac_addr ac = target" "ac_copts ac = do_copts ?d"
    using connect_fresh [of target ?d False h] by blast
  with Inr os show ?thesis by (simp add: Dial_def DialWithContext_def Background_def)
qed

text \<open>
  C29.  A blocking dial keeps its promise whatever happens meanwhile: it returns a connection
  only in the Ready state, fails only when its context is done, and never stays blocked on the
  notification while the state is Ready.
\<close>

theorem blocking_dial_correct:
  assumes "csm_ok csm h" "dial_wait rounds csm h = Ret (r, csm', h')"
  shows "(r = Dialled \<longrightarrow> csm_state csm' = Ready)
    \<and> (r = DialFailed \<longrightarrow> (\<exists>e0 e1 e2. (e0, e1, e2, True, CtxDone) \<in> set rounds))
    \<and> (r = DialBlocked \<longrightarrow> (\<exists>e0 e1 e2 d. (e0, e1, e2, d, CtxDone) \<in> set rounds) \<or> csm_state csm' \<noteq> Ready)"
  using assms
proof (induction rounds arbitrary: csm h)
  case Nil
  then show ?case by (auto simp: getState_def split: if_splits)
next
  case (Cons rd rs)
  obtain env0 env1 env2 d br where rd: "rd = (env0, env1, env2, d, br)" by (cases rd)
  show ?case
  proof (cases "csm_state csm = Ready")
    case True
    with Cons.prems(2) rd show ?thesis by (auto simp: getState_def)
  next
    case False
    obtain csm1 h1 where e: "run_csm env0 csm h = Ret (csm1, h1)" "csm_ok csm1 h1"
      using csm.run_ops_live [OF Cons.prems(1)] by blast
    show ?thesis
    proof (rule WaitForStateChange_outcome [OF e(2), of "csm_state csm" env1 env2 d br])
      fix w csm2 h2
      assume w: "WaitForStateChange (csm_state csm) env1 env2 d br csm1 h1 = Ret (w, csm2, h2)" "csm_ok csm2 h2"
        "w \<in> {Returned True, Returned False, Blocked}" "w = Returned False \<Longrightarrow> br = CtxDone \<and> d"
        "w = Blocked \<Longrightarrow> br = Notified \<Longrightarrow> csm_state csm2 = csm_state csm"
      have eq: "dial_wait (rd # rs) csm h =
        (if w = Returned True then dial_wait rs csm2 h2
         else Ret (if w = Returned False then DialFailed else DialBlocked, csm2, h2))"
        using False e(1) w(1) rd by (simp add: getState_def)
      show ?thesis
      proof (cases "w = Returned True")
        case True
        with eq Cons.prems(2) Cons.IH [OF w(2)] show ?thesis by auto
      next
        case other: False
        with eq Cons.prems(2) have "csm' = csm2" "r = (if w = Returned False then DialFailed else DialBlocked)" by simp_all
        with w(3-5) other False rd show ?thesis by (cases br) auto
      qed
    qed
  qed
qed

theorem blocking_dial_correct_witness:
  "csm_ok new_csm empty_chans
   \<and> (\<exists>csm' h'. dial_wait [([Change Connecting], [], [], False, Notified), ([], [], [Change Ready], False, Notified)]
        new_csm empty_chans = Ret (Dialled, csm', h') \<and> csm_state csm' = Ready)"
proof -
  have ok: "csm_ok new_csm empty_chans" by simp
  obtain csm' h' where w: "dial_wait [([Change Connecting], [], [], False, Notified), ([], [], [Change Ready], False, Notified)]
        new_csm empty_chans = Ret (Dialled, csm', h')"
    by (simp add: WaitForStateChange_def getNotifyChan_def updateState_def new_csm_def empty_chans_def
        make_chan_def close_chan_def getState_def)
  show ?thesis using ok w blocking_dial_correct [OF ok w] by blast
qed

abbreviation run_listen_read :: "bool \<Rightarrow> listen_read_event list \<Rightarrow> listen_read \<Rightarrow> listen_read go option" where
  "run_listen_read d \<equiv> run_steps (listenForRead d)"

text \<open>Watchers and repeated notices of the current state leave a waiting \<open>listenForRead\<close> as it is.\<close>

lemma quiet_env_step:
  assumes "csm_notifyChan (lr_csMgr l) = Some ch" "csm_state (lr_csMgr l) = s"
    and "e = LR_Env Subscribe \<or> e = LR_Env (Change s)"
  shows "listenForRead d e l = Some (Ret l)"
  using assms by (auto simp: listenForRead_def getNotifyChan_def updateState_def)

lemma quiet_env_run:
  assumes "csm_notifyChan (lr_csMgr l) = Some ch" "csm_state (lr_csMgr l) = s"
    and "\<forall>e \<in> set es. e = LR_Env Subscribe \<or> e = LR_Env (Change s)"
  shows "run_listen_read d es l = Some (Ret l)"
  using assms(3) by (induction es) (simp_all add: quiet_env_step [OF assms(1,2)])

text \<open>
  \<open>listenForRead\<close> can miss that the connection became Ready.  It takes the notification
  channel after it has looked at the state, so a change to Ready in between is not seen: from
  then on, while the connection stays Ready and open, the goroutine has no step to take,
  whatever watchers come and go, and no reader is started for the connection.
\<close>

lemma listenForRead_misses_ready:
  assumes "csm_ok (lr_csMgr l) (lr_chans l)" "lr_pc l = LR_Top" "csm_state (lr_csMgr l) = Ready"
    and "\<forall>e \<in> set es. e = LR_Env Subscribe \<or> e = LR_Env (Change Ready)"
    and "ev \<in> {LR_Subscribe, LR_Wake, LR_Handle, LR_CtxDone}"
  shows "\<exists>l'. run_listen_read False (LR_Subscribe # es) l = Some (Ret l') \<and> lr_readers l' = lr_readers l
    \<and> listenForRead False ev l' = None"
proof -
  obtain ch csm h where g: "getNotifyChan (lr_csMgr l) (lr_chans l) = (ch, csm, h)"
    by (cases "getNotifyChan (lr_csMgr l) (lr_chans l)")
  let ?l = "l\<lparr>lr_csMgr := csm, lr_chans := h, lr_pc := LR_Waiting ch\<rparr>"
  have sub: "listenForRead False LR_Subscribe l = Some (Ret ?l)"
    using assms(2) g by (simp add: listenForRead_def)
  have c: "csm_notifyChan csm = Some ch" "csm_state csm = Ready"
    using csm.get_chan_live [OF assms(1) g] assms(3) by simp_all
  have open_ch: "\<not> chan_closed ch h" by (rule csm.subscribe_open [OF assms(1) g])
  have "run_listen_read False es ?l = Some (Ret ?l)"
    by (rule quiet_env_run [of _ ch Ready]) (use c assms(4) in simp_all)
  moreover have "listenForRead False ev ?l = None"
    using assms(5) open_ch by (auto simp: listenForRead_def)
  ultimately show ?thesis using sub by simp
qed

definition miss_run :: "listen_read_event list" where
  "miss_run = [LR_Subscribe, LR_Env (Change Connecting), LR_Wake, LR_Handle, LR_Env (Change Ready)]"

end
