(* ===== verification/ClientCalls.thy ===== *)
theory ClientCalls
  imports Client
begin

text \<open>
  The calls of a \<open>ClientConn\<close> that are in progress: any number of \<open>Invoke\<close> calls and of the
  goroutines \<open>handleMessageResponse\<close> that answer them.  The steps are the critical sections
  under \<open>cc.mu\<close> and the rendezvous on the unbuffered channel \<open>wait\<close> of a call.  Calls are
  numbered in the order in which they register; \<open>uuid.NewString\<close> gives each a new id.
\<close>

datatype call_outcome = Got "Response option" | GaveUp go_error | TimedOut

text \<open>\<open>IV_Leaving\<close>: \<open>Invoke\<close> has its result and the deferred removal is still to run.\<close>

datatype invoke_pc = IV_Registered | IV_Waiting | IV_Leaving call_outcome | IV_Returned call_outcome

record invocation =
  iv_id :: string
  iv_ctx_done :: bool
  iv_pc :: invoke_pc

text \<open>A goroutine \<open>handleMessageResponse\<close> inside the registered handler function.\<close>

record responder =
  rs_resp :: "Response option"
  rs_call :: nat
  rs_done :: bool

record call_sys =
  cs_calls :: "string \<rightharpoonup> nat"
  cs_invs :: "invocation list"
  cs_responders :: "responder list"

definition no_calls :: call_sys where
  "no_calls = \<lparr>cs_calls = Map.empty, cs_invs = [], cs_responders = []\<rparr>"

datatype call_event =
    CE_Register string \<comment> \<open>\<open>registerMethodCall\<close>\<close>
  | CE_GiveUp nat go_error \<comment> \<open>an early return: closed, no transport, or \<open>Write\<close> failed\<close>
  | CE_Sent nat \<comment> \<open>\<open>Write\<close> succeeded, on to the \<open>select\<close>\<close>
  | CE_Arrive "Response option" \<comment> \<open>\<open>handleMessageResponse\<close> looks the call up\<close>
  | CE_Deliver nat \<comment> \<open>a responder and its call meet on \<open>wait\<close>\<close>
  | CE_CtxDone nat \<comment> \<open>the context of a call is done\<close>
  | CE_Timeout nat \<comment> \<open>\<open>Invoke\<close> takes \<open><-ctx.Done()\<close>\<close>
  | CE_ResponderCtxDone nat \<comment> \<open>a responder takes \<open><-ctx.Done()\<close>\<close>
  | CE_Leave nat \<comment> \<open>the deferred \<open>removeMethodCall\<close>\<close>

definition pc_of :: "call_sys \<Rightarrow> nat \<Rightarrow> invoke_pc option" where
  "pc_of s n = (if n < length (cs_invs s) then Some (iv_pc (cs_invs s ! n)) else None)"

definition set_pc :: "nat \<Rightarrow> invoke_pc \<Rightarrow> call_sys \<Rightarrow> call_sys" where
  "set_pc n pc s = s\<lparr>cs_invs := (cs_invs s)[n := (cs_invs s ! n)\<lparr>iv_pc := pc\<rparr>]\<rparr>"

definition ctx_done_of :: "call_sys \<Rightarrow> nat \<Rightarrow> bool" where
  "ctx_done_of s n \<longleftrightarrow> n < length (cs_invs s) \<and> iv_ctx_done (cs_invs s ! n)"

definition Invoke_register :: "string \<Rightarrow> call_sys \<Rightarrow> call_sys option" where
  "Invoke_register callID s =
     (if callID \<in> iv_id ` set (cs_invs s) then None
      else Some (s\<lparr>cs_calls := ClientConn_registerMethodCall callID (length (cs_invs s)) (cs_calls s),
        cs_invs := cs_invs s @ [\<lparr>iv_id = callID, iv_ctx_done = False, iv_pc = IV_Registered\<rparr>]\<rparr>))"

definition Invoke_leave :: "nat \<Rightarrow> call_sys \<Rightarrow> call_sys option" where
  "Invoke_leave n s =
     (case pc_of s n of
        Some (IV_Leaving res) \<Rightarrow>
          Some ((set_pc n (IV_Returned res) s)
            \<lparr>cs_calls := ClientConn_removeMethodCall (iv_id (cs_invs s ! n)) (cs_calls s)\<rparr>)
      | _ \<Rightarrow> None)"

definition response_arrives :: "Response option \<Rightarrow> call_sys \<Rightarrow> call_sys" where
  "response_arrives r s =
     (case cs_calls s (Response_GetCallId r) of
        None \<Rightarrow> s
      | Some n \<Rightarrow> s\<lparr>cs_responders := cs_responders s @ [\<lparr>rs_resp = r, rs_call = n, rs_done = False\<rparr>]\<rparr>)"

definition responder_done :: "nat \<Rightarrow> call_sys \<Rightarrow> call_sys" where
  "responder_done k s = s\<lparr>cs_responders := (cs_responders s)[k := (cs_responders s ! k)\<lparr>rs_done := True\<rparr>]\<rparr>"

definition responder_delivers :: "nat \<Rightarrow> call_sys \<Rightarrow> call_sys option" where
  "responder_delivers k s =
     (if k < length (cs_responders s) \<and> \<not> rs_done (cs_responders s ! k)
         \<and> pc_of s (rs_call (cs_responders s ! k)) = Some IV_Waiting
      then Some (responder_done k (set_pc (rs_call (cs_responders s ! k))
             (IV_Leaving (Got (rs_resp (cs_responders s ! k)))) s))
      else None)"

definition responder_ctx_done :: "nat \<Rightarrow> call_sys \<Rightarrow> call_sys option" where
  "responder_ctx_done k s =
     (if k < length (cs_responders s) \<and> \<not> rs_done (cs_responders s ! k)
         \<and> ctx_done_of s (rs_call (cs_responders s ! k))
      then Some (responder_done k s) else None)"

primrec call_step :: "call_event \<Rightarrow> call_sys \<Rightarrow> call_sys option" where
  "call_step (CE_Register i) s = Invoke_register i s"
| "call_step (CE_GiveUp n e) s =
     (if pc_of s n = Some IV_Registered then Some (set_pc n (IV_Leaving (GaveUp e)) s) else None)"
| "call_step (CE_Sent n) s =
     (if pc_of s n = Some IV_Registered then Some (set_pc n IV_Waiting s) else None)"
| "call_step (CE_Arrive r) s = Some (response_arrives r s)"
| "call_step (CE_Deliver k) s = responder_delivers k s"
| "call_step (CE_CtxDone n) s =
     (if n < length (cs_invs s)
      then Some (s\<lparr>cs_invs := (cs_invs s)[n := (cs_invs s ! n)\<lparr>iv_ctx_done := True\<rparr>]\<rparr>) else None)"
| "call_step (CE_Timeout n) s =
     (if pc_of s n = Some IV_Waiting \<and> ctx_done_of s n then Some (set_pc n (IV_Leaving TimedOut) s) else None)"
| "call_step (CE_ResponderCtxDone k) s = responder_ctx_done k s"
| "call_step (CE_Leave n) s = Invoke_leave n s"

inductive calls_reachable :: "call_sys \<Rightarrow> bool" where
  calls_init: "calls_reachable no_calls"
| calls_next: "calls_reachable s \<Longrightarrow> call_step e s = Some s' \<Longrightarrow> calls_reachable s'"

fun run_calls :: "call_event list \<Rightarrow> call_sys \<Rightarrow> call_sys option" where
  "run_calls [] s = Some s"
| "run_calls (e # es) s = (case call_step e s of None \<Rightarrow> None | Some s1 \<Rightarrow> run_calls es s1)"

lemma run_calls_reachable: "calls_reachable s \<Longrightarrow> run_calls es s = Some s' \<Longrightarrow> calls_reachable s'"
  by (induction es arbitrary: s) (auto split: option.splits intro: calls_next)

subsection \<open>The invariant\<close>

primrec returned :: "invoke_pc \<Rightarrow> bool" where
  "returned IV_Registered = False"
| "returned IV_Waiting = False"
| "returned (IV_Leaving res) = False"
| "returned (IV_Returned res) = True"

text \<open>The call id of the response a call has received, when it has received one.\<close>

fun got_id :: "invoke_pc \<Rightarrow> string option" where
  "got_id (IV_Leaving (Got r)) = Some (Response_GetCallId r)"
| "got_id (IV_Returned (Got r)) = Some (Response_GetCallId r)"
| "got_id _ = None"

definition calls_inv :: "call_sys \<Rightarrow> bool" where
  "calls_inv s \<longleftrightarrow>
     distinct (map iv_id (cs_invs s))
     \<and> (\<forall>i n. cs_calls s i = Some n \<longleftrightarrow>
          n < length (cs_invs s) \<and> iv_id (cs_invs s ! n) = i \<and> \<not> returned (iv_pc (cs_invs s ! n)))
     \<and> (\<forall>rs \<in> set (cs_responders s). rs_call rs < length (cs_invs s)
          \<and> Response_GetCallId (rs_resp rs) = iv_id (cs_invs s ! rs_call rs))
     \<and> (\<forall>iv \<in> set (cs_invs s). got_id (iv_pc iv) \<in> {None, Some (iv_id iv)})"

lemma pc_of_set_pc:
  "n < length (cs_invs s) \<Longrightarrow> pc_of (set_pc n pc s) m = (if m = n then Some pc else pc_of s m)"
  by (simp add: pc_of_def set_pc_def)

lemma pc_of_calls [simp]: "pc_of (s\<lparr>cs_calls := c\<rparr>) m = pc_of s m"
  by (simp add: pc_of_def)

lemma map_iv_id_update:
  assumes "iv_id iv = iv_id (ivs ! n)"
  shows "map iv_id (ivs[n := iv]) = map iv_id ivs"
  using assms by (metis list_update_id map_update)

text \<open>Changing where a call stands, as long as it has not returned and does not return.\<close>

lemma calls_inv_set_pc:
  assumes "calls_inv s" "n < length (cs_invs s)" "\<not> returned (iv_pc (cs_invs s ! n))" "\<not> returned pc"
    and "got_id pc \<in> {None, Some (iv_id (cs_invs s ! n))}"
  shows "calls_inv (set_pc n pc s)"
proof -
  let ?iv = "(cs_invs s ! n)\<lparr>iv_pc := pc\<rparr>"
  have ids: "map iv_id ((cs_invs s)[n := ?iv]) = map iv_id (cs_invs s)"
    by (rule map_iv_id_update) simp
  have nth: "iv_id ((cs_invs s)[n := ?iv] ! m) = iv_id (cs_invs s ! m)" for m
    using assms(2) by (cases "m = n") simp_all
  have ret: "returned (iv_pc ((cs_invs s)[n := ?iv] ! m)) = returned (iv_pc (cs_invs s ! m))" for m
    using assms(2-4) by (cases "m = n") simp_all
  have got: "\<forall>iv \<in> set ((cs_invs s)[n := ?iv]). got_id (iv_pc iv) \<in> {None, Some (iv_id iv)}"
    using assms(1,2,5) set_update_subset_insert [of "cs_invs s" n ?iv] unfolding calls_inv_def by auto
  show ?thesis
    using assms(1) ids nth ret got by (simp add: calls_inv_def set_pc_def)
qed

lemma calls_inv_responder_done:
  assumes "calls_inv s"
  shows "calls_inv (responder_done k s)"
proof (cases "k < length (cs_responders s)")
  case True
  then have "\<forall>rs \<in> set (cs_responders (responder_done k s)). \<exists>rs0 \<in> set (cs_responders s).
      rs_call rs = rs_call rs0 \<and> rs_resp rs = rs_resp rs0"
    using set_update_subset_insert [of "cs_responders s" k "(cs_responders s ! k)\<lparr>rs_done := True\<rparr>"]
    by (fastforce simp: responder_done_def)
  with assms show ?thesis by (fastforce simp: calls_inv_def responder_done_def)
qed (use assms in \<open>simp add: responder_done_def calls_inv_def list_update_beyond\<close>)

lemma Invoke_register_inv:
  assumes "calls_inv s" "Invoke_register i s = Some s'"
  shows "calls_inv s'"
proof -
  let ?iv = "\<lparr>iv_id = i, iv_ctx_done = False, iv_pc = IV_Registered\<rparr>"
  let ?n = "length (cs_invs s)"
  from assms(2) have new: "i \<notin> iv_id ` set (cs_invs s)"
    and s': "s' = s\<lparr>cs_calls := (cs_calls s)(i \<mapsto> ?n), cs_invs := cs_invs s @ [?iv]\<rparr>"
    by (auto simp: Invoke_register_def ClientConn_registerMethodCall_def split: if_splits)
  have tab: "((cs_calls s)(i \<mapsto> ?n)) j = Some n \<longleftrightarrow> n < Suc ?n \<and> iv_id ((cs_invs s @ [?iv]) ! n) = j
      \<and> \<not> returned (iv_pc ((cs_invs s @ [?iv]) ! n))" for j n
  proof (cases "n < ?n")
    case True
    then have "iv_id (cs_invs s ! n) \<noteq> i" using new by auto
    with True assms(1) show ?thesis by (auto simp: calls_inv_def nth_append)
  next
    case False
    have "cs_calls s j \<noteq> Some n" using False assms(1) by (auto simp: calls_inv_def)
    with False show ?thesis by (auto simp: nth_append less_Suc_eq)
  qed
  have resp: "\<forall>rs \<in> set (cs_responders s). rs_call rs < Suc ?n
      \<and> Response_GetCallId (rs_resp rs) = iv_id ((cs_invs s @ [?iv]) ! rs_call rs)"
    using assms(1) by (auto simp: calls_inv_def nth_append)
  show ?thesis
    using assms(1) new tab resp unfolding s' by (auto simp: calls_inv_def)
qed

lemma Invoke_leave_inv:
  assumes "calls_inv s" "Invoke_leave n s = Some s'"
  shows "calls_inv s'"
proof -
  let ?id = "iv_id (cs_invs s ! n)"
  from assms(2) obtain res where n: "n < length (cs_invs s)" and pc: "iv_pc (cs_invs s ! n) = IV_Leaving res"
    and s': "s' = (set_pc n (IV_Returned res) s)\<lparr>cs_calls := (cs_calls s)(?id := None)\<rparr>"
    by (auto simp: Invoke_leave_def pc_of_def ClientConn_removeMethodCall_def split: if_splits invoke_pc.splits)
  let ?invs = "(cs_invs s)[n := (cs_invs s ! n)\<lparr>iv_pc := IV_Returned res\<rparr>]"
  have ids: "map iv_id ?invs = map iv_id (cs_invs s)"
    by (rule map_iv_id_update) simp
  have nth: "iv_id (?invs ! m) = iv_id (cs_invs s ! m)" for m
    using n by (cases "m = n") simp_all
  have uniq: "m = n" if "m < length (cs_invs s)" "iv_id (cs_invs s ! m) = ?id" for m
    using assms(1) that n nth_eq_iff_index_eq [of "map iv_id (cs_invs s)" m n] by (auto simp: calls_inv_def)
  have tab: "((cs_calls s)(?id := None)) j = Some m \<longleftrightarrow> m < length ?invs \<and> iv_id (?invs ! m) = j
      \<and> \<not> returned (iv_pc (?invs ! m))" for j m
  proof (cases "m = n")
    case True
    then show ?thesis using assms(1) n by (auto simp: calls_inv_def)
  next
    case False
    then show ?thesis using assms(1) uniq [of m] by (auto simp: calls_inv_def)
  qed
  have got: "\<forall>iv \<in> set ?invs. got_id (iv_pc iv) \<in> {None, Some (iv_id iv)}"
  proof -
    have "got_id (IV_Leaving res) \<in> {None, Some ?id}"
      using assms(1) n pc [symmetric] by (auto simp: calls_inv_def)
    then have "got_id (IV_Returned res) \<in> {None, Some ?id}" by (cases res) auto
    then show ?thesis
      using assms(1) set_update_subset_insert [of "cs_invs s" n "(cs_invs s ! n)\<lparr>iv_pc := IV_Returned res\<rparr>"]
      by (auto simp: calls_inv_def)
  qed
  show ?thesis
    using assms(1) ids nth tab got unfolding s' by (simp add: calls_inv_def set_pc_def)
qed

lemma calls_inv_ctx_done:
  assumes "calls_inv s" "n < length (cs_invs s)"
  shows "calls_inv (s\<lparr>cs_invs := (cs_invs s)[n := (cs_invs s ! n)\<lparr>iv_ctx_done := True\<rparr>]\<rparr>)"
proof -
  let ?invs = "(cs_invs s)[n := (cs_invs s ! n)\<lparr>iv_ctx_done := True\<rparr>]"
  have ids: "map iv_id ?invs = map iv_id (cs_invs s)"
    by (rule map_iv_id_update) simp
  have nth: "iv_id (?invs ! m) = iv_id (cs_invs s ! m)" "iv_pc (?invs ! m) = iv_pc (cs_invs s ! m)" for m
    using assms(2) by (cases "m = n"; simp)+
  have old: "\<forall>iv \<in> set (cs_invs s). got_id (iv_pc iv) \<in> {None, Some (iv_id iv)}"
    using assms(1) by (simp add: calls_inv_def)
  have "got_id (iv_pc (cs_invs s ! n)) \<in> {None, Some (iv_id (cs_invs s ! n))}"
    using old nth_mem [OF assms(2)] by blast
  then have "\<forall>iv \<in> insert ((cs_invs s ! n)\<lparr>iv_ctx_done := True\<rparr>) (set (cs_invs s)).
      got_id (iv_pc iv) \<in> {None, Some (iv_id iv)}" using old by simp
  then have "\<forall>iv \<in> set ?invs. got_id (iv_pc iv) \<in> {None, Some (iv_id iv)}"
    using set_update_subset_insert [of "cs_invs s" n "(cs_invs s ! n)\<lparr>iv_ctx_done := True\<rparr>"] by blast
  with assms(1) ids nth show ?thesis by (simp add: calls_inv_def)
qed

lemma response_arrives_inv: "calls_inv s \<Longrightarrow> calls_inv (response_arrives r s)"
  by (auto simp: calls_inv_def response_arrives_def split: option.split)

lemma pc_of_Some: "pc_of s n = Some pc \<longleftrightarrow> n < length (cs_invs s) \<and> iv_pc (cs_invs s ! n) = pc"
  by (auto simp: pc_of_def)

lemma responder_delivers_inv:
  assumes "calls_inv s" "responder_delivers k s = Some s'"
  shows "calls_inv s'"
proof -
  let ?r = "cs_responders s ! k"
  from assms(2) have k: "k < length (cs_responders s)" and pc: "pc_of s (rs_call ?r) = Some IV_Waiting"
    and s': "s' = responder_done k (set_pc (rs_call ?r) (IV_Leaving (Got (rs_resp ?r))) s)"
    by (auto simp: responder_delivers_def split: if_splits)
  from assms(1) k have "Response_GetCallId (rs_resp ?r) = iv_id (cs_invs s ! rs_call ?r)"
    by (auto simp: calls_inv_def)
  with assms(1) pc show ?thesis
    unfolding s' by (intro calls_inv_responder_done calls_inv_set_pc) (auto simp: pc_of_Some)
qed

lemma call_step_inv:
  assumes "calls_inv s" "call_step e s = Some s'"
  shows "calls_inv s'"
proof (cases e)
  case (CE_Register i)
  with assms show ?thesis by (simp add: Invoke_register_inv)
next
  case (CE_GiveUp n err)
  with assms show ?thesis by (auto simp: pc_of_Some split: if_splits intro!: calls_inv_set_pc)
next
  case (CE_Sent n)
  with assms show ?thesis by (auto simp: pc_of_Some split: if_splits intro!: calls_inv_set_pc)
next
  case (CE_Arrive r)
  with assms show ?thesis by (auto simp: response_arrives_inv)
next
  case (CE_Deliver k)
  with assms show ?thesis by (simp add: responder_delivers_inv)
next
  case (CE_CtxDone n)
  with assms show ?thesis by (auto simp: calls_inv_ctx_done split: if_splits)
next
  case (CE_Timeout n)
  with assms show ?thesis by (auto simp: pc_of_Some split: if_splits intro!: calls_inv_set_pc)
next
  case (CE_ResponderCtxDone k)
  with assms show ?thesis by (auto simp: responder_ctx_done_def calls_inv_responder_done split: if_splits)
next
  case (CE_Leave n)
  with assms show ?thesis by (simp add: Invoke_leave_inv)
qed

lemma calls_reachable_inv: "calls_reachable s \<Longrightarrow> calls_inv s"
proof (induction rule: calls_reachable.induct)
  case calls_init
  then show ?case by (simp add: calls_inv_def no_calls_def)
next
  case (calls_next s e s')
  then show ?case by (blast intro: call_step_inv)
qed

subsection \<open>Properties\<close>

text \<open>
  C5.  Every call gets its own response and leaves no trace.  In every reachable state of any
  number of concurrent calls: the table of pending calls holds exactly the calls that have
  registered and not returned, each under its own id; a call that has returned is not pending;
  and a call that has received a response has received one that carries its own id.
\<close>

theorem client_calls_correct:
  assumes "calls_reachable s" "n < length (cs_invs s)"
  shows "(cs_calls s (iv_id (cs_invs s ! n)) = Some n \<longleftrightarrow> \<not> returned (iv_pc (cs_invs s ! n)))
    \<and> (returned (iv_pc (cs_invs s ! n)) \<longrightarrow> cs_calls s (iv_id (cs_invs s ! n)) = None)
    \<and> (iv_pc (cs_invs s ! n) = IV_Returned (Got r) \<longrightarrow> Response_GetCallId r = iv_id (cs_invs s ! n))"
proof -
  have inv: "calls_inv s" by (rule calls_reachable_inv [OF assms(1)])
  have "cs_calls s (iv_id (cs_invs s ! n)) = None" if ret: "returned (iv_pc (cs_invs s ! n))"
  proof (cases "cs_calls s (iv_id (cs_invs s ! n))")
    case (Some m)
    then have "m < length (cs_invs s)" "iv_id (cs_invs s ! m) = iv_id (cs_invs s ! n)" "\<not> returned (iv_pc (cs_invs s ! m))"
      using inv by (auto simp: calls_inv_def)
    then show ?thesis
      using inv assms(2) ret nth_eq_iff_index_eq [of "map iv_id (cs_invs s)" m n] by (auto simp: calls_inv_def)
  qed simp
  moreover have got: "got_id (iv_pc (cs_invs s ! n)) \<in> {None, Some (iv_id (cs_invs s ! n))}"
    using inv nth_mem [OF assms(2)] by (simp add: calls_inv_def)
  moreover from got have "iv_pc (cs_invs s ! n) = IV_Returned (Got r) \<longrightarrow> Response_GetCallId r = iv_id (cs_invs s ! n)"
    by (metis got_id.simps(2) insertE option.distinct(1) option.inject singletonD)
  moreover have "cs_calls s (iv_id (cs_invs s ! n)) = Some n \<longleftrightarrow> \<not> returned (iv_pc (cs_invs s ! n))"
    using inv assms(2) by (simp add: calls_inv_def)
  ultimately show ?thesis by blast
qed

text \<open>Two calls; the response of the second comes first, and the first call times out.\<close>

definition two_calls_run :: "call_event list" where
  "two_calls_run = [CE_Register ''a'', CE_Register ''b'', CE_Sent 1, CE_Sent 0,
     CE_Arrive (Some \<lparr>resp_CallId = ''b'', resp_Payload = None, resp_Error = []\<rparr>), CE_Deliver 0, CE_Leave 1,
     CE_CtxDone 0, CE_Timeout 0, CE_Leave 0]"

lemmas call_run_defs = no_calls_def Invoke_register_def Invoke_leave_def response_arrives_def responder_delivers_def
  responder_ctx_done_def responder_done_def set_pc_def pc_of_def ctx_done_of_def ClientConn_registerMethodCall_def
  ClientConn_removeMethodCall_def Response_GetCallId_def

theorem client_calls_correct_witness:
  "\<exists>s. calls_reachable s \<and> iv_pc (cs_invs s ! 1)
        = IV_Returned (Got (Some \<lparr>resp_CallId = ''b'', resp_Payload = None, resp_Error = []\<rparr>))
     \<and> cs_calls s ''b'' = None \<and> iv_pc (cs_invs s ! 0) = IV_Returned TimedOut"
proof -
  obtain s where r: "run_calls two_calls_run no_calls = Some s" "1 < length (cs_invs s)"
    "iv_pc (cs_invs s ! 1) = IV_Returned (Got (Some \<lparr>resp_CallId = ''b'', resp_Payload = None, resp_Error = []\<rparr>))"
    "iv_id (cs_invs s ! 1) = ''b''" "iv_pc (cs_invs s ! 0) = IV_Returned TimedOut"
    by (simp add: two_calls_run_def call_run_defs)
  have reach: "calls_reachable s" by (rule run_calls_reachable [OF calls_init r(1)])
  from client_calls_correct [OF reach r(2)] r reach show ?thesis by auto
qed

text \<open>
  A response that arrives for a call that waits ends it: whatever else is in progress, the
  responder finds the call, hands the response over, and the call returns with this response and
  is no longer pending.
\<close>

lemma response_ends_call:
  assumes "calls_inv s" "pc_of s n = Some IV_Waiting" "Response_GetCallId r = iv_id (cs_invs s ! n)"
  shows "\<exists>s'. run_calls [CE_Arrive r, CE_Deliver (length (cs_responders s)), CE_Leave n] s = Some s'
    \<and> pc_of s' n = Some (IV_Returned (Got r)) \<and> cs_calls s' = (cs_calls s)(iv_id (cs_invs s ! n) := None)
    \<and> (\<forall>m. m \<noteq> n \<longrightarrow> pc_of s' m = pc_of s m)"
proof -
  have n: "n < length (cs_invs s)" "iv_pc (cs_invs s ! n) = IV_Waiting" using assms(2) by (auto simp: pc_of_Some)
  have tab: "cs_calls s (Response_GetCallId r) = Some n"
    using assms(1) n assms(3) by (simp add: calls_inv_def)
  define s1 where "s1 = s\<lparr>cs_responders := cs_responders s @ [\<lparr>rs_resp = r, rs_call = n, rs_done = False\<rparr>]\<rparr>"
  have 1: "response_arrives r s = s1" using tab by (simp add: response_arrives_def s1_def)
  define s2 where "s2 = responder_done (length (cs_responders s)) (set_pc n (IV_Leaving (Got r)) s1)"
  have 2: "responder_delivers (length (cs_responders s)) s1 = Some s2"
    using n by (simp add: responder_delivers_def s1_def s2_def pc_of_def)
  have pc2: "pc_of s2 n = Some (IV_Leaving (Got r))" "iv_id (cs_invs s2 ! n) = iv_id (cs_invs s ! n)"
    "cs_calls s2 = cs_calls s"
    using n by (simp_all add: s2_def s1_def pc_of_def responder_done_def set_pc_def)
  have oth: "pc_of s2 m = pc_of s m" if "m \<noteq> n" for m
    using that by (simp add: s2_def s1_def pc_of_def responder_done_def set_pc_def)
  have n2: "n < length (cs_invs s2)" using pc2(1) by (simp add: pc_of_Some)
  let ?s3 = "(set_pc n (IV_Returned (Got r)) s2)\<lparr>cs_calls := (cs_calls s)(iv_id (cs_invs s ! n) := None)\<rparr>"
  have "run_calls [CE_Arrive r, CE_Deliver (length (cs_responders s)), CE_Leave n] s = Some ?s3"
    using 1 2 pc2 by (simp add: Invoke_leave_def ClientConn_removeMethodCall_def)
  then show ?thesis using n2 oth by (intro exI [of _ ?s3]) (simp add: pc_of_set_pc)
qed

lemma stuck_responder_step:
  assumes "call_step e s = Some s'" "k < length (cs_responders s)" "\<not> rs_done (cs_responders s ! k)"
    and "returned (iv_pc (cs_invs s ! n))" "n < length (cs_invs s)" "rs_call (cs_responders s ! k) = n"
    and "\<not> iv_ctx_done (cs_invs s ! n)" "e \<noteq> CE_CtxDone n"
  shows "k < length (cs_responders s') \<and> \<not> rs_done (cs_responders s' ! k)
    \<and> returned (iv_pc (cs_invs s' ! n)) \<and> n < length (cs_invs s')
    \<and> rs_call (cs_responders s' ! k) = n \<and> \<not> iv_ctx_done (cs_invs s' ! n)"
  using assms
  by (cases e)
    (auto simp: Invoke_register_def Invoke_leave_def response_arrives_def responder_delivers_def
      responder_ctx_done_def responder_done_def set_pc_def pc_of_Some ctx_done_of_def nth_append nth_list_update
      split: if_splits option.splits invoke_pc.splits)

text \<open>
  A second response for the same call can leave its goroutine behind: a responder whose
  call has already returned stays blocked, whatever happens, until the context of the call is
  done.  \<open>ClientConn.Close\<close> waits for these goroutines.
\<close>

lemma late_responder_blocks:
  assumes "k < length (cs_responders s)" "\<not> rs_done (cs_responders s ! k)"
    and "n < length (cs_invs s)" "rs_call (cs_responders s ! k) = n" "returned (iv_pc (cs_invs s ! n))"
    and "\<not> iv_ctx_done (cs_invs s ! n)" "CE_CtxDone n \<notin> set es" "run_calls es s = Some s'"
  shows "\<not> rs_done (cs_responders s' ! k)"
  using assms
proof (induction es arbitrary: s)
  case Nil
  then show ?case by simp
next
  case (Cons e es)
  then obtain s1 where s1: "call_step e s = Some s1" "run_calls es s1 = Some s'" by (auto split: option.splits)
  with stuck_responder_step [OF s1(1), of k n] Cons show ?case by auto
qed

text \<open>The peer answers twice; both responders find the call before it returns.\<close>

end
