(* ===== verification/ConnManager.thy ===== *)
theory ConnManager
  imports Notify Credentials
begin

text \<open>
  The \<open>connectionsManager\<close> of \<open>server.go\<close>: the open connections of a server by public key,
  and the channel that tells watchers about changes.  Its methods hold \<open>cm.mu\<close> from start to
  end (or require it), so each is one step.  A transport is a number.  Go leaves the order in
  which a map is ranged over open; here it is the order of the association list, and no property
  depends on it.
\<close>

definition ErrNotConnected :: go_error where
  "ErrNotConnected = New ''client not connected''"

record connectionsManager =
  cm_conns :: "(static_key, nat) gomap"
  cm_notifyChan :: "nat option"

definition newConnectionsManager :: connectionsManager where
  "newConnectionsManager = \<lparr>cm_conns = [], cm_notifyChan = None\<rparr>"

definition getTransport :: "connectionsManager \<Rightarrow> static_key \<Rightarrow> nat res" where
  "getTransport cm key =
     (case map_of (cm_conns cm) key of
        None \<Rightarrow> Inl ErrNotConnected
      | Some tr \<Rightarrow> Inr tr)"

text \<open>Closing the channel of the watchers, the tail of both updates.\<close>

definition notify_watchers :: "connectionsManager \<Rightarrow> chan_store \<Rightarrow> (connectionsManager \<times> chan_store) go" where
  "notify_watchers cm h =
     (case cm_notifyChan cm of
        None \<Rightarrow> Ret (cm, h)
      | Some c \<Rightarrow> go_bind (close_chan c h) (\<lambda>h1. Ret (cm\<lparr>cm_notifyChan := None\<rparr>, h1)))"

definition registerConnection ::
  "static_key \<Rightarrow> nat \<Rightarrow> connectionsManager \<Rightarrow> chan_store \<Rightarrow> (connectionsManager \<times> chan_store) go"
where
  "registerConnection key val cm h =
     notify_watchers (cm\<lparr>cm_conns := AList.update key val (cm_conns cm)\<rparr>) h"

definition removeConnection ::
  "static_key \<Rightarrow> connectionsManager \<Rightarrow> chan_store \<Rightarrow> (connectionsManager \<times> chan_store) go"
where
  "removeConnection key cm h =
     notify_watchers (cm\<lparr>cm_conns := AList.delete key (cm_conns cm)\<rparr>) h"

definition getConnectionPublicKeys :: "connectionsManager \<Rightarrow> static_key list" where
  "getConnectionPublicKeys cm = map fst (cm_conns cm)"

definition cm_getNotifyChan :: "connectionsManager \<Rightarrow> chan_store \<Rightarrow> nat \<times> connectionsManager \<times> chan_store" where
  "cm_getNotifyChan cm h =
     (case cm_notifyChan cm of
        None \<Rightarrow> (case make_chan h of (c, h1) \<Rightarrow> (c, cm\<lparr>cm_notifyChan := Some c\<rparr>, h1))
      | Some c \<Rightarrow> (c, cm, h))"

datatype conn_change = Registered static_key nat | Removed static_key

primrec change_conns ::
  "conn_change \<Rightarrow> connectionsManager \<Rightarrow> chan_store \<Rightarrow> (connectionsManager \<times> chan_store) go"
where
  "change_conns (Registered k v) cm h = registerConnection k v cm h"
| "change_conns (Removed k) cm h = removeConnection k cm h"

lemmas cm_defs [go_simps] = getTransport_def registerConnection_def removeConnection_def
  notify_watchers_def getConnectionPublicKeys_def

text \<open>The connections manager is a notifier like the connectivity state manager.\<close>

interpretation cm: notifier cm_notifyChan cm_getNotifyChan change_conns cm_conns
proof unfold_locales
  fix e cm h
  show "change_conns e cm h = Ret (cm, h) \<or>
    (\<exists>s'. cm_notifyChan s' = None \<and>
       change_conns e cm h = (case cm_notifyChan cm of None \<Rightarrow> Ret (s', h)
         | Some c \<Rightarrow> go_bind (close_chan c h) (\<lambda>h'. Ret (s', h'))))"
  proof (cases e)
    case (Registered k v)
    then show ?thesis
      by (intro disjI2 exI [of _ "cm\<lparr>cm_conns := AList.update k v (cm_conns cm), cm_notifyChan := None\<rparr>"])
        (auto simp: cm_defs split: option.split)
  next
    case (Removed k)
    then show ?thesis
      by (intro disjI2 exI [of _ "cm\<lparr>cm_conns := AList.delete k (cm_conns cm), cm_notifyChan := None\<rparr>"])
        (auto simp: cm_defs split: option.split)
  qed
qed (auto simp: cm_getNotifyChan_def split: option.splits prod.splits)

abbreviation cm_ok :: "connectionsManager \<Rightarrow> chan_store \<Rightarrow> bool" where
  "cm_ok \<equiv> cm.live"

lemma cm_ok_new [simp, wf_intros]: "wf_chans h \<Longrightarrow> cm_ok newConnectionsManager h"
  by (simp add: cm.live_def newConnectionsManager_def)

text \<open>The two updates as seen from outside: what the map becomes; they never panic.\<close>

lemma notify_watchers_ok:
  assumes "cm_ok cm h"
  obtains h' where "notify_watchers (cm\<lparr>cm_conns := m\<rparr>) h = Ret (\<lparr>cm_conns = m, cm_notifyChan = None\<rparr>, h')"
    "cm_ok \<lparr>cm_conns = m, cm_notifyChan = None\<rparr> h'"
proof (cases "cm_notifyChan cm")
  case None
  with assms show ?thesis by (intro that [of h]) (auto simp: notify_watchers_def cm.live_def)
next
  case (Some c)
  define h' where "h' = h\<lparr>closed_chans := insert c (closed_chans h)\<rparr>"
  from assms Some have "close_chan c h = Ret h'" "wf_chans h'"
    by (auto simp: cm.live_def close_chan_def h'_def wf_chans_def)
  with Some show ?thesis by (intro that [of h']) (auto simp: notify_watchers_def cm.live_def)
qed

lemma registerConnection_ok:
  assumes "cm_ok cm h"
  obtains cm' h' where "registerConnection k v cm h = Ret (cm', h')" "cm_ok cm' h'"
    "cm_conns cm' = AList.update k v (cm_conns cm)"
  by (rule notify_watchers_ok [OF assms, of "AList.update k v (cm_conns cm)"])
    (auto simp: registerConnection_def intro: that)

lemma removeConnection_ok:
  assumes "cm_ok cm h"
  obtains cm' h' where "removeConnection k cm h = Ret (cm', h')" "cm_ok cm' h'"
    "cm_conns cm' = AList.delete k (cm_conns cm)"
  by (rule notify_watchers_ok [OF assms, of "AList.delete k (cm_conns cm)"])
    (auto simp: removeConnection_def intro: that)

subsection \<open>Properties\<close>

text \<open>
  C27.  The connections manager implements a map with notification.  The keys it lists are the
  keys it has transports for; registering and removing act on one key; and a watcher that takes
  the notification channel first and then looks at the connections misses no change: if the
  connections differ later, whatever happened in between, its channel has been closed.
\<close>

theorem connections_refine_map:
  assumes "cm_ok cm h" "cm_getNotifyChan cm h = (ch, cm1, h1)"
  shows "(getTransport cm k = Inr tr \<longleftrightarrow> map_of (cm_conns cm) k = Some tr)
    \<and> (k \<in> set (getConnectionPublicKeys cm) \<longleftrightarrow> \<not> is_err (getTransport cm k))
    \<and> (\<exists>cm' h'. registerConnection k v cm h = Ret (cm', h') \<and> map_of (cm_conns cm') = (map_of (cm_conns cm))(k \<mapsto> v))
    \<and> (\<exists>cm' h'. removeConnection k cm h = Ret (cm', h') \<and> map_of (cm_conns cm') = (map_of (cm_conns cm))(k := None))
    \<and> \<not> chan_closed ch h1
    \<and> (\<exists>cm' h'. run_ops cm_getNotifyChan change_conns xs cm1 h1 = Ret (cm', h')
         \<and> (cm_conns cm' \<noteq> cm_conns cm \<longrightarrow> chan_closed ch h'))"
proof (intro conjI)
  show "getTransport cm k = Inr tr \<longleftrightarrow> map_of (cm_conns cm) k = Some tr"
    by (auto simp: getTransport_def split: option.split)
  show "k \<in> set (getConnectionPublicKeys cm) \<longleftrightarrow> \<not> is_err (getTransport cm k)"
    using map_of_eq_None_iff [of "cm_conns cm" k]
    by (auto simp: getTransport_def getConnectionPublicKeys_def split: option.split)
  show "\<exists>cm' h'. registerConnection k v cm h = Ret (cm', h') \<and> map_of (cm_conns cm') = (map_of (cm_conns cm))(k \<mapsto> v)"
    by (rule registerConnection_ok [OF assms(1), of k v]) auto
  show "\<exists>cm' h'. removeConnection k cm h = Ret (cm', h') \<and> map_of (cm_conns cm') = (map_of (cm_conns cm))(k := None)"
    by (rule removeConnection_ok [OF assms(1), of k]) auto
  show "\<not> chan_closed ch h1" by (rule cm.subscribe_open [OF assms])
  have "cm_ok cm1 h1" using cm.get_chan_live [OF assms] by simp
  then obtain cm' h' where r: "run_ops cm_getNotifyChan change_conns xs cm1 h1 = Ret (cm', h')"
    using cm.run_ops_live by blast
  with cm.no_lost_wakeup [OF assms r]
  show "\<exists>cm' h'. run_ops cm_getNotifyChan change_conns xs cm1 h1 = Ret (cm', h')
      \<and> (cm_conns cm' \<noteq> cm_conns cm \<longrightarrow> chan_closed ch h')" by blast
qed

theorem connections_refine_map_witness:
  "cm_ok newConnectionsManager empty_chans
   \<and> (\<exists>ch cm1 h1 cm' h'. cm_getNotifyChan newConnectionsManager empty_chans = (ch, cm1, h1)
        \<and> run_ops cm_getNotifyChan change_conns [Change (Registered (key_of 1) 7)] cm1 h1 = Ret (cm', h')
        \<and> getConnectionPublicKeys cm' = [key_of 1] \<and> chan_closed ch h')"
proof -
  have ok: "cm_ok newConnectionsManager empty_chans" by simp
  obtain ch cm1 h1 where g: "cm_getNotifyChan newConnectionsManager empty_chans = (ch, cm1, h1)"
    by (cases "cm_getNotifyChan newConnectionsManager empty_chans")
  obtain cm' h' where r: "run_ops cm_getNotifyChan change_conns [Change (Registered (key_of 1) 7)] cm1 h1 = Ret (cm', h')"
    "cm_conns cm' = [(key_of 1, 7)]"
    using g by (auto simp: cm_getNotifyChan_def newConnectionsManager_def make_chan_def empty_chans_def
        cm_defs close_chan_def)
  with connections_refine_map [OF ok g, of _ _ _ "[Change (Registered (key_of 1) 7)]"] ok g show ?thesis
    by (auto simp: getConnectionPublicKeys_def newConnectionsManager_def)
qed

end
