(* ===== verification/Server.thy ===== *)
theory Server
  imports ConnManager Event Options Service Wire Methods
begin

text \<open>
  The \<open>Server\<close> of \<open>server.go\<close>: its connections, from the HTTP handler through the transports
  to \<open>Stop\<close>, the keys it accepts, and the serving of requests.  (The calls a server makes itself
  are the theory \<open>ServerCalls\<close>.)  A step is what runs under \<open>s.mu\<close> or between two points at
  which other goroutines can come in; every handler has a program counter.  The HTTP server and
  the TLS handshake are not part of the repository: a handshake that \<open>crypto/tls\<close> has let pass
  is an event that brings the certificates of the peer.
\<close>

subsection \<open>State\<close>

text \<open>A transport with what the handler shares with its callback: the key and the channel \<open>done\<close>.\<close>

record srv_tr =
  st_key :: static_key
  st_tr :: WebsocketServer
  st_done :: bool

text \<open>
  Where a running \<open>wshandler\<close> stands: past the check of \<open>quit\<close>, past
  \<open>ensureSingleClientConnection\<close>, upgraded, with a new transport that is not yet registered
  (still holding \<open>s.mu\<close> for reading), in its last \<open>select\<close>, or returned.
\<close>

datatype session_pc =
  WS_Entered x509_cert | WS_Checked | WS_Upgraded | WS_Created nat | WS_Serving nat | WS_Returned

record session =
  se_key :: static_key
  se_pc :: session_pc

text \<open>
  \<open>Stop\<close>: not called, \<open>quit\<close> fired, closing the connections it has taken, waiting for them,
  returned.
\<close>

datatype stop_pc = ST_NotCalled | ST_Fired | ST_Closing "(static_key, nat) gomap" | ST_Waiting | ST_Returned

record ('i, 'p) Server =
  srv_opts :: serverOptions
  srv_connMgr :: "connectionsManager option"
  srv_service :: "('i, 'p) serviceInfo option"
  srv_methodCalls :: "nat MethodCalls"
  srv_quit :: Event
  srv_done :: Event
  srv_serveWG :: nat
  srv_trs :: "srv_tr list"
  srv_sessions :: "session list"
  srv_stop :: stop_pc
  srv_keys :: pk_store
  srv_chans :: chan_store

definition NewServer :: "ServerOption list \<Rightarrow> pk_store \<Rightarrow> chan_store \<Rightarrow> ('i, 'p) Server" where
  "NewServer opt st h =
     (case apply_server_options opt st of (opts, st1) \<Rightarrow>
        \<lparr>srv_opts = opts, srv_connMgr = Some newConnectionsManager, srv_service = None,
         srv_methodCalls = NewMethodCalls, srv_quit = NewEvent, srv_done = NewEvent, srv_serveWG = 0,
         srv_trs = [], srv_sessions = [], srv_stop = ST_NotCalled, srv_keys = st1, srv_chans = h\<rparr>)"

subsection \<open>Connections\<close>

text \<open>Calling a method of the connections manager after \<open>Stop\<close> has reset the field panics.\<close>

definition OpenConnections :: "('i, 'p) Server \<Rightarrow> nat go" where
  "OpenConnections s = go_bind (deref (srv_connMgr s)) (\<lambda>cm. Ret (length (cm_conns cm)))"

definition ensureSingleClientConnection :: "x509_cert \<Rightarrow> ('i, 'p) Server \<Rightarrow> static_key res go" where
  "ensureSingleClientConnection cert s =
     (case PubKeyFromCert cert of
        Inl err \<Rightarrow> Ret (Inl (New ''could not extracting public key from certificate''))
      | Inr pubKey \<Rightarrow> go_bind (deref (srv_connMgr s)) (\<lambda>cm.
          case getTransport cm pubKey of
            Inr _ \<Rightarrow> Ret (Inl (New ''only one connection allowed per client''))
          | Inl _ \<Rightarrow> Ret (Inr pubKey)))"

text \<open>\<open>wshandler\<close>, part by part.\<close>

definition set_session :: "nat \<Rightarrow> session_pc \<Rightarrow> ('i, 'p) Server \<Rightarrow> ('i, 'p) Server" where
  "set_session n pc s = s\<lparr>srv_sessions := (srv_sessions s)[n := (srv_sessions s ! n)\<lparr>se_pc := pc\<rparr>]\<rparr>"

definition session_pc_of :: "('i, 'p) Server \<Rightarrow> nat \<Rightarrow> session_pc option" where
  "session_pc_of s n = (if n < length (srv_sessions s) then Some (se_pc (srv_sessions s ! n)) else None)"

definition wshandler_enter :: "x509_cert list \<Rightarrow> ('i, 'p) Server \<Rightarrow> ('i, 'p) Server go" where
  "wshandler_enter certs s =
     (if HasFired (srv_quit s) then Ret s
      else case certs of
             [] \<Rightarrow> Panic IndexOutOfRange
           | cert # _ \<Rightarrow> Ret (s\<lparr>srv_sessions := srv_sessions s @ [\<lparr>se_key = [], se_pc = WS_Entered cert\<rparr>]\<rparr>))"

definition wshandler_check :: "nat \<Rightarrow> ('i, 'p) Server \<Rightarrow> ('i, 'p) Server go option" where
  "wshandler_check n s =
     (case session_pc_of s n of
        Some (WS_Entered cert) \<Rightarrow> Some (go_bind (ensureSingleClientConnection cert s) (\<lambda>r.
          case r of
            Inl err \<Rightarrow> Ret (set_session n WS_Returned s)
          | Inr pubKey \<Rightarrow>
              Ret (s\<lparr>srv_sessions := (srv_sessions s)[n := \<lparr>se_key = pubKey, se_pc = WS_Checked\<rparr>]\<rparr>)))
      | _ \<Rightarrow> None)"

definition wshandler_upgrade :: "nat \<Rightarrow> bool \<Rightarrow> ('i, 'p) Server \<Rightarrow> ('i, 'p) Server option" where
  "wshandler_upgrade n ok s =
     (if session_pc_of s n = Some WS_Checked
      then Some (set_session n (if ok then WS_Upgraded else WS_Returned) s) else None)"

definition transport_config :: "serverOptions \<Rightarrow> ServerConfig" where
  "transport_config opts = \<lparr>sc_ReadLimit = so_wsReadLimit opts, sc_WriteTimeout = so_wsTimeout opts\<rparr>"

text \<open>
  The critical section of \<open>wshandler\<close> in two steps: it holds \<open>s.mu\<close> for reading only, so the
  callback of the new transport can run before \<open>registerConnection\<close>.
\<close>

definition wshandler_create :: "nat \<Rightarrow> ('i, 'p) Server \<Rightarrow> ('i, 'p) Server option" where
  "wshandler_create n s =
     (if session_pc_of s n \<noteq> Some WS_Upgraded then None
      else case srv_connMgr s of
             None \<Rightarrow> Some (set_session n WS_Returned s)
           | Some cm \<Rightarrow>
               let pubKey = se_key (srv_sessions s ! n);
                   tr = NewServerTransport (transport_config (srv_opts s))
               in Some ((set_session n (WS_Created (length (srv_trs s))) s)
                    \<lparr>srv_serveWG := Suc (srv_serveWG s),
                     srv_trs := srv_trs s @ [\<lparr>st_key = pubKey, st_tr = tr, st_done = False\<rparr>]\<rparr>))"

definition wshandler_register :: "nat \<Rightarrow> ('i, 'p) Server \<Rightarrow> ('i, 'p) Server go option" where
  "wshandler_register n s =
     (case session_pc_of s n of
        Some (WS_Created i) \<Rightarrow>
          Some (go_bind (deref (srv_connMgr s)) (\<lambda>cm.
            go_bind (registerConnection (se_key (srv_sessions s ! n)) i cm (srv_chans s)) (\<lambda>(cm1, h1).
              Ret ((set_session n (WS_Serving i) s)\<lparr>srv_connMgr := Some cm1, srv_chans := h1\<rparr>))))
      | _ \<Rightarrow> None)"

definition wshandler_leave :: "nat \<Rightarrow> ('i, 'p) Server \<Rightarrow> ('i, 'p) Server option" where
  "wshandler_leave n s =
     (case session_pc_of s n of
        Some (WS_Serving i) \<Rightarrow>
          if i < length (srv_trs s) \<and> st_done (srv_trs s ! i) \<or> Done (srv_quit s)
          then Some (set_session n WS_Returned s) else None
      | _ \<Rightarrow> None)"

text \<open>The callback \<open>afterWritePump\<close> of \<open>wshandler\<close> for the transport \<open>i\<close>.\<close>

definition afterWritePump_srv :: "nat \<Rightarrow> ('i, 'p) Server \<Rightarrow> ('i, 'p) Server go" where
  "afterWritePump_srv i s =
     (let t = srv_trs s ! i
      in go_bind (case srv_connMgr s of
                    None \<Rightarrow> Ret s
                  | Some cm \<Rightarrow> go_bind (removeConnection (st_key t) cm (srv_chans s)) (\<lambda>(cm1, h1).
                      Ret (s\<lparr>srv_connMgr := Some cm1, srv_chans := h1\<rparr>)))
           (\<lambda>s1. if srv_serveWG s1 = 0 then Panic NegativeWaitGroup
                 else if st_done t then Panic CloseOfClosedChannel
                 else Ret (s1\<lparr>srv_serveWG := srv_serveWG s1 - 1,
                              srv_trs := (srv_trs s1)[i := t\<lparr>st_done := True\<rparr>]\<rparr>)))"

text \<open>An event of the transport \<open>i\<close>; when its write pump exits, the callback runs.\<close>

definition srv_transport_event :: "nat \<Rightarrow> pump_event \<Rightarrow> ('i, 'p) Server \<Rightarrow> ('i, 'p) Server go option" where
  "srv_transport_event i ev s =
     (if \<not> i < length (srv_trs s) \<or> ev = CallClose then None
      else case server_step (st_tr (srv_trs s ! i)) ev of
             None \<Rightarrow> None
           | Some (Panic p) \<Rightarrow> Some (Panic p)
           | Some (Ret tr) \<Rightarrow>
               let s1 = s\<lparr>srv_trs := (srv_trs s)[i := (srv_trs s ! i)\<lparr>st_tr := tr\<rparr>]\<rparr>
               in Some (if ev = PumpExits then afterWritePump_srv i s1 else Ret s1))"

text \<open>Closing one transport from the server side.\<close>

definition close_tr :: "nat \<Rightarrow> ('i, 'p) Server \<Rightarrow> ('i, 'p) Server go" where
  "close_tr i s =
     (if i < length (srv_trs s)
      then go_bind (WebsocketServer_Close (st_tr (srv_trs s ! i))) (\<lambda>tr.
             Ret (s\<lparr>srv_trs := (srv_trs s)[i := (srv_trs s ! i)\<lparr>st_tr := tr\<rparr>]\<rparr>))
      else Panic NilDereference)"

subsection \<open>Keys\<close>

text \<open>The first loop of \<open>removeConnectionsToDeletedKeys\<close>: the keys that convert.\<close>

fun static_keys :: "bytes list \<Rightarrow> static_key set" where
  "static_keys [] = {}"
| "static_keys (pk # pks) =
     (case ToStaticallySizedPublicKey pk of
        Inl err \<Rightarrow> static_keys pks
      | Inr pubKey \<Rightarrow> insert pubKey (static_keys pks))"

text \<open>The second loop, over the connections it started with.\<close>

fun drop_deleted :: "static_key set \<Rightarrow> (static_key, nat) gomap \<Rightarrow> ('i, 'p) Server \<Rightarrow> ('i, 'p) Server go" where
  "drop_deleted keys [] s = Ret s"
| "drop_deleted keys ((k, i) # conns) s =
     (if k \<in> keys then drop_deleted keys conns s
      else go_bind (close_tr i s) (\<lambda>s1.
        go_bind (deref (srv_connMgr s1)) (\<lambda>cm.
          go_bind (removeConnection k cm (srv_chans s1)) (\<lambda>(cm1, h1).
            drop_deleted keys conns (s1\<lparr>srv_connMgr := Some cm1, srv_chans := h1\<rparr>)))))"

definition removeConnectionsToDeletedKeys :: "nat \<Rightarrow> ('i, 'p) Server \<Rightarrow> ('i, 'p) Server go" where
  "removeConnectionsToDeletedKeys pubKeys s =
     go_bind (deref (srv_connMgr s)) (\<lambda>cm.
       drop_deleted (static_keys (PublicKeys_Keys (srv_keys s) pubKeys)) (cm_conns cm) s)"

definition UpdatePublicKeys :: "bytes list \<Rightarrow> ('i, 'p) Server \<Rightarrow> (unit res \<times> ('i, 'p) Server) go" where
  "UpdatePublicKeys ed25519PubKeys s =
     (case ValidPublicKeysFromEd25519 ed25519PubKeys (srv_keys s) of
        Inl err \<Rightarrow> Ret (Inl (New (''invalid public keys: '' @ Error err)), s)
      | Inr (pubKeys, st1) \<Rightarrow>
          go_bind (deref (creds_public_keys (so_creds (srv_opts s)))) (\<lambda>r.
            go_bind (removeConnectionsToDeletedKeys pubKeys
                       (s\<lparr>srv_keys := PublicKeys_Replace r pubKeys st1\<rparr>)) (\<lambda>s1.
              Ret (Inr (), s1))))"

subsection \<open>Watching and stopping\<close>

definition GetConnectionNotifyChan :: "('i, 'p) Server \<Rightarrow> (nat \<times> ('i, 'p) Server) go" where
  "GetConnectionNotifyChan s =
     go_bind (deref (srv_connMgr s)) (\<lambda>cm.
       case cm_getNotifyChan cm (srv_chans s) of (ch, cm1, h1) \<Rightarrow>
         Ret (ch, s\<lparr>srv_connMgr := Some cm1, srv_chans := h1\<rparr>))"

definition GetConnectedPeerPublicKeys :: "('i, 'p) Server \<Rightarrow> static_key list go" where
  "GetConnectedPeerPublicKeys s =
     go_bind (deref (srv_connMgr s)) (\<lambda>cm. Ret (getConnectionPublicKeys cm))"

text \<open>
  \<open>Stop\<close>: fire \<open>quit\<close>, take the connections manager (calling \<open>close\<close> on a nil one panics),
  close its connections, wait, fire \<open>done\<close>.
\<close>

definition Stop_fire :: "('i, 'p) Server \<Rightarrow> ('i, 'p) Server go" where
  "Stop_fire s = go_bind (Fire (srv_quit s)) (\<lambda>(_, quit). Ret (s\<lparr>srv_quit := quit, srv_stop := ST_Fired\<rparr>))"

definition Stop_take :: "('i, 'p) Server \<Rightarrow> ('i, 'p) Server go" where
  "Stop_take s =
     go_bind (deref (srv_connMgr s)) (\<lambda>cm.
       Ret (s\<lparr>srv_connMgr := None, srv_stop := ST_Closing (cm_conns cm)\<rparr>))"

definition Stop_close :: "('i, 'p) Server \<Rightarrow> ('i, 'p) Server go option" where
  "Stop_close s =
     (case srv_stop s of
        ST_Closing [] \<Rightarrow> Some (Ret (s\<lparr>srv_stop := ST_Waiting\<rparr>))
      | ST_Closing ((k, i) # conns) \<Rightarrow> Some (go_bind (close_tr i s) (\<lambda>s1. Ret (s1\<lparr>srv_stop := ST_Closing conns\<rparr>)))
      | _ \<Rightarrow> None)"

definition Stop_wait :: "('i, 'p) Server \<Rightarrow> ('i, 'p) Server go option" where
  "Stop_wait s =
     (if srv_stop s = ST_Waiting \<and> srv_serveWG s = 0
      then Some (go_bind (Fire (srv_done s)) (\<lambda>(_, d). Ret (s\<lparr>srv_done := d, srv_stop := ST_Returned\<rparr>)))
      else None)"

subsection \<open>Serving requests\<close>

text \<open>\<open>handleRead\<close>: the transport it reads from, and what it does with a message.\<close>

definition Server_handleRead_transport :: "static_key \<Rightarrow> ('i, 'p) Server \<Rightarrow> nat option" where
  "Server_handleRead_transport pubKey s =
     (case srv_connMgr s of
        None \<Rightarrow> None
      | Some cm \<Rightarrow> (case getTransport cm pubKey of Inl err \<Rightarrow> None | Inr tr \<Rightarrow> Some tr))"

datatype srv_dispatch = SrvUndecodable | SrvHandleRequest "Request option" | SrvHandleResponse "Response option" | SrvInvalidType

definition Server_handleRead :: "Message proto \<Rightarrow> slice \<Rightarrow> srv_dispatch" where
  "Server_handleRead wire data =
     (case UnmarshalProtoMessage wire data (ProtoMessage empty_message) of
        Inl err \<Rightarrow> SrvUndecodable
      | Inr msg \<Rightarrow> (case msg_Exchange msg of
            Some (Message_Request r) \<Rightarrow> SrvHandleRequest r
          | Some (Message_Response r) \<Rightarrow> SrvHandleResponse r
          | None \<Rightarrow> SrvInvalidType))"

text \<open>\<open>uuid_parse\<close> is \<open>uuid.Parse\<close> followed by \<open>Version\<close>, from \<open>github.com/google/uuid\<close>.\<close>

definition validateMessageRequest ::
  "(string \<Rightarrow> nat res) \<Rightarrow> ('i, 'p) Server \<Rightarrow> Request option \<Rightarrow> unit res go"
where
  "validateMessageRequest uuid_parse s r =
     go_bind (deref (srv_service s)) (\<lambda>service.
       case si_methods service (Request_GetMethod r) of
         None \<Rightarrow> Ret (Inl (New (''unrecognized method: '' @ Request_GetMethod r)))
       | Some _ \<Rightarrow>
           (case uuid_parse (Request_GetCallId r) of
              Inl err \<Rightarrow> Ret (Inl (Wrap (''invalid callId '' @ Request_GetCallId r @ '': '') err))
            | Inr version \<Rightarrow>
                Ret (if version \<noteq> 4
                     then Inl (New (''invalid callId '' @ Request_GetCallId r @ '': %!w(<nil>)''))
                     else Inr ())))"

definition Server_handleMessageRequest ::
  "(string \<Rightarrow> nat res) \<Rightarrow> 'p proto \<Rightarrow> Message proto \<Rightarrow> static_key \<Rightarrow> ('i, 'p) Server \<Rightarrow> Request option
    \<Rightarrow> slice option go"
where
  "Server_handleMessageRequest uuid_parse pb wire pubKey s r =
     go_bind (validateMessageRequest uuid_parse s r) (\<lambda>valid.
       case valid of
         Inl err \<Rightarrow> Ret None
       | Inr _ \<Rightarrow>
           go_bind (deref (srv_service s)) (\<lambda>service.
             go_bind (deref (si_methods service (Request_GetMethod r))) (\<lambda>md.
               let dec = (\<lambda>v. UnmarshalProtoMessage pb (Request_GetPayload r) v);
                   ctx = peer_NewContext Background \<lparr>peer_PublicKey = pubKey\<rparr>
               in case md_Handler md (si_serviceImpl service) ctx dec of (v, herr) \<Rightarrow>
                    (case NewResponse pb (Request_GetCallId r) v herr of
                       Inl err \<Rightarrow> Ret None
                     | Inr msg \<Rightarrow>
                         (case MarshalProtoMessage wire (ProtoMessage msg) of
                            Inl err \<Rightarrow> Ret None
                          | Inr replyMsg \<Rightarrow> Ret (Some replyMsg))))))"

text \<open>\<open>sendMsg\<close>: the transport the message is written to.\<close>

definition sendMsg :: "static_key \<Rightarrow> ('i, 'p) Server \<Rightarrow> nat res go" where
  "sendMsg pub s = go_bind (deref (srv_connMgr s)) (\<lambda>cm. Ret (getTransport cm pub))"

definition Server_register :: "('i, 'p) ServiceDesc \<Rightarrow> 'i \<Rightarrow> ('i, 'p) Server \<Rightarrow> ('i, 'p) Server" where
  "Server_register sd ss s = s\<lparr>srv_service := Some (new_serviceInfo sd ss)\<rparr>"

interpretation srv_registrar: registrar Server_register srv_service
  by unfold_locales (simp add: Server_register_def)

subsection \<open>The step relation\<close>

datatype srv_event =
    SV_Request "x509_cert list"
  | SV_Check nat
  | SV_Upgrade nat bool
  | SV_Create nat
  | SV_Register nat
  | SV_Leave nat
  | SV_Transport nat pump_event
  | SV_UpdateKeys "bytes list"
  | SV_Watch
  | SV_StopFire
  | SV_StopTake
  | SV_StopClose
  | SV_StopWait

text \<open>A handler between creating and registering a transport keeps writers of \<open>s.mu\<close> out.\<close>

definition read_locked :: "('i, 'p) Server \<Rightarrow> bool" where
  "read_locked s \<longleftrightarrow> list_ex (\<lambda>se. case se_pc se of WS_Created _ \<Rightarrow> True | _ \<Rightarrow> False) (srv_sessions s)"

primrec srv_step :: "srv_event \<Rightarrow> ('i, 'p) Server \<Rightarrow> ('i, 'p) Server go option" where
  "srv_step (SV_Request certs) s = Some (wshandler_enter certs s)"
| "srv_step (SV_Check n) s = wshandler_check n s"
| "srv_step (SV_Upgrade n ok) s = map_option Ret (wshandler_upgrade n ok s)"
| "srv_step (SV_Create n) s = map_option Ret (wshandler_create n s)"
| "srv_step (SV_Register n) s = wshandler_register n s"
| "srv_step (SV_Leave n) s = map_option Ret (wshandler_leave n s)"
| "srv_step (SV_Transport i ev) s = srv_transport_event i ev s"
| "srv_step (SV_UpdateKeys keys) s =
     (if read_locked s then None else Some (go_bind (UpdatePublicKeys keys s) (\<lambda>(_, s1). Ret s1)))"
| "srv_step SV_Watch s = Some (go_bind (GetConnectionNotifyChan s) (\<lambda>(_, s1). Ret s1))"
| "srv_step SV_StopFire s = (if srv_stop s = ST_NotCalled then Some (Stop_fire s) else None)"
| "srv_step SV_StopTake s =
     (if srv_stop s = ST_Fired \<and> \<not> read_locked s then Some (Stop_take s) else None)"
| "srv_step SV_StopClose s = Stop_close s"
| "srv_step SV_StopWait s = Stop_wait s"

inductive srv_reachable :: "('i, 'p) Server \<Rightarrow> bool" where
  srv_init: "wf_chans h \<Longrightarrow> srv_reachable (NewServer opt st h)"
| srv_next: "srv_reachable s \<Longrightarrow> srv_step e s = Some (Ret s') \<Longrightarrow> srv_reachable s'"
| srv_serve: "srv_reachable s \<Longrightarrow> srv_reachable (Server_register sd ss s)"

subsection \<open>The invariant\<close>

definition running :: "srv_tr list \<Rightarrow> nat" where
  "running trs = (\<Sum>t\<leftarrow>trs. if st_done t then 0 else 1)"

definition st_ok :: "srv_tr \<Rightarrow> bool" where
  "st_ok t \<longleftrightarrow> good_server (st_tr t) \<and> (st_done t \<longleftrightarrow> tr_writePump (st_tr t) = WP_Done)"

text \<open>A registered pair names an existing transport of that key.\<close>

definition conns_ok :: "srv_tr list \<Rightarrow> (static_key, nat) gomap \<Rightarrow> bool" where
  "conns_ok trs conns \<longleftrightarrow> (\<forall>(k, i) \<in> set conns. i < length trs \<and> st_key (trs ! i) = k)"

fun mgr_ok :: "connectionsManager option \<Rightarrow> srv_tr list \<Rightarrow> chan_store \<Rightarrow> bool" where
  "mgr_ok None trs h \<longleftrightarrow> wf_chans h"
| "mgr_ok (Some cm) trs h \<longleftrightarrow> cm_ok cm h \<and> wf_map (cm_conns cm) \<and> conns_ok trs (cm_conns cm)"

definition inv_conns :: "('i, 'p) Server \<Rightarrow> bool" where
  "inv_conns s \<longleftrightarrow> mgr_ok (srv_connMgr s) (srv_trs s) (srv_chans s)
     \<and> (\<forall>conns. srv_stop s = ST_Closing conns \<longrightarrow> conns_ok (srv_trs s) conns)"

definition inv_wg :: "('i, 'p) Server \<Rightarrow> bool" where
  "inv_wg s \<longleftrightarrow> (\<forall>t \<in> set (srv_trs s). st_ok t) \<and> srv_serveWG s = running (srv_trs s)"

fun spc_ok :: "session_pc \<Rightarrow> static_key \<Rightarrow> srv_tr list \<Rightarrow> connectionsManager option \<Rightarrow> bool" where
  "spc_ok (WS_Created i) k trs mgr \<longleftrightarrow> i < length trs \<and> st_key (trs ! i) = k \<and> mgr \<noteq> None"
| "spc_ok (WS_Serving i) k trs mgr \<longleftrightarrow> i < length trs \<and> st_key (trs ! i) = k"
| "spc_ok _ k trs mgr \<longleftrightarrow> True"

definition session_ok :: "('i, 'p) Server \<Rightarrow> session \<Rightarrow> bool" where
  "session_ok s se \<longleftrightarrow> spc_ok (se_pc se) (se_key se) (srv_trs s) (srv_connMgr s)"

definition inv_stop :: "('i, 'p) Server \<Rightarrow> bool" where
  "inv_stop s \<longleftrightarrow> wf_event (srv_quit s) \<and> wf_event (srv_done s)
     \<and> (HasFired (srv_quit s) \<longleftrightarrow> srv_stop s \<noteq> ST_NotCalled)
     \<and> (srv_connMgr s = None \<longleftrightarrow> srv_stop s \<notin> {ST_NotCalled, ST_Fired})
     \<and> (HasFired (srv_done s) \<longleftrightarrow> srv_stop s = ST_Returned)
     \<and> (srv_stop s = ST_Returned \<longrightarrow> srv_serveWG s = 0)"

definition srv_inv :: "('i, 'p) Server \<Rightarrow> bool" where
  "srv_inv s \<longleftrightarrow> inv_conns s \<and> inv_wg s \<and> (\<forall>se \<in> set (srv_sessions s). session_ok s se) \<and> inv_stop s"

lemma srv_inv_init: "wf_chans h \<Longrightarrow> srv_inv (NewServer opt st h)"
  by (simp add: srv_inv_def NewServer_def inv_conns_def inv_wg_def inv_stop_def conns_ok_def running_def
      newConnectionsManager_def cm.live_def NewEvent_def HasFired_def wf_event_def split: prod.split)

lemmas srv_inv_defs = srv_inv_def inv_conns_def inv_wg_def inv_stop_def

text \<open>Updates that concern one part of the state only.\<close>

lemma session_ok_sessions [simp]: "session_ok (s\<lparr>srv_sessions := x\<rparr>) se = session_ok s se"
  by (simp add: session_ok_def)

lemma session_ok_mono:
  assumes "session_ok s se" "length (srv_trs s) \<le> length (srv_trs s')"
    and "\<forall>i < length (srv_trs s). st_key (srv_trs s' ! i) = st_key (srv_trs s ! i)"
    and "srv_connMgr s \<noteq> None \<Longrightarrow> srv_connMgr s' \<noteq> None"
  shows "session_ok s' se"
  using assms by (cases "se_pc se") (auto simp: session_ok_def)

lemma srv_inv_sessions:
  assumes "srv_inv s" "\<forall>se \<in> set x. session_ok s se"
  shows "srv_inv (s\<lparr>srv_sessions := x\<rparr>)"
  using assms by (auto simp: srv_inv_defs)

lemma set_session_inv:
  assumes "srv_inv s" "session_ok s ((srv_sessions s ! n)\<lparr>se_pc := pc\<rparr>)"
  shows "srv_inv (set_session n pc s)"
proof -
  have "\<forall>se \<in> insert ((srv_sessions s ! n)\<lparr>se_pc := pc\<rparr>) (set (srv_sessions s)). session_ok s se"
    using assms by (simp add: srv_inv_def)
  then have "\<forall>se \<in> set ((srv_sessions s)[n := (srv_sessions s ! n)\<lparr>se_pc := pc\<rparr>]). session_ok s se"
    using set_update_subset_insert [of "srv_sessions s" n] by blast
  with assms(1) show ?thesis by (simp add: set_session_def srv_inv_sessions)
qed

lemma running_update:
  "i < length trs \<Longrightarrow> running (trs[i := t]) + (if st_done (trs ! i) then 0 else 1)
     = running trs + (if st_done t then 0 else 1)"
proof (induction trs arbitrary: i)
  case (Cons a trs)
  show ?case
  proof (cases i)
    case (Suc j)
    with Cons.IH [of j] Cons.prems show ?thesis by (simp add: running_def)
  qed (simp add: running_def)
qed simp

lemma running_0: "running trs = 0 \<longleftrightarrow> (\<forall>t \<in> set trs. st_done t)"
  by (auto simp: running_def)

lemma conns_ok_update:
  assumes "conns_ok trs conns" "st_key t = st_key (trs ! i)"
  shows "conns_ok (trs[i := t]) conns"
  using assms by (cases "i < length trs") (auto simp: conns_ok_def nth_list_update list_update_beyond)

lemma ball_list_update: "\<forall>x \<in> set xs. P x \<Longrightarrow> P y \<Longrightarrow> \<forall>x \<in> set (xs[i := y]). P x"
  using set_update_subset_insert [of xs i y] by blast

lemma trs_update_srv_inv:
  assumes "srv_inv s" "i < length (srv_trs s)" "st_key t = st_key (srv_trs s ! i)" "st_ok t"
    and "st_done t = st_done (srv_trs s ! i)"
  shows "srv_inv (s\<lparr>srv_trs := (srv_trs s)[i := t]\<rparr>)"
proof -
  let ?s = "s\<lparr>srv_trs := (srv_trs s)[i := t]\<rparr>"
  have "running ((srv_trs s)[i := t]) = running (srv_trs s)"
    using running_update [OF assms(2), of t] assms(5) by (auto split: if_splits)
  moreover have "\<forall>x \<in> set ((srv_trs s)[i := t]). st_ok x"
    using assms(1,4) by (intro ball_list_update) (simp_all add: srv_inv_def inv_wg_def)
  ultimately have "inv_wg ?s" using assms(1) by (simp add: srv_inv_def inv_wg_def)
  moreover have "inv_conns ?s"
    using assms(1) conns_ok_update [OF _ assms(3)]
    by (cases "srv_connMgr s") (auto simp: srv_inv_def inv_conns_def)
  moreover have "session_ok ?s se" if "se \<in> set (srv_sessions s)" for se
    using assms(1-3) that
    by (intro session_ok_mono [of s se ?s]) (auto simp: srv_inv_def nth_list_update)
  ultimately show ?thesis using assms(1) by (simp add: srv_inv_def inv_stop_def)
qed

lemma conns_srv_inv:
  assumes "srv_inv s" "srv_connMgr s = Some cm0" "cm_ok cm h" "wf_map (cm_conns cm)" "conns_ok (srv_trs s) (cm_conns cm)"
  shows "srv_inv (s\<lparr>srv_connMgr := Some cm, srv_chans := h\<rparr>)"
proof -
  let ?s = "s\<lparr>srv_connMgr := Some cm, srv_chans := h\<rparr>"
  have "session_ok ?s se" if "se \<in> set (srv_sessions s)" for se
    using assms(1) that by (intro session_ok_mono [of s se ?s]) (auto simp: srv_inv_def)
  with assms show ?thesis by (auto simp: srv_inv_defs)
qed

lemma conns_ok_delete: "conns_ok trs conns \<Longrightarrow> conns_ok trs (AList.delete k conns)"
  by (auto simp: conns_ok_def AList.delete_eq)

lemma srv_removeConnection:
  assumes "srv_inv s" "srv_connMgr s = Some cm"
  obtains cm1 h1 where "removeConnection k cm (srv_chans s) = Ret (cm1, h1)"
    "srv_inv (s\<lparr>srv_connMgr := Some cm1, srv_chans := h1\<rparr>)" "cm_conns cm1 = AList.delete k (cm_conns cm)"
proof -
  from assms have ok: "cm_ok cm (srv_chans s)" "wf_map (cm_conns cm)" "conns_ok (srv_trs s) (cm_conns cm)"
    by (simp_all add: srv_inv_def inv_conns_def)
  show ?thesis
    by (rule removeConnection_ok [OF ok(1), of k], rule that)
      (use assms ok in \<open>auto intro!: conns_srv_inv simp: conns_ok_delete\<close>)
qed

text \<open>Closing a transport: always possible, and only its own state changes.\<close>

lemma close_tr_inv:
  assumes "srv_inv s" "i < length (srv_trs s)"
  obtains tr where "close_tr i s = Ret (s\<lparr>srv_trs := (srv_trs s)[i := (srv_trs s ! i)\<lparr>st_tr := tr\<rparr>]\<rparr>)"
    "srv_inv (s\<lparr>srv_trs := (srv_trs s)[i := (srv_trs s ! i)\<lparr>st_tr := tr\<rparr>]\<rparr>)" "ws_state tr = closing"
proof -
  let ?t = "srv_trs s ! i"
  have ok: "st_ok ?t" using assms by (simp add: srv_inv_def inv_wg_def)
  then obtain tr where tr: "WebsocketServer_Close (st_tr ?t) = Ret tr" "good_server tr" "ws_state tr = closing"
    using server_close.shoot_valid by (auto simp: st_ok_def)
  then have "tr_writePump tr = tr_writePump (st_tr ?t)"
    by (auto simp: WebsocketServer_Close_def Let_def split: if_splits)
  with ok tr have "st_ok (?t\<lparr>st_tr := tr\<rparr>)" by (simp add: st_ok_def)
  with assms tr show ?thesis by (intro that [of tr]) (simp_all add: close_tr_def trs_update_srv_inv)
qed

text \<open>Every step keeps the invariant.  First the HTTP handler.\<close>

lemma session_pc_of_Some:
  "session_pc_of s n = Some pc \<longleftrightarrow> n < length (srv_sessions s) \<and> se_pc (srv_sessions s ! n) = pc"
  by (auto simp: session_pc_of_def)

lemma session_okD: "srv_inv s \<Longrightarrow> n < length (srv_sessions s) \<Longrightarrow> session_ok s (srv_sessions s ! n)"
  by (simp add: srv_inv_def)

lemma wshandler_inv:
  assumes "srv_inv s"
  shows "wshandler_enter certs s = Ret s' \<Longrightarrow> srv_inv s'"
    and "wshandler_check n s = Some (Ret s') \<Longrightarrow> srv_inv s'"
    and "wshandler_upgrade n ok s = Some s' \<Longrightarrow> srv_inv s'"
    and "wshandler_leave n s = Some s' \<Longrightarrow> srv_inv s'"
proof -
  have old: "\<forall>se \<in> set (srv_sessions s). session_ok s se" using assms by (simp add: srv_inv_def)
  show "wshandler_enter certs s = Ret s' \<Longrightarrow> srv_inv s'"
    using assms old
    by (auto simp: wshandler_enter_def session_ok_def intro!: srv_inv_sessions split: if_splits list.splits)
  show "wshandler_upgrade n ok s = Some s' \<Longrightarrow> srv_inv s'"
    using assms by (auto simp: wshandler_upgrade_def session_ok_def intro!: set_session_inv split: if_splits)
  show "wshandler_leave n s = Some s' \<Longrightarrow> srv_inv s'"
    using assms by (auto simp: wshandler_leave_def session_ok_def intro!: set_session_inv
        split: if_splits option.splits session_pc.splits)
  assume c: "wshandler_check n s = Some (Ret s')"
  then obtain cert r where r: "ensureSingleClientConnection cert s = Ret r"
    and s': "(case r of Inl err \<Rightarrow> Ret (set_session n WS_Returned s)
          | Inr pubKey \<Rightarrow> Ret (s\<lparr>srv_sessions := (srv_sessions s)[n := \<lparr>se_key = pubKey, se_pc = WS_Checked\<rparr>]\<rparr>)) = Ret s'"
    by (auto simp: wshandler_check_def split: option.splits session_pc.splits)
  show "srv_inv s'"
  proof (cases r)
    case (Inl err)
    with s' assms show ?thesis by (auto simp: session_ok_def intro!: set_session_inv)
  next
    case (Inr k)
    have "\<forall>se \<in> set ((srv_sessions s)[n := \<lparr>se_key = k, se_pc = WS_Checked\<rparr>]). session_ok s se"
      by (rule ball_list_update [OF old]) (simp add: session_ok_def)
    with Inr s' srv_inv_sessions [OF assms] show ?thesis by auto
  qed
qed

lemma wshandler_create_inv:
  assumes "srv_inv s" "wshandler_create n s = Some s'"
  shows "srv_inv s'"
proof (cases "srv_connMgr s")
  case None
  with assms show ?thesis
    by (auto simp: wshandler_create_def session_ok_def intro!: set_session_inv split: if_splits)
next
  case (Some cm)
  let ?i = "length (srv_trs s)"
  let ?t = "\<lparr>st_key = se_key (srv_sessions s ! n), st_tr = NewServerTransport (transport_config (srv_opts s)), st_done = False\<rparr>"
  from assms(2) Some have n: "n < length (srv_sessions s)"
    and s': "s' = (set_session n (WS_Created ?i) s)\<lparr>srv_serveWG := Suc (srv_serveWG s), srv_trs := srv_trs s @ [?t]\<rparr>"
    by (auto simp: wshandler_create_def session_pc_of_Some Let_def split: if_splits)
  have t: "st_ok ?t"
    by (simp add: st_ok_def) (simp add: NewServerTransport_def newWebsocketServer_def WebsocketServer_start_def
        newWebsocketServerWithConfig_def Let_def)
  have trs': "srv_trs s' = srv_trs s @ [?t]" "srv_connMgr s' = Some cm"
    unfolding s' using Some by (simp_all add: set_session_def)
  have old: "session_ok s' se" if "session_ok s se" for se
    using that by (rule session_ok_mono) (simp_all add: trs' nth_append)
  have new: "session_ok s' ((srv_sessions s ! n)\<lparr>se_pc := WS_Created ?i\<rparr>)"
    by (simp add: session_ok_def trs')
  have "srv_sessions s' = (srv_sessions s)[n := (srv_sessions s ! n)\<lparr>se_pc := WS_Created ?i\<rparr>]"
    unfolding s' by (simp add: set_session_def)
  moreover have "\<forall>se \<in> set (srv_sessions s). session_ok s' se"
    using assms(1) old by (simp add: srv_inv_def)
  ultimately have ses: "\<forall>se \<in> set (srv_sessions s'). session_ok s' se"
    using ball_list_update [where P = "session_ok s'", OF _ new] by simp
  have conns: "conns_ok (srv_trs s @ [?t]) c" if "conns_ok (srv_trs s) c" for c
    using that by (auto simp: conns_ok_def nth_append)
  have "inv_wg s'" using assms(1) t unfolding s' by (simp add: srv_inv_def inv_wg_def running_def set_session_def)
  moreover have "inv_conns s'"
    using assms(1) conns Some unfolding s' by (simp add: srv_inv_def inv_conns_def set_session_def)
  moreover have "inv_stop s'"
    using assms(1) Some unfolding s' by (auto simp: srv_inv_def inv_stop_def set_session_def)
  ultimately show ?thesis using ses by (simp add: srv_inv_def)
qed

lemma conns_ok_insert:
  assumes "conns_ok trs conns" "i < length trs" "st_key (trs ! i) = k"
  shows "conns_ok trs (AList.update k i conns)"
proof -
  have "set (AList.update k i conns) \<subseteq> insert (k, i) (set conns)"
    by (induction conns) auto
  with assms show ?thesis by (auto simp: conns_ok_def)
qed

lemma wshandler_register_inv:
  assumes "srv_inv s" "session_pc_of s n = Some (WS_Created i)"
  shows "\<exists>s'. wshandler_register n s = Some (Ret s') \<and> srv_inv s'"
proof -
  let ?k = "se_key (srv_sessions s ! n)"
  have n: "n < length (srv_sessions s)" "se_pc (srv_sessions s ! n) = WS_Created i"
    using assms(2) by (simp_all add: session_pc_of_Some)
  from session_okD [OF assms(1) n(1)] n(2) obtain cm where i: "i < length (srv_trs s)" "st_key (srv_trs s ! i) = ?k"
    and cm: "srv_connMgr s = Some cm"
    by (auto simp: session_ok_def)
  from assms(1) cm have ok: "cm_ok cm (srv_chans s)" "wf_map (cm_conns cm)" "conns_ok (srv_trs s) (cm_conns cm)"
    by (simp_all add: srv_inv_def inv_conns_def)
  show ?thesis
  proof (rule registerConnection_ok [OF ok(1), of ?k i])
    fix cm1 h1
    assume r: "registerConnection ?k i cm (srv_chans s) = Ret (cm1, h1)" "cm_ok cm1 h1"
      "cm_conns cm1 = AList.update ?k i (cm_conns cm)"
    let ?s = "(set_session n (WS_Serving i) s)"
    have "srv_inv ?s" using assms(1) i by (intro set_session_inv) (simp_all add: session_ok_def)
    moreover have "srv_connMgr ?s = Some cm" "srv_trs ?s = srv_trs s" using cm by (simp_all add: set_session_def)
    ultimately have "srv_inv (?s\<lparr>srv_connMgr := Some cm1, srv_chans := h1\<rparr>)"
      using r ok i by (intro conns_srv_inv [of ?s cm cm1 h1]) (simp_all add: conns_ok_insert)
    with r cm assms(2) show ?thesis by (simp add: wshandler_register_def)
  qed
qed

text \<open>Events of the transports, with the callback at the end.\<close>

lemma server_step_facts:
  assumes "server_step t ev = Some (Ret t')" "ev \<noteq> CallClose"
  shows "(tr_writePump t' = WP_Done \<longleftrightarrow> tr_writePump t = WP_Done \<or> ev = PumpExits)
    \<and> (ev = PumpExits \<longrightarrow> tr_writePump t \<noteq> WP_Done)"
  using assms
  by (cases ev) (auto simp: server_step_simps split: if_splits read_pc.splits)

lemma callback_inv:
  assumes "srv_inv s" "i < length (srv_trs s)" "\<not> st_done (srv_trs s ! i)" "good_server tr" "tr_writePump tr = WP_Done"
  shows "\<exists>s'. afterWritePump_srv i (s\<lparr>srv_trs := (srv_trs s)[i := (srv_trs s ! i)\<lparr>st_tr := tr\<rparr>]\<rparr>) = Ret s'
    \<and> srv_inv s'"
proof -
  let ?t = "srv_trs s ! i"
  let ?t2 = "?t\<lparr>st_tr := tr, st_done := True\<rparr>"
  let ?s1 = "s\<lparr>srv_trs := (srv_trs s)[i := ?t\<lparr>st_tr := tr\<rparr>]\<rparr>"
  have wg: "srv_serveWG s = running (srv_trs s)" using assms(1) by (simp add: srv_inv_def inv_wg_def)
  have run: "running ((srv_trs s)[i := ?t2]) + 1 = running (srv_trs s)"
    using running_update [OF assms(2), of ?t2] assms(3) by simp
  \<comment> \<open>the transports and the counter, whatever the connections\<close>
  have final: "srv_inv (r\<lparr>srv_serveWG := srv_serveWG s - 1, srv_trs := (srv_trs s)[i := ?t2]\<rparr>)"
    if r: "srv_inv r" "srv_trs r = srv_trs s" "srv_serveWG r = srv_serveWG s" for r :: "('a, 'b) Server"
  proof -
    let ?r = "r\<lparr>srv_serveWG := srv_serveWG s - 1, srv_trs := (srv_trs s)[i := ?t2]\<rparr>"
    have "\<forall>x \<in> set ((srv_trs s)[i := ?t2]). st_ok x"
      using assms by (intro ball_list_update) (simp_all add: srv_inv_def inv_wg_def st_ok_def)
    then have "inv_wg ?r" using wg run by (simp add: inv_wg_def)
    moreover have "inv_conns ?r"
      using r conns_ok_update [of "srv_trs s" _ ?t2 i]
      by (cases "srv_connMgr r") (auto simp: srv_inv_def inv_conns_def)
    moreover have "session_ok ?r se" if "se \<in> set (srv_sessions r)" for se
      using r that assms(2)
      by (intro session_ok_mono [of r se ?r]) (auto simp: srv_inv_def nth_list_update)
    moreover have "inv_stop ?r" using r by (auto simp: srv_inv_def inv_stop_def)
    ultimately show ?thesis by (simp add: srv_inv_def)
  qed
  have pos: "srv_serveWG s \<noteq> 0" using wg run by simp
  show ?thesis
  proof (cases "srv_connMgr s")
    case None
    then have "afterWritePump_srv i ?s1 = Ret (s\<lparr>srv_serveWG := srv_serveWG s - 1, srv_trs := (srv_trs s)[i := ?t2]\<rparr>)"
      using pos assms(2,3) by (simp add: afterWritePump_srv_def Let_def)
    with final [OF assms(1)] show ?thesis by simp
  next
    case (Some cm)
    obtain cm1 h1 where rm: "removeConnection (st_key ?t) cm (srv_chans s) = Ret (cm1, h1)"
      "srv_inv (s\<lparr>srv_connMgr := Some cm1, srv_chans := h1\<rparr>)"
      by (rule srv_removeConnection [OF assms(1) Some])
    let ?r = "s\<lparr>srv_connMgr := Some cm1, srv_chans := h1\<rparr>"
    have "afterWritePump_srv i ?s1 = Ret (?r\<lparr>srv_serveWG := srv_serveWG s - 1, srv_trs := (srv_trs s)[i := ?t2]\<rparr>)"
      using Some rm pos assms(2,3) by (simp add: afterWritePump_srv_def Let_def)
    with final [OF rm(2)] show ?thesis by simp
  qed
qed

lemma srv_transport_event_inv:
  assumes "srv_inv s" "srv_transport_event i ev s = Some r"
  shows "\<exists>s'. r = Ret s' \<and> srv_inv s'"
proof -
  let ?t = "srv_trs s ! i"
  from assms(2) have i: "i < length (srv_trs s)" "ev \<noteq> CallClose"
    by (auto simp: srv_transport_event_def split: if_splits)
  have ok: "st_ok ?t" using assms(1) i by (simp add: srv_inv_def inv_wg_def)
  then have np: "server_step (st_tr ?t) ev \<noteq> Some (Panic p)" for p
    using server_pump.step_safe i(2) by (simp add: st_ok_def)
  with assms(2) i obtain tr where st: "server_step (st_tr ?t) ev = Some (Ret tr)"
    by (auto simp: srv_transport_event_def split: option.splits go.splits)
  have good: "good_server tr" using server_pump.step_good [OF _ st] ok by (simp add: st_ok_def)
  note facts = server_step_facts [OF st i(2)]
  show ?thesis
  proof (cases "ev = PumpExits")
    case True
    with ok facts have "\<not> st_done ?t" "tr_writePump tr = WP_Done" by (simp_all add: st_ok_def)
    with callback_inv [OF assms(1) i(1) _ good] assms(2) i st True show ?thesis
      by (auto simp: srv_transport_event_def Let_def)
  next
    case False
    with ok facts good have "st_ok (?t\<lparr>st_tr := tr\<rparr>)" by (simp add: st_ok_def)
    with trs_update_srv_inv [OF assms(1) i(1), of "?t\<lparr>st_tr := tr\<rparr>"] assms(2) i st False show ?thesis
      by (auto simp: srv_transport_event_def Let_def)
  qed
qed

text \<open>
  Dropping connections: what the loop over them leaves.  The connections of deleted keys are off the list
  and their transports closing; nothing else has changed.
\<close>

definition dropped :: "static_key set \<Rightarrow> (static_key, nat) gomap \<Rightarrow> ('i, 'p) Server \<Rightarrow> ('i, 'p) Server \<Rightarrow> bool" where
  "dropped keys conns s s' \<longleftrightarrow>
     map_option (\<lambda>cm. map_of (cm_conns cm)) (srv_connMgr s')
       = map_option (\<lambda>cm k. if k \<in> fst ` set conns \<and> k \<notin> keys then None else map_of (cm_conns cm) k) (srv_connMgr s)
   \<and> length (srv_trs s') = length (srv_trs s)
   \<and> (\<forall>i < length (srv_trs s). srv_trs s' ! i = srv_trs s ! i
        \<or> st_key (srv_trs s ! i) \<notin> keys \<and> ws_state (st_tr (srv_trs s' ! i)) = closing)
   \<and> (\<forall>(k, i) \<in> set conns. k \<notin> keys \<longrightarrow> ws_state (st_tr (srv_trs s' ! i)) = closing)
   \<and> srv_keys s' = srv_keys s \<and> srv_opts s' = srv_opts s \<and> srv_sessions s' = srv_sessions s"

lemma dropped_Nil: "dropped keys [] s s"
  by (simp add: dropped_def)

lemma dropped_kept: "dropped keys conns s s' \<Longrightarrow> k \<in> keys \<Longrightarrow> dropped keys ((k, i) # conns) s s'"
  by (auto simp: dropped_def fun_eq_iff intro!: option.map_cong0 elim!: trans)

lemma dropped_Cons:
  assumes "dropped keys [(k, i)] s s1" "dropped keys conns s1 s'" "k \<notin> keys" "i < length (srv_trs s)"
  shows "dropped keys ((k, i) # conns) s s'"
proof -
  note d = assms(1) [unfolded dropped_def] and d' = assms(2) [unfolded dropped_def]
  have same: "length (srv_trs s') = length (srv_trs s) \<and> srv_keys s' = srv_keys s \<and> srv_opts s' = srv_opts s \<and> srv_sessions s' = srv_sessions s"
    using d d' by simp
  have "map_option (\<lambda>cm. map_of (cm_conns cm)) (srv_connMgr s')
      = map_option (\<lambda>cm k'. if k' \<in> fst ` set ((k, i) # conns) \<and> k' \<notin> keys then None else map_of (cm_conns cm) k') (srv_connMgr s)"
    using conjunct1 [OF d] conjunct1 [OF d'] assms(3)
    by (cases "srv_connMgr s"; cases "srv_connMgr s1"; cases "srv_connMgr s'") (simp_all add: fun_eq_iff)
  moreover have changed: "srv_trs s' ! j = srv_trs s1 ! j \<or> ws_state (st_tr (srv_trs s' ! j)) = closing"
    and keyed: "srv_trs s' ! j = srv_trs s ! j \<or> st_key (srv_trs s ! j) \<notin> keys \<and> ws_state (st_tr (srv_trs s' ! j)) = closing"
    if "j < length (srv_trs s)" for j
  proof -
    have 1: "srv_trs s1 ! j = srv_trs s ! j \<or> st_key (srv_trs s ! j) \<notin> keys \<and> ws_state (st_tr (srv_trs s1 ! j)) = closing"
      and 2: "srv_trs s' ! j = srv_trs s1 ! j \<or> st_key (srv_trs s1 ! j) \<notin> keys \<and> ws_state (st_tr (srv_trs s' ! j)) = closing"
      using d d' that by simp_all
    from 2 show "srv_trs s' ! j = srv_trs s1 ! j \<or> ws_state (st_tr (srv_trs s' ! j)) = closing" by blast
    from 1 2 show "srv_trs s' ! j = srv_trs s ! j \<or> st_key (srv_trs s ! j) \<notin> keys \<and> ws_state (st_tr (srv_trs s' ! j)) = closing"
      by metis
  qed
  moreover have "ws_state (st_tr (srv_trs s1 ! i)) = closing" using d assms(3) by simp
  then have "ws_state (st_tr (srv_trs s' ! i)) = closing" using changed [OF assms(4)] by auto
  moreover have "\<forall>(k, i) \<in> set conns. k \<notin> keys \<longrightarrow> ws_state (st_tr (srv_trs s' ! i)) = closing" using d' by blast
  ultimately show ?thesis using same unfolding dropped_def by simp
qed

lemma conns_ok_cong:
  assumes "map st_key trs = map st_key trs'"
  shows "conns_ok trs conns \<longleftrightarrow> conns_ok trs' conns"
proof -
  have "length trs = length trs'" using assms by (rule map_eq_imp_length_eq)
  moreover from this have "st_key (trs ! i) = st_key (trs' ! i)" if "i < length trs" for i
    using assms that by (metis nth_map)
  ultimately show ?thesis by (auto simp: conns_ok_def)
qed

lemma drop_one:
  assumes "srv_inv s" "srv_connMgr s = Some cm" "i < length (srv_trs s)" "st_key (srv_trs s ! i) = k" "k \<notin> keys"
  obtains s1 cm1 where "drop_deleted keys ((k, i) # conns) s = drop_deleted keys conns s1" "srv_inv s1"
    "srv_connMgr s1 = Some cm1" "dropped keys [(k, i)] s s1" "map st_key (srv_trs s1) = map st_key (srv_trs s)"
proof -
  obtain tr where cl: "close_tr i s = Ret (s\<lparr>srv_trs := (srv_trs s)[i := (srv_trs s ! i)\<lparr>st_tr := tr\<rparr>]\<rparr>)"
    "srv_inv (s\<lparr>srv_trs := (srv_trs s)[i := (srv_trs s ! i)\<lparr>st_tr := tr\<rparr>]\<rparr>)" "ws_state tr = closing"
    by (rule close_tr_inv [OF assms(1,3)])
  let ?s1 = "s\<lparr>srv_trs := (srv_trs s)[i := (srv_trs s ! i)\<lparr>st_tr := tr\<rparr>]\<rparr>"
  obtain cm1 h1 where rm: "removeConnection k cm (srv_chans s) = Ret (cm1, h1)"
    "srv_inv (?s1\<lparr>srv_connMgr := Some cm1, srv_chans := h1\<rparr>)" "cm_conns cm1 = AList.delete k (cm_conns cm)"
    by (rule srv_removeConnection [OF cl(2), of cm k]) (use assms(2) in simp_all)
  let ?s2 = "?s1\<lparr>srv_connMgr := Some cm1, srv_chans := h1\<rparr>"
  have "map st_key (srv_trs ?s2) = map st_key (srv_trs s)"
    using assms(3) by (simp add: map_update list_update_same_conv)
  moreover have "dropped keys [(k, i)] s ?s2"
    using assms(2-5) cl(3) rm(3) by (auto simp: dropped_def fun_eq_iff nth_list_update)
  ultimately show ?thesis
    using assms(2,5) cl(1) rm(1,2) by (intro that [of ?s2 cm1]) simp_all
qed

lemma drop_deleted_spec:
  assumes "srv_inv s" "srv_connMgr s = Some cm" "conns_ok (srv_trs s) conns"
  shows "\<exists>s' cm'. drop_deleted keys conns s = Ret s' \<and> srv_inv s' \<and> srv_connMgr s' = Some cm' \<and> dropped keys conns s s'"
  using assms
proof (induction conns arbitrary: s cm)
  case Nil
  then show ?case by (simp add: dropped_Nil)
next
  case (Cons c conns)
  obtain k i where c: "c = (k, i)" by (cases c)
  from Cons.prems(3) have ok: "conns_ok (srv_trs s) conns" and i: "i < length (srv_trs s)" "st_key (srv_trs s ! i) = k"
    by (auto simp: conns_ok_def c)
  show ?case
  proof (cases "k \<in> keys")
    case True
    with Cons.IH [OF Cons.prems(1,2) ok] show ?thesis by (auto simp: c intro: dropped_kept)
  next
    case False
    obtain s1 cm1 where s1: "drop_deleted keys ((k, i) # conns) s = drop_deleted keys conns s1" "srv_inv s1"
      "srv_connMgr s1 = Some cm1" "dropped keys [(k, i)] s s1" "map st_key (srv_trs s1) = map st_key (srv_trs s)"
      by (rule drop_one [OF Cons.prems(1,2) i False])
    have "conns_ok (srv_trs s1) conns" using ok conns_ok_cong [OF s1(5)] by simp
    from Cons.IH [OF s1(2,3) this] show ?thesis
      unfolding c s1(1) using dropped_Cons [OF s1(4) _ False i(1)] by blast
  qed
qed

lemma static_keys_set: "\<forall>k \<in> set keys. is_static k \<Longrightarrow> static_keys keys = set keys"
  by (induction keys) auto

text \<open>\<open>UpdatePublicKeys\<close> on a running server with credentials.\<close>

lemma UpdatePublicKeys_ok:
  assumes "srv_inv s" "srv_connMgr s = Some cm" "creds_public_keys (so_creds (srv_opts s)) = Some r"
    and "\<forall>k \<in> set keys. is_static k"
  shows "\<exists>s' cm'. UpdatePublicKeys keys s = Ret (Inr (), s') \<and> srv_inv s' \<and> srv_connMgr s' = Some cm'
    \<and> map_of (cm_conns cm') = (\<lambda>k. if k \<in> set keys then map_of (cm_conns cm) k else None)
    \<and> length (srv_trs s') = length (srv_trs s)
    \<and> (\<forall>i < length (srv_trs s). srv_trs s' ! i = srv_trs s ! i
         \<or> st_key (srv_trs s ! i) \<notin> set keys \<and> ws_state (st_tr (srv_trs s' ! i)) = closing)
    \<and> (\<forall>(k, i) \<in> set (cm_conns cm). k \<notin> set keys \<longrightarrow> ws_state (st_tr (srv_trs s' ! i)) = closing)
    \<and> PublicKeys_Keys (srv_keys s') r = keys \<and> srv_opts s' = srv_opts s \<and> srv_sessions s' = srv_sessions s"
proof -
  let ?st = "srv_keys s"
  let ?n = "pk_next ?st"
  obtain st1 where v: "ValidPublicKeysFromEd25519 keys ?st = Inr (?n, st1)" "pk_keys st1 ?n = keys"
    using assms(4) by (auto simp: ValidPublicKeys_cases)
  let ?s = "s\<lparr>srv_keys := PublicKeys_Replace r ?n st1\<rparr>"
  have inv: "srv_inv ?s" using assms(1) by (auto simp: srv_inv_defs session_ok_def)
  have keys: "static_keys (PublicKeys_Keys (srv_keys ?s) ?n) = set keys"
    using static_keys_set [OF assms(4)] v(2) by (simp add: PublicKeys_Keys_def PublicKeys_Replace_def)
  have ok: "conns_ok (srv_trs ?s) (cm_conns cm)"
    using assms(1,2) by (simp add: srv_inv_def inv_conns_def)
  obtain s' cm' where d: "drop_deleted (set keys) (cm_conns cm) ?s = Ret s'" "srv_inv s'" "srv_connMgr s' = Some cm'"
    and m: "map_of (cm_conns cm') = (\<lambda>k. if k \<in> fst ` set (cm_conns cm) \<and> k \<notin> set keys then None else map_of (cm_conns cm) k)"
    and rest: "length (srv_trs s') = length (srv_trs ?s)"
      "\<forall>i < length (srv_trs ?s). srv_trs s' ! i = srv_trs ?s ! i
         \<or> st_key (srv_trs ?s ! i) \<notin> set keys \<and> ws_state (st_tr (srv_trs s' ! i)) = closing"
      "\<forall>(k, i) \<in> set (cm_conns cm). k \<notin> set keys \<longrightarrow> ws_state (st_tr (srv_trs s' ! i)) = closing"
      "srv_keys s' = srv_keys ?s \<and> srv_opts s' = srv_opts ?s \<and> srv_sessions s' = srv_sessions ?s"
    using drop_deleted_spec [OF inv _ ok, of cm "set keys"] assms(2) by (auto simp: dropped_def)
  have "UpdatePublicKeys keys s = Ret (Inr (), s')"
    using v(1) assms(2,3) d(1) keys by (simp add: UpdatePublicKeys_def removeConnectionsToDeletedKeys_def)
  moreover have "map_of (cm_conns cm') = (\<lambda>k. if k \<in> set keys then map_of (cm_conns cm) k else None)"
    using m map_of_eq_None_iff [of "cm_conns cm"] by (auto simp: fun_eq_iff)
  moreover have "PublicKeys_Keys (srv_keys s') r = keys"
    using rest(4) v(2) by (simp add: PublicKeys_Keys_def PublicKeys_Replace_def)
  ultimately show ?thesis using d rest by (intro exI [of _ s'] exI [of _ cm']) simp
qed

lemma UpdatePublicKeys_inv:
  assumes "srv_inv s" "UpdatePublicKeys keys s = Ret (r, s')"
  shows "srv_inv s'"
proof (cases "\<forall>k \<in> set keys. is_static k")
  case True
  then have "check_key_lengths keys = None" by (simp add: is_static_def)
  with assms(2) obtain cm q where "srv_connMgr s = Some cm" "creds_public_keys (so_creds (srv_opts s)) = Some q"
    by (auto simp: UpdatePublicKeys_def removeConnectionsToDeletedKeys_def ValidPublicKeysFromEd25519_def
        simp del: check_key_lengths_None)
  from UpdatePublicKeys_ok [OF assms(1) this True] assms(2) show ?thesis by auto
next
  case False
  then have "ValidPublicKeysFromEd25519 keys (srv_keys s) \<noteq> Inr x" for x
    by (cases x) (simp add: ValidPublicKeys_cases)
  then obtain e where "ValidPublicKeysFromEd25519 keys (srv_keys s) = Inl e"
    by (cases "ValidPublicKeysFromEd25519 keys (srv_keys s)") auto
  with assms show ?thesis by (simp add: UpdatePublicKeys_def)
qed

lemma watch_inv:
  assumes "srv_inv s" "GetConnectionNotifyChan s = Ret (ch, s')"
  shows "srv_inv s'"
proof -
  from assms(2) obtain cm where cm: "srv_connMgr s = Some cm"
    by (auto simp: GetConnectionNotifyChan_def)
  obtain ch' cm1 h1 where "cm_getNotifyChan cm (srv_chans s) = (ch', cm1, h1)"
    by (cases "cm_getNotifyChan cm (srv_chans s)")
  with assms(2) cm have g: "cm_getNotifyChan cm (srv_chans s) = (ch, cm1, h1)"
    and s': "s' = s\<lparr>srv_connMgr := Some cm1, srv_chans := h1\<rparr>"
    by (auto simp: GetConnectionNotifyChan_def)
  from assms(1) cm have ok: "cm_ok cm (srv_chans s)" "wf_map (cm_conns cm)" "conns_ok (srv_trs s) (cm_conns cm)"
    by (simp_all add: srv_inv_def inv_conns_def)
  from cm.get_chan_live [OF ok(1) g] ok assms(1) cm show ?thesis
    unfolding s' by (intro conns_srv_inv) simp_all
qed

text \<open>\<open>Stop\<close>.\<close>

lemma Fire_Ret:
  assumes "wf_event e"
  shows "\<exists>b e'. Fire e = Ret (b, e') \<and> wf_event e' \<and> HasFired e'"
  by (rule Fire_wf [OF assms]) blast

lemma Stop_fire_inv:
  assumes "srv_inv s" "srv_stop s = ST_NotCalled"
  shows "\<exists>s'. Stop_fire s = Ret s' \<and> srv_inv s'"
proof -
  have "wf_event (srv_quit s)" using assms(1) by (simp add: srv_inv_def inv_stop_def)
  then obtain b q where q: "Fire (srv_quit s) = Ret (b, q)" "wf_event q" "HasFired q"
    using Fire_Ret by blast
  let ?s = "s\<lparr>srv_quit := q, srv_stop := ST_Fired\<rparr>"
  have "srv_inv ?s" using assms q by (auto simp: srv_inv_defs session_ok_def)
  with q show ?thesis by (simp add: Stop_fire_def)
qed

lemma Stop_take_inv:
  assumes "srv_inv s" "srv_stop s = ST_Fired" "\<not> read_locked s"
  shows "\<exists>s'. Stop_take s = Ret s' \<and> srv_inv s'"
proof -
  from assms(1,2) obtain cm where cm: "srv_connMgr s = Some cm" by (auto simp: srv_inv_def inv_stop_def)
  let ?s = "s\<lparr>srv_connMgr := None, srv_stop := ST_Closing (cm_conns cm)\<rparr>"
  have "session_ok ?s se" if "se \<in> set (srv_sessions s)" for se
  proof -
    from that assms(3) have "\<forall>i. se_pc se \<noteq> WS_Created i"
      by (auto simp: read_locked_def list_ex_iff split: session_pc.splits)
    with that assms(1) show ?thesis by (cases "se_pc se") (auto simp: srv_inv_def session_ok_def)
  qed
  then have "srv_inv ?s" using assms(1,2) cm
    by (auto simp: srv_inv_def inv_conns_def inv_wg_def inv_stop_def cm.live_def)
  with cm show ?thesis by (simp add: Stop_take_def)
qed

lemma Stop_close_inv:
  assumes "srv_inv s" "Stop_close s = Some r"
  shows "\<exists>s'. r = Ret s' \<and> srv_inv s'"
proof -
  from assms(2) obtain conns where st: "srv_stop s = ST_Closing conns"
    by (auto simp: Stop_close_def split: stop_pc.splits)
  have none: "srv_connMgr s = None" using assms(1) st by (simp add: srv_inv_def inv_stop_def)
  have stop: "srv_inv (x\<lparr>srv_stop := st'\<rparr>)"
    if "srv_inv x" "srv_stop x = ST_Closing conns" "\<forall>c. st' = ST_Closing c \<longrightarrow> conns_ok (srv_trs x) c"
      "st' = ST_Waiting \<or> (\<exists>c. st' = ST_Closing c)" for x :: "('a, 'b) Server" and st'
    using that by (auto simp: srv_inv_defs session_ok_def)
  show ?thesis
  proof (cases conns)
    case Nil
    with assms st stop [OF assms(1) st, of ST_Waiting] show ?thesis by (auto simp: Stop_close_def)
  next
    case (Cons c cs)
    obtain k i where c: "c = (k, i)" by (cases c)
    have ok: "conns_ok (srv_trs s) conns" using assms(1) st by (simp add: srv_inv_def inv_conns_def)
    then have i: "i < length (srv_trs s)" using Cons c by (simp add: conns_ok_def)
    obtain tr where cl: "close_tr i s = Ret (s\<lparr>srv_trs := (srv_trs s)[i := (srv_trs s ! i)\<lparr>st_tr := tr\<rparr>]\<rparr>)"
      "srv_inv (s\<lparr>srv_trs := (srv_trs s)[i := (srv_trs s ! i)\<lparr>st_tr := tr\<rparr>]\<rparr>)"
      by (rule close_tr_inv [OF assms(1) i])
    let ?s = "s\<lparr>srv_trs := (srv_trs s)[i := (srv_trs s ! i)\<lparr>st_tr := tr\<rparr>]\<rparr>"
    have "conns_ok (srv_trs s) cs" using ok Cons by (simp add: conns_ok_def)
    then have "conns_ok (srv_trs ?s) cs" by (simp add: conns_ok_update)
    with stop [OF cl(2), of "ST_Closing cs"] st have "srv_inv (?s\<lparr>srv_stop := ST_Closing cs\<rparr>)" by simp
    with assms(2) st Cons c cl(1) show ?thesis by (auto simp: Stop_close_def)
  qed
qed

lemma Stop_wait_inv:
  assumes "srv_inv s" "Stop_wait s = Some r"
  shows "\<exists>s'. r = Ret s' \<and> srv_inv s'"
proof -
  have "wf_event (srv_done s)" using assms(1) by (simp add: srv_inv_def inv_stop_def)
  then obtain b d where d: "Fire (srv_done s) = Ret (b, d)" "wf_event d" "HasFired d"
    using Fire_Ret by blast
  from assms(2) have st: "srv_stop s = ST_Waiting" "srv_serveWG s = 0" by (auto simp: Stop_wait_def split: if_splits)
  let ?s = "s\<lparr>srv_done := d, srv_stop := ST_Returned\<rparr>"
  have "srv_inv ?s" using assms(1) st d by (auto simp: srv_inv_defs session_ok_def)
  with assms(2) st d show ?thesis by (auto simp: Stop_wait_def)
qed

lemma srv_step_inv:
  assumes "srv_inv s" "srv_step e s = Some (Ret s')"
  shows "srv_inv s'"
proof (cases e)
  case (SV_Register n)
  with assms(2) obtain i where "session_pc_of s n = Some (WS_Created i)"
    by (auto simp: wshandler_register_def split: option.splits session_pc.splits)
  from wshandler_register_inv [OF assms(1) this] assms(2) SV_Register show ?thesis by auto
next
  case (SV_Transport i ev)
  with assms srv_transport_event_inv show ?thesis by fastforce
next
  case SV_StopFire
  with assms Stop_fire_inv show ?thesis by (fastforce split: if_splits)
next
  case SV_StopTake
  with assms Stop_take_inv show ?thesis by (fastforce split: if_splits)
next
  case SV_StopClose
  with assms Stop_close_inv show ?thesis by fastforce
next
  case SV_StopWait
  with assms Stop_wait_inv show ?thesis by fastforce
next
  case (SV_UpdateKeys keys)
  with assms show ?thesis by (auto split: if_splits intro: UpdatePublicKeys_inv)
next
  case SV_Watch
  with assms show ?thesis by (auto intro: watch_inv)
qed (use assms in \<open>auto intro: wshandler_inv wshandler_create_inv\<close>)

lemma srv_reachable_inv: "srv_reachable s \<Longrightarrow> srv_inv s"
proof (induction rule: srv_reachable.induct)
  case (srv_init h opt st)
  then show ?case by (rule srv_inv_init)
next
  case (srv_next s e s')
  then show ?case by (blast intro: srv_step_inv)
next
  case (srv_serve s sd ss)
  then show ?case by (auto simp: srv_inv_defs session_ok_def Server_register_def)
qed

text \<open>The only steps that can panic: uses of a stopped server, missing credentials, no certificate.\<close>

definition api_misuse :: "srv_event \<Rightarrow> ('i, 'p) Server \<Rightarrow> bool" where
  "api_misuse e s =
     (case e of
        SV_Request certs \<Rightarrow> certs = []
      | SV_Check n \<Rightarrow> srv_connMgr s = None
      | SV_UpdateKeys keys \<Rightarrow> srv_connMgr s = None \<or> creds_public_keys (so_creds (srv_opts s)) = None
      | SV_Watch \<Rightarrow> srv_connMgr s = None
      | _ \<Rightarrow> False)"

lemma ensure_no_panic: "srv_connMgr s = Some cm \<Longrightarrow> ensureSingleClientConnection cert s \<noteq> Panic p"
  by (auto simp: ensureSingleClientConnection_def split: sum.split)

lemma srv_step_panic:
  assumes "srv_inv s" "srv_step e s = Some (Panic p)"
  shows "api_misuse e s"
proof (cases e)
  case (SV_Request certs)
  with assms(2) show ?thesis by (auto simp: wshandler_enter_def api_misuse_def split: if_splits list.splits)
next
  case (SV_Check n)
  show ?thesis
  proof (cases "srv_connMgr s")
    case (Some cm)
    have "go_bind (ensureSingleClientConnection cert s) (\<lambda>r. case r of Inl err \<Rightarrow> Ret (f err) | Inr k \<Rightarrow> Ret (g k)) \<noteq> Panic p"
      for cert and f g :: "_ \<Rightarrow> ('a, 'b) Server"
      using ensure_no_panic [OF Some, of cert] by (cases "ensureSingleClientConnection cert s") (auto split: sum.split)
    with assms(2) SV_Check show ?thesis by (auto simp: wshandler_check_def split: option.splits session_pc.splits)
  qed (simp add: api_misuse_def SV_Check)
next
  case (SV_Register n)
  with assms(2) obtain i where "session_pc_of s n = Some (WS_Created i)"
    by (auto simp: wshandler_register_def split: option.splits session_pc.splits)
  from wshandler_register_inv [OF assms(1) this] assms(2) SV_Register show ?thesis by auto
next
  case (SV_Transport i ev)
  with assms srv_transport_event_inv show ?thesis by fastforce
next
  case (SV_UpdateKeys keys)
  show ?thesis
  proof (rule ccontr)
    assume "\<not> api_misuse e s"
    then obtain cm r where ok: "srv_connMgr s = Some cm" "creds_public_keys (so_creds (srv_opts s)) = Some r"
      by (auto simp: api_misuse_def SV_UpdateKeys)
    show False
    proof (cases "\<forall>k \<in> set keys. is_static k")
      case True
      from UpdatePublicKeys_ok [OF assms(1) ok True] assms(2) SV_UpdateKeys show False by (auto split: if_splits)
    next
      case False
      then have "ValidPublicKeysFromEd25519 keys (srv_keys s) \<noteq> Inr x" for x
        by (cases x) (simp add: ValidPublicKeys_cases)
      then obtain e' where "ValidPublicKeysFromEd25519 keys (srv_keys s) = Inl e'"
        by (cases "ValidPublicKeysFromEd25519 keys (srv_keys s)") auto
      with assms(2) SV_UpdateKeys show False by (auto simp: UpdatePublicKeys_def split: if_splits)
    qed
  qed
next
  case SV_Watch
  show ?thesis
  proof (cases "srv_connMgr s")
    case (Some cm)
    with assms(2) SV_Watch show ?thesis
      by (cases "cm_getNotifyChan cm (srv_chans s)") (simp add: GetConnectionNotifyChan_def)
  qed (simp add: api_misuse_def SV_Watch)
next
  case SV_StopFire
  with assms Stop_fire_inv show ?thesis by (fastforce split: if_splits)
next
  case SV_StopTake
  with assms Stop_take_inv show ?thesis by (fastforce split: if_splits)
next
  case SV_StopClose
  with assms Stop_close_inv show ?thesis by fastforce
next
  case SV_StopWait
  with assms Stop_wait_inv show ?thesis by fastforce
qed (use assms(2) in auto)

abbreviation run_srv :: "srv_event list \<Rightarrow> ('i, 'p) Server \<Rightarrow> ('i, 'p) Server go option" where
  "run_srv \<equiv> run_steps srv_step"

lemma run_srv_reachable: "srv_reachable s \<Longrightarrow> run_srv es s = Some (Ret s') \<Longrightarrow> srv_reachable s'"
  by (erule run_steps_keeps [where P = srv_reachable]) (auto intro: srv_next)

subsection \<open>A concrete server\<close>

text \<open>A server that accepts two keys, and certificates for them.\<close>

definition demo_server :: "(unit, nat) Server" where
  "demo_server = NewServer [WithSigner (\<lambda>_ _. Inr []) (ExternalSigner 0) [key_of 1, key_of 2]]
     \<lparr>pk_next = 0, pk_keys = \<lambda>_. []\<rparr> empty_chans"

definition demo_cert :: "byte \<Rightarrow> x509_cert" where
  "demo_cert b = \<lparr>cert_alg = Ed25519, cert_public_key = Ed25519PublicKey (key_of b)\<rparr>"

lemma demo_cert_key [simp]: "PubKeyFromCert (demo_cert b) = Inr (key_of b)"
  by (simp add: PubKeyFromCert_def pubKeyFromCert_def demo_cert_def)

lemma length_key_of [simp]: "length (key_of b) = PublicKeySize"
  using is_static_key_of by (simp only: is_static_def)

definition demo_config :: tls_config where
  "demo_config = \<lparr>cfg_certificates = [\<lparr>tc_certificate = [[]], tc_private_key = ExternalSigner 0,
       tc_algorithms = [SignatureEd25519]\<rparr>],
     cfg_insecure_skip_verify = True, cfg_max_version = VersionTLS13, cfg_min_version = VersionTLS13,
     cfg_verify_peer = 0, cfg_client_auth = RequireAnyClientCert\<rparr>"

lemma demo_server_eq:
  "demo_server = \<lparr>srv_opts = defaultServerOptions\<lparr>so_creds := NewTLS demo_config 0\<rparr>,
     srv_connMgr = Some newConnectionsManager, srv_service = None, srv_methodCalls = NewMethodCalls,
     srv_quit = NewEvent, srv_done = NewEvent, srv_serveWG = 0, srv_trs = [], srv_sessions = [],
     srv_stop = ST_NotCalled, srv_keys = \<lparr>pk_next = 1, pk_keys = (\<lambda>_. [])(0 := [key_of 1, key_of 2])\<rparr>,
     srv_chans = empty_chans\<rparr>"
  by (simp add: demo_server_def NewServer_def apply_server_options_def WithSigner_def ValidPublicKeys_cases
      ValidPublicKeysFromEd25519_def NewServerTLSSigner_def newMutualTLSConfig_def newMinimalX509Cert_def demo_config_def)

lemmas srv_run_defs = wshandler_enter_def wshandler_check_def wshandler_upgrade_def wshandler_create_def
  wshandler_register_def wshandler_leave_def session_pc_of_def set_session_def ensureSingleClientConnection_def
  getTransport_def registerConnection_def removeConnection_def notify_watchers_def newConnectionsManager_def
  srv_transport_event_def server_step_simps NewServerTransport_def newWebsocketServer_def newWebsocketServerWithConfig_def
  WebsocketServer_start_def transport_config_def WebsocketServer_Close_def afterWritePump_srv_def close_tr_def Let_def
  NewEvent_def HasFired_def Done_def Fire_def read_locked_def Stop_fire_def Stop_take_def Stop_close_def Stop_wait_def
  GetConnectedPeerPublicKeys_def getConnectionPublicKeys_def OpenConnections_def

lemma demo_reachable: "run_srv es demo_server = Some (Ret s) \<Longrightarrow> srv_reachable s"
  by (rule run_srv_reachable [of demo_server])
    (simp_all only: demo_server_def srv_init wf_empty_chans)

end
