(* ===== verification/ServerProps.thy ===== *)
theory ServerProps
  imports Server
begin

text \<open>
  What holds of the connections of a server in every reachable state, and four interleavings in
  which the code does less than it should.
\<close>

lemma running_filter: "running trs = length (filter (\<lambda>t. \<not> st_done t) trs)"
  by (induction trs) (auto simp: running_def)


definition serve_one :: "byte \<Rightarrow> nat \<Rightarrow> srv_event list" where
  "serve_one b n = [SV_Request [demo_cert b], SV_Check n, SV_Upgrade n True, SV_Create n, SV_Register n]"


text \<open>After \<open>Stop\<close> no step makes a transport.\<close>

lemma stopped_step:
  assumes "srv_connMgr s = None" "srv_stop s = ST_Returned" "srv_step e s = Some (Ret s')"
  shows "length (srv_trs s') = length (srv_trs s) \<and> srv_stop s' = ST_Returned"
proof (cases e)
  case (SV_Transport i ev)
  with assms show ?thesis
    by (auto simp: srv_transport_event_def afterWritePump_srv_def Let_def split: if_splits option.splits go.splits)
next
  case (SV_Check n)
  with assms show ?thesis
    by (auto simp: wshandler_check_def ensureSingleClientConnection_def set_session_def
        split: option.splits session_pc.splits sum.splits)
qed (use assms in \<open>auto simp: wshandler_enter_def wshandler_upgrade_def wshandler_create_def
    wshandler_register_def wshandler_leave_def set_session_def UpdatePublicKeys_def removeConnectionsToDeletedKeys_def
    GetConnectionNotifyChan_def Stop_close_def Stop_wait_def
    split: if_splits list.splits option.splits session_pc.splits sum.splits\<close>)

text \<open>
  C16.  \<open>Stop\<close> is complete.  When it returns, the write pump of every transport the server ever
  created has ended and \<open>done\<close> has fired, and from then on no handler creates a transport.
\<close>

theorem stop_waits_for_all:
  assumes "srv_reachable s" "srv_stop s = ST_Returned" "srv_step e s = Some (Ret s')"
  shows "(\<forall>t \<in> set (srv_trs s). tr_writePump (st_tr t) = WP_Done) \<and> HasFired (srv_done s)
    \<and> length (srv_trs s') = length (srv_trs s) \<and> srv_stop s' = ST_Returned"
proof -
  have inv: "srv_inv s" by (rule srv_reachable_inv [OF assms(1)])
  have none: "srv_connMgr s = None" using inv assms(2) by (simp add: srv_inv_def inv_stop_def)
  have "running (srv_trs s) = 0" using inv assms(2) by (simp add: srv_inv_def inv_stop_def inv_wg_def)
  then have d: "\<forall>t \<in> set (srv_trs s). tr_writePump (st_tr t) = WP_Done"
    using inv by (auto simp: running_0 srv_inv_def inv_wg_def st_ok_def)
  with inv assms(2) stopped_step [OF none assms(2,3)] show ?thesis by (simp add: srv_inv_def inv_stop_def)
qed

definition stop_run :: "srv_event list" where
  "stop_run = serve_one 1 0 @ [SV_StopFire, SV_Leave 0, SV_StopTake, SV_StopClose, SV_StopClose,
     SV_Transport 0 (SeesCloseConn True), SV_Transport 0 CloseWaitOver, SV_Transport 0 PumpExits, SV_StopWait]"

theorem stop_waits_for_all_witness:
  "\<exists>s s'. run_srv stop_run demo_server = Some (Ret s) \<and> srv_stop s = ST_Returned
     \<and> srv_step (SV_Request [demo_cert 2]) s = Some (Ret s') \<and> length (srv_trs s') = length (srv_trs s)
     \<and> length (srv_trs s) = 1 \<and> (\<forall>t \<in> set (srv_trs s). tr_writePump (st_tr t) = WP_Done)"
proof -
  obtain s where r: "run_srv stop_run demo_server = Some (Ret s)" "srv_stop s = ST_Returned"
    "length (srv_trs s) = 1" and f: "HasFired (srv_quit s)"
    by (simp add: stop_run_def serve_one_def demo_server_eq srv_run_defs)
  have reach: "srv_reachable s" by (rule demo_reachable [OF r(1)])
  have st: "srv_step (SV_Request [demo_cert 2]) s = Some (Ret s)" using f by (simp add: wshandler_enter_def)
  from stop_waits_for_all [OF reach r(2) st] r st show ?thesis by blast
qed



subsection \<open>Interleavings the code does not expect\<close>

definition double_run :: "srv_event list" where
  "double_run = [SV_Request [demo_cert 1], SV_Request [demo_cert 1], SV_Check 0, SV_Check 1,
     SV_Upgrade 0 True, SV_Upgrade 1 True, SV_Create 0, SV_Register 0, SV_Create 1, SV_Register 1]"

text \<open>
  \<open>ensureSingleClientConnection\<close> does not ensure a single connection per client.  The
  check and the registration are not one step: two handshakes with the same key can both pass
  the check, both get a transport, and when the first of them ends its callback removes the
  entry of the second, which is still running and can no longer be reached or closed by
  \<open>UpdatePublicKeys\<close> and \<open>Stop\<close>.
\<close>

lemma two_connections_one_key:
  "\<exists>s s'. run_srv double_run demo_server = Some (Ret s)
     \<and> map st_key (srv_trs s) = [key_of 1, key_of 1]
     \<and> map (tr_writePump \<circ> st_tr) (srv_trs s) = [WP_Select, WP_Select]
     \<and> run_srv [SV_Transport 0 ReadFails, SV_Transport 0 SeesCloseWritePump, SV_Transport 0 PumpExits] s = Some (Ret s')
     \<and> GetConnectedPeerPublicKeys s' = Ret [] \<and> tr_writePump (st_tr (srv_trs s' ! 1)) = WP_Select"
  by (simp add: double_run_def demo_server_eq srv_run_defs)

definition revoked_run :: "srv_event list" where
  "revoked_run = [SV_Request [demo_cert 1], SV_Check 0, SV_UpdateKeys [key_of 2], SV_Upgrade 0 True,
     SV_Create 0, SV_Register 0]"

text \<open>
  A key that \<open>UpdatePublicKeys\<close> has removed can still be connected afterwards: a handshake
  that was verified before the update registers its connection after it, and nothing checks the
  key again.
\<close>

lemma revoked_key_connects:
  "\<exists>s. run_srv revoked_run demo_server = Some (Ret s)
     \<and> GetConnectedPeerPublicKeys s = Ret [key_of 1] \<and> PublicKeys_Keys (srv_keys s) 0 = [key_of 2]
     \<and> tr_writePump (st_tr (srv_trs s ! 0)) = WP_Select"
  by (simp add: revoked_run_def demo_server_eq srv_run_defs UpdatePublicKeys_def ValidPublicKeysFromEd25519_def
      removeConnectionsToDeletedKeys_def PublicKeys_Replace_def PublicKeys_Keys_def NewTLS_def)

definition stale_run :: "srv_event list" where
  "stale_run = [SV_Request [demo_cert 1], SV_Check 0, SV_Upgrade 0 True, SV_Create 0,
     SV_Transport 0 ReadFails, SV_Transport 0 SeesCloseWritePump, SV_Transport 0 PumpExits,
     SV_Register 0, SV_Leave 0]"

text \<open>
  A connection that breaks before it is registered locks its client out.  \<open>wshandler\<close>
  holds \<open>s.mu\<close> for reading only while it creates and registers a transport, so the callback of
  the new transport can remove the entry before it is made: the dead transport stays registered,
  its handler returns, and every later connection of the client is refused as a second one.
\<close>

lemma early_drop_locks_client_out:
  "\<exists>s. run_srv stale_run demo_server = Some (Ret s)
     \<and> GetConnectedPeerPublicKeys s = Ret [key_of 1] \<and> srv_serveWG s = 0
     \<and> map (tr_writePump \<circ> st_tr) (srv_trs s) = [WP_Done] \<and> map se_pc (srv_sessions s) = [WS_Returned]
     \<and> ensureSingleClientConnection (demo_cert 1) s = Ret (Inl (New ''only one connection allowed per client''))"
  by (simp add: stale_run_def demo_server_eq srv_run_defs)


end
