(* ===== verification/Serve.thy ===== *)
theory Serve
  imports ServerProps
begin

text \<open>
  \<open>Server.Serve\<close>: the HTTP servers of the health check and of the websockets, and the server of
  the theory \<open>Server\<close> behind them.  \<open>net/http\<close> and \<open>crypto/tls\<close> are the standard library: a
  client that connects is handed to \<open>wshandler\<close> only after a handshake under the TLS
  configuration of the websocket server, and may send its requests any time later; a server whose
  configuration has no certificate accepts nobody, because \<open>ServeTLS\<close> is called without files.
  \<open>net.Listen\<close> is the parameter \<open>listen\<close>, \<open>x509.ParseCertificate\<close> the parameter \<open>parse\<close>.
\<close>

subsection \<open>State\<close>

datatype http_handler = HealthzHandler | WsHandler

record http_server =
  hs_Handler :: http_handler
  hs_TLSConfig :: "tls_config option"
  hs_ReadTimeout :: duration
  hs_open :: bool

datatype serve_pc = SE_NotCalled | SE_Waiting | SE_Returned

text \<open>\<open>sv_handshakes\<close>: the peer certificates of the clients that have passed the handshake.\<close>

record ('i, 'p) serving =
  sv_server :: "('i, 'p) Server"
  sv_pc :: serve_pc
  sv_healthcheck :: "http_server option"
  sv_wssrv :: "http_server option"
  sv_handshakes :: "x509_cert list list"

definition not_serving :: "('i, 'p) Server \<Rightarrow> ('i, 'p) serving" where
  "not_serving s = \<lparr>sv_server = s, sv_pc = SE_NotCalled, sv_healthcheck = None, sv_wssrv = None, sv_handshakes = []\<rparr>"

subsection \<open>Operations\<close>

definition Serve_healthcheck :: "(string \<Rightarrow> unit res) \<Rightarrow> serverOptions \<Rightarrow> http_server option go" where
  "Serve_healthcheck listen opts =
     (if so_healthcheckAddr opts \<noteq> []
      then case listen (so_healthcheckAddr opts) of
             Inl err \<Rightarrow> Panic (PanicWith err)
           | Inr hclis \<Rightarrow> Ret (Some \<lparr>hs_Handler = HealthzHandler, hs_TLSConfig = None,
               hs_ReadTimeout = so_healthcheckTimeout opts, hs_open = True\<rparr>)
      else Ret None)"

definition Serve_start :: "(string \<Rightarrow> unit res) \<Rightarrow> ('i, 'p) serving \<Rightarrow> ('i, 'p) serving go" where
  "Serve_start listen sv =
     (let opts = srv_opts (sv_server sv)
      in go_bind (Serve_healthcheck listen opts) (\<lambda>hcsrv.
           let wssrv = \<lparr>hs_Handler = WsHandler, hs_TLSConfig = creds_config (so_creds opts),
                 hs_ReadTimeout = so_wsTimeout opts, hs_open = True\<rparr>
           in Ret (sv\<lparr>sv_healthcheck := hcsrv, sv_wssrv := Some wssrv, sv_pc := SE_Waiting\<rparr>)))"

definition http_Close :: "http_server \<Rightarrow> http_server" where
  "http_Close hs = hs\<lparr>hs_open := False\<rparr>"

text \<open>The receive from \<open>s.done\<close>, and the deferred calls.\<close>

definition Serve_return :: "('i, 'p) serving \<Rightarrow> ('i, 'p) serving option" where
  "Serve_return sv =
     (if sv_pc sv = SE_Waiting \<and> Done (srv_done (sv_server sv))
      then Some (sv\<lparr>sv_wssrv := map_option http_Close (sv_wssrv sv),
                    sv_healthcheck := map_option http_Close (sv_healthcheck sv), sv_pc := SE_Returned\<rparr>)
      else None)"

text \<open>A handshake of \<open>crypto/tls\<close>: the certificates of the peer, when it succeeds.\<close>

definition handshake ::
  "(bytes \<Rightarrow> x509_cert res) \<Rightarrow> pk_store \<Rightarrow> tls_config \<Rightarrow> bytes list \<Rightarrow> x509_cert list option"
where
  "handshake parse st cfg rawCerts =
     (if cfg_certificates cfg = [] then None
      else case cfg_client_auth cfg of
             NoClientCert \<Rightarrow> Some []
           | RequireAnyClientCert \<Rightarrow>
               (case VerifyPeerCertificate parse st (cfg_verify_peer cfg) rawCerts of
                  Inl err \<Rightarrow> None
                | Inr _ \<Rightarrow> Some (List.map_filter (\<lambda>raw. case parse raw of Inl err \<Rightarrow> None | Inr cert \<Rightarrow> Some cert) rawCerts)))"

definition accept_client :: "(bytes \<Rightarrow> x509_cert res) \<Rightarrow> bytes list \<Rightarrow> ('i, 'p) serving \<Rightarrow> ('i, 'p) serving option" where
  "accept_client parse rawCerts sv =
     (case sv_wssrv sv of
        None \<Rightarrow> None
      | Some hs \<Rightarrow>
          if \<not> hs_open hs then None
          else case hs_TLSConfig hs of
                 None \<Rightarrow> None
               | Some cfg \<Rightarrow>
                   (case handshake parse (srv_keys (sv_server sv)) cfg rawCerts of
                      None \<Rightarrow> None
                    | Some certs \<Rightarrow> Some (sv\<lparr>sv_handshakes := sv_handshakes sv @ [certs]\<rparr>)))"

subsection \<open>The step relation\<close>

datatype serve_event =
    SE_Start "string \<Rightarrow> unit res"
  | SE_Handshake "bytes \<Rightarrow> x509_cert res" "bytes list"
  | SE_Request nat
  | SE_Server srv_event
  | SE_Return

definition is_request :: "srv_event \<Rightarrow> bool" where
  "is_request e = (case e of SV_Request _ \<Rightarrow> True | _ \<Rightarrow> False)"

definition on_server :: "srv_event \<Rightarrow> ('i, 'p) serving \<Rightarrow> ('i, 'p) serving go option" where
  "on_server e sv =
     map_option (\<lambda>r. go_bind r (\<lambda>s. Ret (sv\<lparr>sv_server := s\<rparr>))) (srv_step e (sv_server sv))"

primrec serve_step :: "serve_event \<Rightarrow> ('i, 'p) serving \<Rightarrow> ('i, 'p) serving go option" where
  "serve_step (SE_Start listen) sv = (if sv_pc sv = SE_NotCalled then Some (Serve_start listen sv) else None)"
| "serve_step (SE_Handshake parse rawCerts) sv = map_option Ret (accept_client parse rawCerts sv)"
| "serve_step (SE_Request n) sv =
     (if n < length (sv_handshakes sv) then on_server (SV_Request (sv_handshakes sv ! n)) sv else None)"
| "serve_step (SE_Server e) sv = (if is_request e then None else on_server e sv)"
| "serve_step SE_Return sv = map_option Ret (Serve_return sv)"

text \<open>The key list in force, and the key lists that were in force on the way to a state.\<close>

definition allowed :: "('i, 'p) Server \<Rightarrow> bytes set" where
  "allowed s = (case creds_public_keys (so_creds (srv_opts s)) of
     None \<Rightarrow> {} | Some r \<Rightarrow> set (PublicKeys_Keys (srv_keys s) r))"

text \<open>The options the library offers, which are the only ones: \<open>apply\<close> is not exported.\<close>

inductive library_option :: "ServerOption \<Rightarrow> bool" where
  "library_option (WithHTTPReadTimeout hctime wstime)"
| "library_option (WithWSReadLimit n)"
| "library_option (WithCreds create privKey pubKeys)"
| "library_option (WithSigner create signer pubKeys)"
| "library_option (WriteBufferSize n)"
| "library_option (ReadBufferSize n)"
| "library_option (WithHealthcheck addr)"

inductive serve_reachable :: "bytes set \<Rightarrow> ('i, 'p) serving \<Rightarrow> bool" where
  serve_init: "wf_chans h \<Longrightarrow> \<forall>opt \<in> set opts. library_option opt \<Longrightarrow>
    s = NewServer opts st h \<Longrightarrow> serve_reachable (allowed s) (not_serving s)"
| serve_next: "serve_reachable K sv \<Longrightarrow> serve_step e sv = Some (Ret sv') \<Longrightarrow>
    serve_reachable (K \<union> allowed (sv_server sv')) sv'"
| serve_register: "serve_reachable K sv \<Longrightarrow>
    serve_reachable K (sv\<lparr>sv_server := Server_register sd ss (sv_server sv)\<rparr>)"

text \<open>What a step is: the start, a handshake, a step of the server, the return.\<close>

lemma serve_step_cases [consumes 1, case_names start handshake server return]:
  assumes "serve_step e sv = Some (Ret sv')"
  obtains hcsrv wssrv where "sv' = sv\<lparr>sv_healthcheck := hcsrv, sv_wssrv := Some wssrv, sv_pc := SE_Waiting\<rparr>"
      "hs_TLSConfig wssrv = creds_config (so_creds (srv_opts (sv_server sv)))" "sv_pc sv = SE_NotCalled"
  | hs cfg parse rawCerts certs where "sv' = sv\<lparr>sv_handshakes := sv_handshakes sv @ [certs]\<rparr>"
      "sv_wssrv sv = Some hs" "hs_open hs" "hs_TLSConfig hs = Some cfg"
      "handshake parse (srv_keys (sv_server sv)) cfg rawCerts = Some certs"
  | e' s where "sv' = sv\<lparr>sv_server := s\<rparr>" "srv_step e' (sv_server sv) = Some (Ret s)"
      "\<forall>certs. e' = SV_Request certs \<longrightarrow> certs \<in> set (sv_handshakes sv)"
  | "Serve_return sv = Some sv'"
proof (cases e)
  case (SE_Start listen)
  with assms that(1) show ?thesis by (fastforce simp: Serve_start_def Let_def split: if_splits)
next
  case (SE_Handshake parse rawCerts)
  with assms that(2) show ?thesis by (auto simp: accept_client_def split: option.splits if_splits)
next
  case (SE_Request n)
  with assms have n: "n < length (sv_handshakes sv)" "on_server (SV_Request (sv_handshakes sv ! n)) sv = Some (Ret sv')"
    by (simp_all split: if_splits del: srv_step.simps)
  then obtain s where "srv_step (SV_Request (sv_handshakes sv ! n)) (sv_server sv) = Some (Ret s)" "sv' = sv\<lparr>sv_server := s\<rparr>"
    unfolding on_server_def by (auto simp del: srv_step.simps)
  with n(1) that(3) [of s "SV_Request (sv_handshakes sv ! n)"] show ?thesis by simp
next
  case (SE_Server e')
  with assms have "\<not> is_request e'" "on_server e' sv = Some (Ret sv')" by (simp_all split: if_splits)
  then obtain s where "srv_step e' (sv_server sv) = Some (Ret s)" "sv' = sv\<lparr>sv_server := s\<rparr>"
    unfolding on_server_def by auto
  moreover have "e' \<noteq> SV_Request certs" for certs
    using \<open>\<not> is_request e'\<close> by (auto simp: is_request_def)
  ultimately show ?thesis using that(3) [of s e'] by blast
next
  case SE_Return
  with assms that(4) show ?thesis by simp
qed

lemma Serve_return_server: "Serve_return sv = Some sv' \<Longrightarrow> sv_server sv' = sv_server sv"
  by (auto simp: Serve_return_def split: if_splits)

lemma serve_reachable_srv: "serve_reachable K sv \<Longrightarrow> srv_reachable (sv_server sv)"
proof (induction rule: serve_reachable.induct)
  case (serve_init h opts s st)
  then show ?case by (simp add: not_serving_def srv_init)
next
  case (serve_next K sv e sv')
  from serve_next.hyps(2) serve_next.IH show ?case
    by (cases rule: serve_step_cases) (simp_all add: srv_next Serve_return_server)
next
  case (serve_register K sv sd ss)
  then show ?case by (simp add: srv_serve)
qed

subsection \<open>Keys of connections\<close>

text \<open>
  \<open>Q\<close> holds of the certificate of every handler that has not looked at it yet, \<open>P\<close> of every key a
  handler or a transport has.
\<close>

definition session_keyed :: "(x509_cert \<Rightarrow> bool) \<Rightarrow> (static_key \<Rightarrow> bool) \<Rightarrow> session \<Rightarrow> bool" where
  "session_keyed Q P se = (case se_pc se of WS_Entered cert \<Rightarrow> Q cert | WS_Returned \<Rightarrow> True | _ \<Rightarrow> P (se_key se))"

definition keyed :: "(x509_cert \<Rightarrow> bool) \<Rightarrow> (static_key \<Rightarrow> bool) \<Rightarrow> ('i, 'p) Server \<Rightarrow> bool" where
  "keyed Q P s \<longleftrightarrow> (\<forall>se \<in> set (srv_sessions s). session_keyed Q P se) \<and> (\<forall>k \<in> set (map st_key (srv_trs s)). P k)"

lemma keyed_mono: "keyed Q P s \<Longrightarrow> (\<And>c. Q c \<Longrightarrow> Q' c) \<Longrightarrow> (\<And>k. P k \<Longrightarrow> P' k) \<Longrightarrow> keyed Q' P' s"
  by (auto simp: keyed_def session_keyed_def split: session_pc.splits)

lemma keyed_new: "keyed Q P (NewServer opts st h)"
  by (simp add: keyed_def NewServer_def split: prod.split)

lemma keyed_cong:
  "srv_sessions s' = srv_sessions s \<Longrightarrow> map st_key (srv_trs s') = map st_key (srv_trs s) \<Longrightarrow> keyed Q P s' = keyed Q P s"
  by (simp add: keyed_def del: set_map)

lemma keyed_set_session:
  assumes "keyed Q P s" "n < length (srv_sessions s)" "session_keyed Q P ((srv_sessions s ! n)\<lparr>se_pc := pc\<rparr>)"
  shows "keyed Q P (set_session n pc s)"
proof -
  have "\<forall>se \<in> set ((srv_sessions s)[n := (srv_sessions s ! n)\<lparr>se_pc := pc\<rparr>]). session_keyed Q P se"
    using assms by (intro ball_list_update) (simp_all add: keyed_def)
  with assms(1) show ?thesis by (simp add: keyed_def set_session_def)
qed

lemma close_tr_keys:
  "close_tr i s = Ret s' \<Longrightarrow> map st_key (srv_trs s') = map st_key (srv_trs s) \<and> srv_sessions s' = srv_sessions s"
  by (auto simp: close_tr_def map_update list_update_same_conv split: if_splits)

lemma drop_deleted_keys:
  "drop_deleted keys conns s = Ret s' \<Longrightarrow>
     map st_key (srv_trs s') = map st_key (srv_trs s) \<and> srv_sessions s' = srv_sessions s"
proof (induction keys conns s rule: drop_deleted.induct)
  case (2 keys k i conns s)
  then show ?case
    by (cases "k \<in> keys") (auto dest!: close_tr_keys)
qed simp

lemma ensureSingleClientConnection_key:
  assumes "ensureSingleClientConnection cert s = Ret (Inr k)"
  shows "PubKeyFromCert cert = Inr k"
proof (cases "PubKeyFromCert cert")
  case (Inr k')
  with assms obtain cm where "(case getTransport cm k' of
      Inr _ \<Rightarrow> Ret (Inl (New ''only one connection allowed per client'')) | Inl _ \<Rightarrow> Ret (Inr k')) = Ret (Inr k)"
    by (auto simp: ensureSingleClientConnection_def)
  with Inr show ?thesis by (cases "getTransport cm k'") auto
qed (use assms in \<open>simp add: ensureSingleClientConnection_def\<close>)

lemma keyed_session:
  "keyed Q P s \<Longrightarrow> n < length (srv_sessions s) \<Longrightarrow> session_keyed Q P (srv_sessions s ! n)"
  by (simp add: keyed_def)

lemma keyed_enter:
  "keyed Q P s \<Longrightarrow> \<forall>c \<in> set certs. Q c \<Longrightarrow> wshandler_enter certs s = Ret s' \<Longrightarrow> keyed Q P s'"
  by (auto simp: wshandler_enter_def keyed_def session_keyed_def split: if_splits list.splits)

lemma keyed_upgrade:
  assumes "keyed Q P s" "wshandler_upgrade n ok s = Some s'"
  shows "keyed Q P s'"
  using assms(2) keyed_session [OF assms(1), of n]
  by (auto simp: wshandler_upgrade_def session_pc_of_Some session_keyed_def
      intro!: keyed_set_session [OF assms(1)] split: if_splits)

lemma keyed_leave:
  assumes "keyed Q P s" "wshandler_leave n s = Some s'"
  shows "keyed Q P s'"
  using assms(2)
  by (auto simp: wshandler_leave_def session_pc_of_Some session_keyed_def
      intro!: keyed_set_session [OF assms(1)] split: if_splits option.splits session_pc.splits)

lemma keyed_register:
  assumes "keyed Q P s" "wshandler_register n s = Some (Ret s')"
  shows "keyed Q P s'"
proof -
  from assms(2) obtain i cm h where n: "n < length (srv_sessions s)" "se_pc (srv_sessions s ! n) = WS_Created i"
    and s': "s' = (set_session n (WS_Serving i) s)\<lparr>srv_connMgr := Some cm, srv_chans := h\<rparr>"
    by (auto simp: wshandler_register_def session_pc_of_Some split: option.splits session_pc.splits)
  have "keyed Q P (set_session n (WS_Serving i) s)"
    using keyed_session [OF assms(1) n(1)] n by (intro keyed_set_session [OF assms(1)]) (simp_all add: session_keyed_def)
  then show ?thesis unfolding s' by (rule keyed_cong [THEN iffD2, rotated 2]) simp_all
qed

lemma keyed_create:
  assumes "keyed Q P s" "wshandler_create n s = Some s'"
  shows "keyed Q P s'"
proof -
  from assms(2) have n: "n < length (srv_sessions s)" "se_pc (srv_sessions s ! n) = WS_Upgraded"
    by (auto simp: wshandler_create_def session_pc_of_Some split: if_splits)
  note old = keyed_session [OF assms(1) n(1)]
  have set: "keyed Q P (set_session n pc s)" if "pc \<in> {WS_Returned, WS_Created (length (srv_trs s))}" for pc
    using old n that by (intro keyed_set_session [OF assms(1)]) (auto simp: session_keyed_def)
  from old n(2) have "P (se_key (srv_sessions s ! n))" by (simp add: session_keyed_def)
  with assms(2) show ?thesis
    using set [of WS_Returned] set [of "WS_Created (length (srv_trs s))"]
    by (auto simp: wshandler_create_def keyed_def set_session_def Let_def split: if_splits option.splits)
qed

lemma keyed_check:
  assumes "keyed Q P s" "\<And>cert k. Q cert \<Longrightarrow> PubKeyFromCert cert = Inr k \<Longrightarrow> P k" "wshandler_check n s = Some (Ret s')"
  shows "keyed Q P s'"
proof -
  from assms(3) obtain cert r where n: "n < length (srv_sessions s)" "se_pc (srv_sessions s ! n) = WS_Entered cert"
    and r: "ensureSingleClientConnection cert s = Ret r"
    and s': "(case r of Inl err \<Rightarrow> Ret (set_session n WS_Returned s)
        | Inr pubKey \<Rightarrow> Ret (s\<lparr>srv_sessions := (srv_sessions s)[n := \<lparr>se_key = pubKey, se_pc = WS_Checked\<rparr>]\<rparr>)) = Ret s'"
    by (auto simp: wshandler_check_def session_pc_of_Some split: option.splits session_pc.splits)
  show ?thesis
  proof (cases r)
    case (Inl err)
    with n s' show ?thesis by (auto intro!: keyed_set_session [OF assms(1)] simp: session_keyed_def)
  next
    case (Inr k)
    with r have "PubKeyFromCert cert = Inr k" by (simp add: ensureSingleClientConnection_key)
    moreover have "Q cert" using keyed_session [OF assms(1) n(1)] n(2) by (simp add: session_keyed_def)
    ultimately have "P k" by (rule assms(2) [rotated])
    then have "\<forall>se \<in> set ((srv_sessions s)[n := \<lparr>se_key = k, se_pc = WS_Checked\<rparr>]). session_keyed Q P se"
      using assms(1) by (intro ball_list_update) (simp_all add: keyed_def session_keyed_def)
    then show ?thesis using assms(1) s' Inr by (auto simp: keyed_def)
  qed
qed

lemma afterWritePump_srv_keys:
  "afterWritePump_srv i s = Ret s' \<Longrightarrow> i < length (srv_trs s) \<Longrightarrow>
     map st_key (srv_trs s') = map st_key (srv_trs s) \<and> srv_sessions s' = srv_sessions s
     \<and> srv_keys s' = srv_keys s \<and> srv_opts s' = srv_opts s"
  by (auto simp: afterWritePump_srv_def Let_def map_update list_update_same_conv split: if_splits option.splits)

lemma srv_transport_event_keys:
  assumes "srv_transport_event i ev s = Some (Ret s')"
  shows "map st_key (srv_trs s') = map st_key (srv_trs s) \<and> srv_sessions s' = srv_sessions s
     \<and> srv_keys s' = srv_keys s \<and> srv_opts s' = srv_opts s"
proof -
  from assms obtain tr where i: "i < length (srv_trs s)"
    and c: "(if ev = PumpExits then afterWritePump_srv i (s\<lparr>srv_trs := (srv_trs s)[i := (srv_trs s ! i)\<lparr>st_tr := tr\<rparr>]\<rparr>)
      else Ret (s\<lparr>srv_trs := (srv_trs s)[i := (srv_trs s ! i)\<lparr>st_tr := tr\<rparr>]\<rparr>)) = Ret s'"
    by (auto simp: srv_transport_event_def Let_def split: if_splits option.splits go.splits)
  have k: "map st_key ((srv_trs s)[i := (srv_trs s ! i)\<lparr>st_tr := tr\<rparr>]) = map st_key (srv_trs s)"
    using i by (simp add: map_update list_update_same_conv)
  from c i k afterWritePump_srv_keys [of i "s\<lparr>srv_trs := (srv_trs s)[i := (srv_trs s ! i)\<lparr>st_tr := tr\<rparr>]\<rparr>" s'] show ?thesis
    by (auto split: if_splits)
qed

lemma UpdatePublicKeys_sessions:
  "UpdatePublicKeys keys s = Ret (r, s') \<Longrightarrow>
     map st_key (srv_trs s') = map st_key (srv_trs s) \<and> srv_sessions s' = srv_sessions s"
  by (auto simp: UpdatePublicKeys_def removeConnectionsToDeletedKeys_def dest!: drop_deleted_keys
      split: sum.splits prod.splits)

lemma keyed_step:
  assumes "keyed Q P s" "\<And>cert k. Q cert \<Longrightarrow> PubKeyFromCert cert = Inr k \<Longrightarrow> P k"
    and "srv_step e s = Some (Ret s')" "\<forall>certs. e = SV_Request certs \<longrightarrow> (\<forall>c \<in> set certs. Q c)"
  shows "keyed Q P s'"
proof (cases e)
  case (SV_Transport i ev)
  with assms(1,3) show ?thesis by (auto dest!: srv_transport_event_keys intro: keyed_cong [THEN iffD2])
next
  case (SV_UpdateKeys keys)
  with assms(1,3) show ?thesis
    by (auto dest!: UpdatePublicKeys_sessions intro: keyed_cong [THEN iffD2] split: if_splits)
next
  case SV_Watch
  with assms(3) obtain cm where "(case cm_getNotifyChan cm (srv_chans s) of (ch, cm1, h1) \<Rightarrow>
      Ret (s\<lparr>srv_connMgr := Some cm1, srv_chans := h1\<rparr>)) = Ret s'"
    by (auto simp: GetConnectionNotifyChan_def split_beta)
  then have "srv_sessions s' = srv_sessions s \<and> srv_trs s' = srv_trs s" by (auto simp: split_beta)
  with assms(1) show ?thesis by (simp add: keyed_def)
next
  case SV_StopClose
  with assms(3) have "map st_key (srv_trs s') = map st_key (srv_trs s) \<and> srv_sessions s' = srv_sessions s"
    by (auto simp: Stop_close_def dest!: close_tr_keys split: stop_pc.splits list.splits prod.splits)
  with assms(1) show ?thesis by (auto intro: keyed_cong [THEN iffD2])
qed (use assms(3,4) assms(1) keyed_enter [OF assms(1)] keyed_upgrade [OF assms(1)] keyed_leave [OF assms(1)]
    keyed_register [OF assms(1)] keyed_create [OF assms(1)] keyed_check [OF assms(1,2)] in
    \<open>auto simp: Stop_fire_def Stop_take_def Stop_wait_def keyed_def split: if_splits\<close>)

text \<open>Only \<open>UpdatePublicKeys\<close> changes the key list, and no step the options.\<close>

lemma handler_config:
  "wshandler_enter certs s = Ret s' \<Longrightarrow> srv_opts s' = srv_opts s \<and> srv_keys s' = srv_keys s"
  "wshandler_upgrade n ok s = Some s' \<Longrightarrow> srv_opts s' = srv_opts s \<and> srv_keys s' = srv_keys s"
  "wshandler_create n s = Some s' \<Longrightarrow> srv_opts s' = srv_opts s \<and> srv_keys s' = srv_keys s"
  "wshandler_leave n s = Some s' \<Longrightarrow> srv_opts s' = srv_opts s \<and> srv_keys s' = srv_keys s"
  by (auto simp: wshandler_enter_def wshandler_upgrade_def wshandler_create_def wshandler_leave_def set_session_def
      Let_def split: if_splits list.splits option.splits session_pc.splits)

lemma check_config:
  assumes "wshandler_check n s = Some (Ret s')"
  shows "srv_opts s' = srv_opts s \<and> srv_keys s' = srv_keys s"
proof -
  from assms obtain r :: "static_key res" where "(case r of Inl err \<Rightarrow> Ret (set_session n WS_Returned s)
      | Inr pubKey \<Rightarrow> Ret (s\<lparr>srv_sessions := (srv_sessions s)[n := \<lparr>se_key = pubKey, se_pc = WS_Checked\<rparr>]\<rparr>)) = Ret s'"
    by (auto simp: wshandler_check_def split: option.splits session_pc.splits)
  then show ?thesis by (cases r) (auto simp: set_session_def)
qed

lemma close_tr_config: "close_tr i s = Ret s' \<Longrightarrow> srv_opts s' = srv_opts s \<and> srv_keys s' = srv_keys s"
  by (auto simp: close_tr_def split: if_splits)

lemma srv_step_config:
  assumes "srv_step e s = Some (Ret s')" "\<And>keys. e \<noteq> SV_UpdateKeys keys"
  shows "srv_opts s' = srv_opts s \<and> srv_keys s' = srv_keys s"
proof (cases e)
  case (SV_Transport i ev)
  with assms(1) show ?thesis by (auto dest: srv_transport_event_keys)
next
  case (SV_Register n)
  with assms(1) show ?thesis
    by (auto simp: wshandler_register_def set_session_def split: option.splits session_pc.splits)
next
  case SV_Watch
  with assms(1) show ?thesis by (auto simp: GetConnectionNotifyChan_def split_beta)
next
  case SV_StopClose
  with assms(1) show ?thesis
    by (auto simp: Stop_close_def dest!: close_tr_config split: stop_pc.splits list.splits prod.splits)
qed (use assms in
    \<open>auto simp: Stop_fire_def Stop_take_def Stop_wait_def dest!: handler_config check_config split: if_splits\<close>)

lemma update_keys_config:
  assumes "srv_inv s" "srv_step (SV_UpdateKeys keys) s = Some (Ret s')"
  shows "srv_opts s' = srv_opts s \<and> (srv_keys s' = srv_keys s
    \<or> (\<forall>k \<in> set keys. is_static k) \<and> (\<forall>r. creds_public_keys (so_creds (srv_opts s)) = Some r
          \<longrightarrow> PublicKeys_Keys (srv_keys s') r = keys))"
proof (cases "\<forall>k \<in> set keys. is_static k")
  case True
  from assms(2) obtain x where u: "UpdatePublicKeys keys s = Ret (x, s')" by (auto split: if_splits)
  have "check_key_lengths keys = None" using True by (simp add: is_static_def)
  with u obtain cm q where "srv_connMgr s = Some cm" "creds_public_keys (so_creds (srv_opts s)) = Some q"
    by (auto simp: UpdatePublicKeys_def removeConnectionsToDeletedKeys_def ValidPublicKeysFromEd25519_def
        simp del: check_key_lengths_None)
  from UpdatePublicKeys_ok [OF assms(1) this True] this u True show ?thesis by auto
next
  case False
  then have "ValidPublicKeysFromEd25519 keys (srv_keys s) \<noteq> Inr x" for x
    by (cases x) (simp add: ValidPublicKeys_cases)
  then obtain err where "ValidPublicKeysFromEd25519 keys (srv_keys s) = Inl err"
    by (cases "ValidPublicKeysFromEd25519 keys (srv_keys s)") auto
  with assms(2) have "s' = s" by (auto simp: UpdatePublicKeys_def split: if_splits)
  then show ?thesis by simp
qed

text \<open>What the options of the library leave: credentials that check against a list of keys of 32 bytes.\<close>

definition opts_ok :: "serverOptions \<times> pk_store \<Rightarrow> bool" where
  "opts_ok = (\<lambda>(o', st). creds_linked (so_creds o')
     \<and> (\<forall>r. creds_public_keys (so_creds o') = Some r \<longrightarrow> r < pk_next st \<and> (\<forall>k \<in> set (pk_keys st r). is_static k)))"

lemma library_option_ok:
  assumes "library_option opt" "opts_ok os"
  shows "opts_ok (opt os)"
proof -
  obtain o' st where os: "os = (o', st)" by (cases os)
  have new: "opts_ok (o'\<lparr>so_creds := NewTLS config pubs\<rparr>, st1)"
    if "ValidPublicKeysFromEd25519 keys st = Inr (pubs, st1)"
      "cfg_verify_peer config = pubs \<and> cfg_client_auth config = RequireAnyClientCert"
    for keys pubs st1 config
    using that assms(2) by (auto simp: opts_ok_def os ValidPublicKeys_cases NewTLS_def creds_linked_def)
  have keep: "opts_ok (o', st1)" if "ValidPublicKeysFromEd25519 keys st = Inr (pubs, st1)" for keys pubs st1
    using that assms(2) by (auto simp: opts_ok_def os ValidPublicKeys_cases)
  have same: "opts_ok (o2, st)" if "so_creds o2 = so_creds o'" for o2
    using that assms(2) by (simp add: opts_ok_def os)
  from assms(1) show ?thesis
  proof (cases rule: library_option.cases)
    case (3 create privKey pubKeys)
    then show ?thesis
      by (auto simp: os WithCreds_def dest: NewServerTLSConfig_verify intro: new keep same split: sum.splits)
  next
    case (4 create signer pubKeys)
    then show ?thesis
      by (auto simp: os WithSigner_def dest: NewServerTLSSigner_verify intro: new keep same split: sum.splits)
  qed (simp_all add: os WithHTTPReadTimeout_def WithWSReadLimit_def WriteBufferSize_def ReadBufferSize_def
      WithHealthcheck_def newFuncServerOption_def same)
qed

lemma apply_server_options_ok:
  assumes "\<forall>opt \<in> set opts. library_option opt"
  shows "opts_ok (apply_server_options opts st)"
proof -
  have "opts_ok (fold (\<lambda>opt os. opt os) opts os)" if "opts_ok os" for os
    using assms that by (induction opts arbitrary: os) (simp_all add: library_option_ok)
  moreover have "opts_ok (defaultServerOptions, st)"
    by (simp add: opts_ok_def defaultServerOptions_def) (simp add: no_creds_def)
  ultimately show ?thesis by (simp add: apply_server_options_def)
qed

subsection \<open>Who is connected\<close>

definition auth_inv :: "bytes set \<Rightarrow> ('i, 'p) serving \<Rightarrow> bool" where
  "auth_inv K sv \<longleftrightarrow> creds_linked (so_creds (srv_opts (sv_server sv)))
     \<and> (\<forall>k \<in> K. is_static k) \<and> allowed (sv_server sv) \<subseteq> K
     \<and> keyed (\<lambda>cert. \<exists>pk \<in> K. pubKeyFromCert cert = Inr pk) (\<lambda>k. k \<in> K) (sv_server sv)
     \<and> (\<forall>certs \<in> set (sv_handshakes sv). \<forall>cert \<in> set certs. \<exists>pk \<in> K. pubKeyFromCert cert = Inr pk)
     \<and> (\<forall>hs. sv_wssrv sv = Some hs \<longrightarrow> hs_TLSConfig hs = creds_config (so_creds (srv_opts (sv_server sv))))"

lemma handshake_key:
  assumes "handshake parse st cfg rawCerts = Some certs" "cfg_client_auth cfg = RequireAnyClientCert" "cert \<in> set certs"
  shows "\<exists>pk \<in> set (pk_keys st (cfg_verify_peer cfg)). pubKeyFromCert cert = Inr pk"
proof -
  from assms(1,2) obtain u where "VerifyPeerCertificate parse st (cfg_verify_peer cfg) rawCerts = Inr u"
    and certs: "certs = List.map_filter (\<lambda>raw. case parse raw of Inl err \<Rightarrow> None | Inr cert \<Rightarrow> Some cert) rawCerts"
    by (auto simp: handshake_def split: if_splits sum.splits)
  then obtain pk where pk: "pk \<in> set (pk_keys st (cfg_verify_peer cfg))" "cert_with_key parse rawCerts pk"
    using VerifyPeerCertificate_iff by auto
  then obtain raw c where "rawCerts = [raw]" "parse raw = Inr c" "pubKeyFromCert c = Inr pk"
    by (auto simp: cert_with_key_def split: list.splits sum.splits)
  with certs assms(3) pk(1) show ?thesis by (auto simp: List.map_filter_def)
qed

lemma keyed_allowed:
  assumes "keyed (\<lambda>cert. \<exists>pk \<in> K. pubKeyFromCert cert = Inr pk) (\<lambda>k. k \<in> K) s" "\<forall>k \<in> K. is_static k"
    and "srv_step e s = Some (Ret s')"
    and "\<forall>certs. e = SV_Request certs \<longrightarrow> (\<forall>c \<in> set certs. \<exists>pk \<in> K. pubKeyFromCert c = Inr pk)"
  shows "keyed (\<lambda>cert. \<exists>pk \<in> K. pubKeyFromCert cert = Inr pk) (\<lambda>k. k \<in> K) s'"
  by (rule keyed_step [OF assms(1) _ assms(3,4)]) (use assms(2) in \<open>auto simp: PubKeyFromCert_def\<close>)

lemma allowed_cong: "srv_opts s' = srv_opts s \<Longrightarrow> srv_keys s' = srv_keys s \<Longrightarrow> allowed s' = allowed s"
  by (cases "creds_public_keys (so_creds (srv_opts s))") (simp_all add: allowed_def)

lemma allowed_step:
  assumes "srv_inv s" "srv_step e s = Some (Ret s')" "\<forall>k \<in> allowed s. is_static k"
  shows "srv_opts s' = srv_opts s \<and> (\<forall>k \<in> allowed s'. is_static k)"
proof (cases "\<exists>keys. e = SV_UpdateKeys keys")
  case True
  then obtain keys where "srv_step (SV_UpdateKeys keys) s = Some (Ret s')" using assms(2) by blast
  from update_keys_config [OF assms(1) this] have opts: "srv_opts s' = srv_opts s"
    and keys: "srv_keys s' = srv_keys s \<or> (\<forall>k \<in> set keys. is_static k)
      \<and> (\<forall>r. creds_public_keys (so_creds (srv_opts s)) = Some r \<longrightarrow> PublicKeys_Keys (srv_keys s') r = keys)"
    by auto
  show ?thesis
  proof (cases "creds_public_keys (so_creds (srv_opts s))")
    case None
    with opts show ?thesis by (simp add: allowed_def)
  next
    case (Some r)
    with opts keys assms(3) show ?thesis by (auto simp: allowed_def)
  qed
next
  case False
  with srv_step_config [OF assms(2)] have eq: "srv_opts s' = srv_opts s" "srv_keys s' = srv_keys s" by blast+
  from eq allowed_cong [OF eq] assms(3) show ?thesis by simp
qed

lemma auth_inv_mono:
  assumes "auth_inv K sv" "K \<subseteq> K'" "\<forall>k \<in> K'. is_static k"
  shows "auth_inv K' sv"
proof -
  have "keyed (\<lambda>cert. \<exists>pk \<in> K'. pubKeyFromCert cert = Inr pk) (\<lambda>k. k \<in> K') (sv_server sv)"
    using assms(1) unfolding auth_inv_def by (elim conjE keyed_mono) (use assms(2) in blast)+
  moreover have "allowed (sv_server sv) \<subseteq> K'" using assms(1,2) by (auto simp: auth_inv_def)
  moreover have "\<forall>certs \<in> set (sv_handshakes sv). \<forall>cert \<in> set certs. \<exists>pk \<in> K'. pubKeyFromCert cert = Inr pk"
    using assms(1,2) unfolding auth_inv_def by blast
  ultimately show ?thesis using assms(1,3) by (simp add: auth_inv_def)
qed

lemma auth_inv_step:
  assumes "auth_inv K sv" "srv_inv (sv_server sv)" "serve_step e sv = Some (Ret sv')"
  shows "auth_inv (K \<union> allowed (sv_server sv')) sv'"
  using assms(3)
proof (cases rule: serve_step_cases)
  case (start hcsrv wssrv)
  with assms(1) have "auth_inv K sv'" "allowed (sv_server sv') \<subseteq> K" by (auto simp: auth_inv_def)
  then show ?thesis by (simp add: Un_absorb2)
next
  case (handshake hs cfg parse rawCerts certs)
  from handshake assms(1) have cfg: "creds_config (so_creds (srv_opts (sv_server sv))) = Some cfg"
    by (auto simp: auth_inv_def)
  with assms(1) have "cfg_client_auth cfg = RequireAnyClientCert"
    and "allowed (sv_server sv) = set (pk_keys (srv_keys (sv_server sv)) (cfg_verify_peer cfg))"
    by (auto simp: auth_inv_def creds_linked_def allowed_def PublicKeys_Keys_def split: option.splits)
  with handshake_key [OF handshake(5)] assms(1) have "\<forall>cert \<in> set certs. \<exists>pk \<in> K. pubKeyFromCert cert = Inr pk"
    by (fastforce simp: auth_inv_def)
  with assms(1) handshake(1) have "auth_inv K sv'" "allowed (sv_server sv') \<subseteq> K" by (auto simp: auth_inv_def)
  then show ?thesis by (simp add: Un_absorb2)
next
  case (server e' s)
  let ?K = "K \<union> allowed s"
  from assms(1) have "\<forall>k \<in> allowed (sv_server sv). is_static k" by (auto simp: auth_inv_def)
  from allowed_step [OF assms(2) server(2) this] have opts: "srv_opts s = srv_opts (sv_server sv)"
    and static: "\<forall>k \<in> ?K. is_static k"
    using assms(1) by (auto simp: auth_inv_def)
  have big: "auth_inv ?K sv" by (rule auth_inv_mono [OF assms(1) _ static]) simp
  then have "keyed (\<lambda>cert. \<exists>pk \<in> ?K. pubKeyFromCert cert = Inr pk) (\<lambda>k. k \<in> ?K) s"
    using server(3) by (intro keyed_allowed [OF _ static server(2)]) (auto simp: auth_inv_def)
  with big opts server(1) show ?thesis by (simp add: auth_inv_def)
next
  case return
  with assms(1) have "auth_inv K sv'" "allowed (sv_server sv') \<subseteq> K"
    by (auto simp: auth_inv_def Serve_return_def http_Close_def split: if_splits)
  then show ?thesis by (simp add: Un_absorb2)
qed

lemma serve_reachable_auth: "serve_reachable K sv \<Longrightarrow> auth_inv K sv"
proof (induction rule: serve_reachable.induct)
  case (serve_init h opts s st)
  obtain o' st1 where os: "apply_server_options opts st = (o', st1)" by (cases "apply_server_options opts st")
  with apply_server_options_ok [OF serve_init(2), of st] have ok: "opts_ok (o', st1)" by simp
  have "srv_opts s = o'" "srv_keys s = st1" using os by (simp_all add: serve_init(3) NewServer_def)
  with ok have "creds_linked (so_creds (srv_opts s))" "\<forall>k \<in> allowed s. is_static k"
    by (auto simp: opts_ok_def allowed_def PublicKeys_Keys_def split: option.splits)
  then show ?case by (simp add: auth_inv_def not_serving_def serve_init(3) keyed_new)
next
  case (serve_next K sv e sv')
  have "srv_inv (sv_server sv)" by (rule srv_reachable_inv [OF serve_reachable_srv [OF serve_next.hyps(1)]])
  from auth_inv_step [OF serve_next.IH this serve_next.hyps(2)] show ?case .
next
  case (serve_register K sv sd ss)
  then show ?case
    by (auto simp: auth_inv_def allowed_def Server_register_def keyed_def split: option.splits)
qed

lemma listed_keys:
  assumes "srv_inv s" "GetConnectedPeerPublicKeys s = Ret ks"
  shows "set ks \<subseteq> st_key ` set (srv_trs s)"
proof -
  from assms(2) obtain cm where cm: "srv_connMgr s = Some cm" "ks = map fst (cm_conns cm)"
    by (auto simp: GetConnectedPeerPublicKeys_def getConnectionPublicKeys_def)
  with assms(1) have "\<forall>(k, i) \<in> set (cm_conns cm). i < length (srv_trs s) \<and> st_key (srv_trs s ! i) = k"
    by (simp add: srv_inv_def inv_conns_def conns_ok_def)
  with cm(2) show ?thesis by fastforce
qed

text \<open>
  C9.  Only clients whose key was on the list are ever connected.  \<open>K\<close> collects the key lists that
  were in force on the way to a state: those of the credentials the server was made with, and of
  every \<open>UpdatePublicKeys\<close>.  In every interleaving of handshakes, requests, handlers, transports, key
  updates and \<open>Stop\<close>, every transport the server has made, and every key it lists as connected,
  belongs to \<open>K\<close>, whose keys all have 32 bytes.
\<close>

theorem connections_authorised:
  assumes "serve_reachable K sv"
  shows "st_key ` set (srv_trs (sv_server sv)) \<subseteq> K \<and> (\<forall>k \<in> K. is_static k)
    \<and> (\<forall>ks. GetConnectedPeerPublicKeys (sv_server sv) = Ret ks \<longrightarrow> set ks \<subseteq> K)"
proof -
  have auth: "auth_inv K sv" by (rule serve_reachable_auth [OF assms])
  then have trs: "st_key ` set (srv_trs (sv_server sv)) \<subseteq> K" by (auto simp: auth_inv_def keyed_def)
  have inv: "srv_inv (sv_server sv)" using assms by (intro srv_reachable_inv serve_reachable_srv)
  have "set ks \<subseteq> K" if "GetConnectedPeerPublicKeys (sv_server sv) = Ret ks" for ks
    using listed_keys [OF inv that] trs by blast
  with trs auth show ?thesis by (auto simp: auth_inv_def)
qed

text \<open>What holds of the HTTP servers.\<close>

definition serve_inv :: "('i, 'p) serving \<Rightarrow> bool" where
  "serve_inv sv \<longleftrightarrow> sv_pc sv = SE_Returned \<longrightarrow> Done (srv_done (sv_server sv))
     \<and> (\<forall>hs. sv_wssrv sv = Some hs \<or> sv_healthcheck sv = Some hs \<longrightarrow> \<not> hs_open hs)"

lemma srv_inv_done: "srv_inv s \<Longrightarrow> Done (srv_done s) \<longleftrightarrow> srv_stop s = ST_Returned"
  by (simp add: srv_inv_def inv_stop_def Done_iff_HasFired)

lemma srv_inv_stopped: "srv_inv s \<Longrightarrow> srv_stop s = ST_Returned \<Longrightarrow> srv_connMgr s = None"
  by (simp add: srv_inv_def inv_stop_def)

lemma serve_inv_step:
  assumes "serve_inv sv" "srv_inv (sv_server sv)" "serve_step e sv = Some (Ret sv')"
  shows "serve_inv sv'"
  using assms(3)
proof (cases rule: serve_step_cases)
  case (start hcsrv wssrv)
  then show ?thesis by (simp add: serve_inv_def)
next
  case (handshake hs cfg parse rawCerts certs)
  with assms(1) show ?thesis by (simp add: serve_inv_def)
next
  case (server e' s)
  have "srv_inv s" by (rule srv_step_inv [OF assms(2) server(2)])
  moreover have "srv_stop s = ST_Returned" if "srv_stop (sv_server sv) = ST_Returned"
    using stopped_step [OF srv_inv_stopped [OF assms(2) that] that server(2)] by simp
  ultimately show ?thesis using assms(1,2) server(1) by (simp add: serve_inv_def srv_inv_done)
next
  case return
  then show ?thesis by (auto simp: serve_inv_def Serve_return_def http_Close_def split: if_splits)
qed

lemma serve_reachable_serve_inv: "serve_reachable K sv \<Longrightarrow> serve_inv sv"
proof (induction rule: serve_reachable.induct)
  case (serve_init h opts s st)
  then show ?case by (simp add: serve_inv_def not_serving_def)
next
  case (serve_next K sv e sv')
  have "srv_inv (sv_server sv)" by (rule srv_reachable_inv [OF serve_reachable_srv [OF serve_next.hyps(1)]])
  from serve_inv_step [OF serve_next.IH this serve_next.hyps(2)] show ?case .
next
  case (serve_register K sv sd ss)
  then show ?case by (simp add: serve_inv_def Server_register_def)
qed

text \<open>
  C18.  \<open>Serve\<close> returns only when nothing is left: then \<open>Stop\<close> has returned, the write pump of every
  transport the server ever made has ended, and both HTTP servers are closed; no later step makes a
  transport or a handshake.
\<close>

theorem serve_returns_after_stop:
  assumes "serve_reachable K sv" "sv_pc sv = SE_Returned" "serve_step e sv = Some (Ret sv')"
  shows "srv_stop (sv_server sv) = ST_Returned \<and> (\<forall>t \<in> set (srv_trs (sv_server sv)). tr_writePump (st_tr t) = WP_Done)
    \<and> (\<forall>hs. sv_wssrv sv = Some hs \<or> sv_healthcheck sv = Some hs \<longrightarrow> \<not> hs_open hs)
    \<and> length (srv_trs (sv_server sv')) = length (srv_trs (sv_server sv)) \<and> sv_handshakes sv' = sv_handshakes sv"
proof -
  have inv: "srv_inv (sv_server sv)" using assms(1) by (intro srv_reachable_inv serve_reachable_srv)
  have sv: "serve_inv sv" by (rule serve_reachable_serve_inv [OF assms(1)])
  with inv assms(2) have st: "srv_stop (sv_server sv) = ST_Returned" by (simp add: serve_inv_def srv_inv_done)
  with inv have "running (srv_trs (sv_server sv)) = 0" by (simp add: srv_inv_def inv_stop_def inv_wg_def)
  with inv have ended: "\<forall>t \<in> set (srv_trs (sv_server sv)). tr_writePump (st_tr t) = WP_Done"
    by (auto simp: running_0 srv_inv_def inv_wg_def st_ok_def)
  have closed: "\<forall>hs. sv_wssrv sv = Some hs \<or> sv_healthcheck sv = Some hs \<longrightarrow> \<not> hs_open hs"
    using sv assms(2) by (simp add: serve_inv_def)
  from assms(3) have "length (srv_trs (sv_server sv')) = length (srv_trs (sv_server sv)) \<and> sv_handshakes sv' = sv_handshakes sv"
  proof (cases rule: serve_step_cases)
    case (server e' s)
    with stopped_step [OF srv_inv_stopped [OF inv st] st server(2)] show ?thesis by simp
  qed (use closed assms(2) in \<open>auto simp: Serve_return_def\<close>)
  with st ended closed show ?thesis by blast
qed

text \<open>Without a TLS configuration there are no handshakes.\<close>

definition no_clients :: "('i, 'p) serving \<Rightarrow> bool" where
  "no_clients sv \<longleftrightarrow> creds_config (so_creds (srv_opts (sv_server sv))) = None \<longrightarrow>
     sv_handshakes sv = [] \<and> keyed (\<lambda>_. False) (\<lambda>_. False) (sv_server sv)"

lemma no_clients_step:
  assumes "no_clients sv" "auth_inv K sv" "srv_inv (sv_server sv)" "serve_step e sv = Some (Ret sv')"
  shows "no_clients sv'"
  using assms(4)
proof (cases rule: serve_step_cases)
  case (start hcsrv wssrv)
  with assms(1) show ?thesis by (simp add: no_clients_def)
next
  case (handshake hs cfg parse rawCerts certs)
  with assms(2) have "creds_config (so_creds (srv_opts (sv_server sv))) = Some cfg" by (auto simp: auth_inv_def)
  with handshake(1) show ?thesis by (simp add: no_clients_def)
next
  case (server e' s)
  from assms(2) have "\<forall>k \<in> allowed (sv_server sv). is_static k" by (auto simp: auth_inv_def)
  from allowed_step [OF assms(3) server(2) this] have opts: "srv_opts s = srv_opts (sv_server sv)" by simp
  have "keyed (\<lambda>_. False) (\<lambda>_. False) s"
    if "sv_handshakes sv = []" "keyed (\<lambda>_. False) (\<lambda>_. False) (sv_server sv)"
    using that server(3) by (intro keyed_step [OF _ _ server(2)]) simp_all
  with assms(1) opts server(1) show ?thesis by (simp add: no_clients_def)
next
  case return
  with assms(1) show ?thesis by (auto simp: no_clients_def Serve_return_def split: if_splits)
qed

lemma serve_reachable_no_clients: "serve_reachable K sv \<Longrightarrow> no_clients sv"
proof (induction rule: serve_reachable.induct)
  case (serve_init h opts s st)
  then show ?case by (simp add: no_clients_def not_serving_def keyed_new)
next
  case (serve_next K sv e sv')
  have "srv_inv (sv_server sv)" by (rule srv_reachable_inv [OF serve_reachable_srv [OF serve_next.hyps(1)]])
  from no_clients_step [OF serve_next.IH serve_reachable_auth [OF serve_next.hyps(1)] this serve_next.hyps(2)] show ?case .
next
  case (serve_register K sv sd ss)
  then show ?case by (simp add: no_clients_def Server_register_def keyed_def)
qed

text \<open>
  C25.  A credentials option with a bad key makes a server that serves nobody and does not say so.
  \<open>WithCreds\<close> with a private key of the wrong length, or a public key of the wrong length, leaves
  the server without credentials; and a server without credentials never completes a handshake
  nor makes a transport, in any run, while \<open>UpdatePublicKeys\<close> with good keys panics.
\<close>

theorem swallowed_credentials:
  assumes "serve_reachable K sv" "creds_config (so_creds (srv_opts (sv_server sv))) = None"
  shows "sv_handshakes sv = [] \<and> srv_trs (sv_server sv) = []
    \<and> ((\<forall>k \<in> set keys. is_static k) \<longrightarrow> UpdatePublicKeys keys (sv_server sv) = Panic NilDereference)
    \<and> (length privKey \<noteq> PrivateKeySize \<or> (\<exists>k \<in> set pubKeys. \<not> is_static k) \<longrightarrow>
        so_creds (srv_opts (NewServer [WithCreds create privKey pubKeys] st h)) = no_creds)"
proof (intro conjI impI)
  have "no_clients sv" by (rule serve_reachable_no_clients [OF assms(1)])
  with assms(2) show "sv_handshakes sv = []" "srv_trs (sv_server sv) = []"
    by (simp_all add: no_clients_def keyed_def)
  from serve_reachable_auth [OF assms(1)] assms(2) have none: "creds_public_keys (so_creds (srv_opts (sv_server sv))) = None"
    by (simp add: auth_inv_def creds_linked_def split: option.splits)
  assume "\<forall>k \<in> set keys. is_static k"
  then have "check_key_lengths keys = None" by (simp add: is_static_def)
  with none show "UpdatePublicKeys keys (sv_server sv) = Panic NilDereference"
    by (simp add: UpdatePublicKeys_def ValidPublicKeysFromEd25519_def del: check_key_lengths_None)
next
  assume "length privKey \<noteq> PrivateKeySize \<or> (\<exists>k \<in> set pubKeys. \<not> is_static k)"
  then have "WithCreds create privKey pubKeys (defaultServerOptions, st) = (defaultServerOptions, st)"
    by (auto simp: WithCreds_def ValidPrivateKeyFromEd25519_def ValidPublicKeysFromEd25519_def is_static_def
        split: option.splits)
  then show "so_creds (srv_opts (NewServer [WithCreds create privKey pubKeys] st h)) = no_creds"
    by (simp add: NewServer_def apply_server_options_def defaultServerOptions_def)
qed


subsection \<open>Concrete runs\<close>

abbreviation run_serve :: "serve_event list \<Rightarrow> ('i, 'p) serving \<Rightarrow> ('i, 'p) serving go option" where
  "run_serve \<equiv> run_steps serve_step"

lemma run_serve_reachable:
  "run_serve es sv = Some (Ret sv') \<Longrightarrow> serve_reachable K sv \<Longrightarrow> \<exists>K'. K \<subseteq> K' \<and> serve_reachable K' sv'"
proof (induction es arbitrary: sv K)
  case (Cons e es)
  then obtain sv1 where sv1: "serve_step e sv = Some (Ret sv1)" "run_serve es sv1 = Some (Ret sv')"
    by (auto split: option.splits go.splits)
  from Cons.IH [OF sv1(2) serve_next [OF Cons.prems(2) sv1(1)]] show ?case by blast
qed auto

lemma demo_serving: "serve_reachable (allowed demo_server) (not_serving demo_server)"
  by (rule serve_init [OF wf_empty_chans _ demo_server_def]) (simp add: library_option.intros)

definition accept_listen :: "string \<Rightarrow> unit res" where
  "accept_listen addr = Inr ()"

text \<open>A client that connects with the raw key as its certificate.\<close>

definition connect_run :: "byte \<Rightarrow> serve_event list" where
  "connect_run b = [SE_Start accept_listen, SE_Handshake raw_key_parse [key_of b], SE_Request 0]
     @ map SE_Server [SV_Check 0, SV_Upgrade 0 True, SV_Create 0, SV_Register 0]"

lemmas serve_run_defs = Serve_start_def Serve_healthcheck_def Serve_return_def http_Close_def accept_client_def
  handshake_def on_server_def is_request_def not_serving_def accept_listen_def raw_key_parse_def
  VerifyPeerCertificate_def isValidPublicKey_def pubKeyFromCert_def PubKeyFromCert_def List.map_filter_def

theorem connections_authorised_witness:
  "\<exists>K sv. run_serve (connect_run 2) (not_serving demo_server) = Some (Ret sv) \<and> key_of 2 \<in> K
     \<and> GetConnectedPeerPublicKeys (sv_server sv) = Ret [key_of 2] \<and> st_key ` set (srv_trs (sv_server sv)) \<subseteq> K
     \<and> run_serve [SE_Handshake raw_key_parse [key_of 3]] sv = None"
proof -
  obtain sv where r: "run_serve (connect_run 2) (not_serving demo_server) = Some (Ret sv)"
    "GetConnectedPeerPublicKeys (sv_server sv) = Ret [key_of 2]"
    "run_serve [SE_Handshake raw_key_parse [key_of 3]] sv = None"
    by (simp add: connect_run_def serve_run_defs demo_server_eq demo_config_def srv_run_defs NewTLS_def defaultServerOptions_def)
  obtain K where K: "serve_reachable K sv" using run_serve_reachable [OF r(1) demo_serving] by blast
  from connections_authorised [OF this] r show ?thesis by auto
qed

definition serve_stop_run :: "serve_event list" where
  "serve_stop_run = connect_run 1 @ map SE_Server [SV_StopFire, SV_Leave 0, SV_StopTake, SV_StopClose, SV_StopClose,
     SV_Transport 0 (SeesCloseConn True), SV_Transport 0 CloseWaitOver, SV_Transport 0 PumpExits, SV_StopWait] @ [SE_Return]"

theorem serve_returns_after_stop_witness:
  "\<exists>sv sv'. run_serve serve_stop_run (not_serving demo_server) = Some (Ret sv) \<and> sv_pc sv = SE_Returned
     \<and> serve_step (SE_Request 0) sv = Some (Ret sv') \<and> length (srv_trs (sv_server sv')) = 1
     \<and> sv_handshakes sv' = sv_handshakes sv \<and> srv_stop (sv_server sv) = ST_Returned"
proof -
  obtain sv where r: "run_serve serve_stop_run (not_serving demo_server) = Some (Ret sv)" "sv_pc sv = SE_Returned"
    "length (srv_trs (sv_server sv)) = 1" "length (sv_handshakes sv) = 1" "HasFired (srv_quit (sv_server sv))"
    by (simp add: serve_stop_run_def connect_run_def serve_run_defs demo_server_eq demo_config_def srv_run_defs NewTLS_def
        defaultServerOptions_def)
  obtain K where K: "serve_reachable K sv" using run_serve_reachable [OF r(1) demo_serving] by blast
  have st: "serve_step (SE_Request 0) sv = Some (Ret sv)"
    using r(4,5) by (simp add: on_server_def wshandler_enter_def)
  from serve_returns_after_stop [OF K r(2) st] r(3) st r(1,2) show ?thesis by auto
qed

definition keyless_server :: "(unit, nat) Server" where
  "keyless_server = NewServer [WithCreds (\<lambda>_ _. Inr []) [] [key_of 1]] \<lparr>pk_next = 0, pk_keys = \<lambda>_. []\<rparr> empty_chans"

theorem swallowed_credentials_witness:
  "\<exists>sv. run_serve [SE_Start accept_listen] (not_serving keyless_server) = Some (Ret sv) \<and> sv_pc sv = SE_Waiting
     \<and> sv_handshakes sv = [] \<and> UpdatePublicKeys [key_of 1] (sv_server sv) = Panic NilDereference
     \<and> so_creds (srv_opts keyless_server) = no_creds"
proof -
  obtain sv where r: "run_serve [SE_Start accept_listen] (not_serving keyless_server) = Some (Ret sv)"
    "sv_pc sv = SE_Waiting" "creds_config (so_creds (srv_opts (sv_server sv))) = None"
    by (simp add: serve_run_defs keyless_server_def NewServer_def apply_server_options_def WithCreds_def
        ValidPrivateKeyFromEd25519_def PrivateKeySize_def defaultServerOptions_def no_creds_def)
  have "serve_reachable (allowed keyless_server) (not_serving keyless_server)"
    by (rule serve_init [OF wf_empty_chans _ keyless_server_def]) (simp add: library_option.intros)
  from run_serve_reachable [OF r(1) this] obtain K where K: "serve_reachable K sv" by blast
  from swallowed_credentials [OF K r(3), of "[key_of 1]" "[]" "[key_of 1]" "\<lambda>_ _. Inr []"
      "\<lparr>pk_next = 0, pk_keys = \<lambda>_. []\<rparr>" empty_chans] r
  show ?thesis by (auto simp: keyless_server_def PrivateKeySize_def)
qed


end
