(* ===== verification/Authentication.thy ===== *)
theory Authentication
  imports Serve
begin

text \<open>
  Client and server authenticate each other: a client with the credentials of \<open>WithTransportCreds\<close> dials
  a server with those of \<open>WithCreds\<close>, over TLS 1.3 with the certificates both sides make of their keys.
\<close>

text \<open>
  What is assumed of \<open>crypto/x509\<close>: a certificate that \<open>CreateCertificate\<close> made parses, and carries the
  Ed25519 key \<open>signer.Public()\<close>.  For a private key this is its second half.
\<close>

definition ed25519_Public :: "bytes \<Rightarrow> bytes" where
  "ed25519_Public privKey = drop 32 privKey"

definition certifies :: "(int \<Rightarrow> Signer \<Rightarrow> bytes res) \<Rightarrow> (bytes \<Rightarrow> x509_cert res) \<Rightarrow> bool" where
  "certifies create parse \<longleftrightarrow>
     (\<forall>serial privKey raw. create serial (PrivateKeySigner privKey) = Inr raw \<longrightarrow>
        (\<exists>cert. parse raw = Inr cert \<and> pubKeyFromCert cert = Inr (ed25519_Public privKey)))"

text \<open>
  A dial of \<open>crypto/tls\<close> to a server that \<open>Serve\<close> runs.  Each side presents its first certificate; the
  client checks that of the server, the server that of the client.  In TLS 1.3 the client learns of the
  server's refusal only when it reads the answer to the upgrade, which is still part of the dial.
\<close>

definition presented :: "tls_config \<Rightarrow> bytes list" where
  "presented cfg = (case cfg_certificates cfg of [] \<Rightarrow> [] | c # cs \<Rightarrow> tc_certificate c)"

definition tls_dial ::
  "(bytes \<Rightarrow> x509_cert res) \<Rightarrow> pk_store \<Rightarrow> ('i, 'p) serving \<Rightarrow> string \<Rightarrow> tls_config option \<Rightarrow> unit res"
where
  "tls_dial parse cst sv url cfg =
     (case cfg of
        None \<Rightarrow> Inl (New ''x509: certificate signed by unknown authority'')
      | Some ccfg \<Rightarrow>
          (case sv_wssrv sv of
             None \<Rightarrow> Inl (New ''connection refused'')
           | Some hs \<Rightarrow>
               (case hs_TLSConfig hs of
                  None \<Rightarrow> Inl (New ''connection refused'')
                | Some scfg \<Rightarrow>
                    (case VerifyPeerCertificate parse cst (cfg_verify_peer ccfg) (presented scfg) of
                       Inl err \<Rightarrow> Inl err
                     | Inr _ \<Rightarrow>
                         (case accept_client parse (presented ccfg) sv of
                            None \<Rightarrow> Inl (New ''remote error: tls: bad certificate'')
                          | Some _ \<Rightarrow> Inr ())))))"

subsection \<open>What the credentials options leave\<close>

lemma WithTransportCreds_config:
  assumes "WithTransportCreds create privKey serverPubKey (o', st) = Inr (o2, st2)"
  obtains cfg raw where "creds_config (co_TransportCredentials (do_copts o2)) = Some cfg"
    "create 0 (PrivateKeySigner privKey) = Inr raw" "presented cfg = [raw]"
    "pk_keys st2 (cfg_verify_peer cfg) = [serverPubKey]" "length privKey = PrivateKeySize"
  using assms
  by (auto simp: WithTransportCreds_def newFuncDialOptionWithErr_def ValidPrivateKeyFromEd25519_def NewClientTLSConfig_def
      newMutualTLSConfig_def newMinimalX509Cert_def set_dial_creds_def NewTLS_def ValidPublicKeys_cases presented_def
      split: if_splits sum.splits)

lemma WithCreds_config:
  assumes "length privKey = PrivateKeySize" "\<forall>k \<in> set pubKeys. is_static k" "create 0 (PrivateKeySigner privKey) = Inr raw"
  obtains cfg where "creds_config (so_creds (fst (WithCreds create privKey pubKeys (o', st)))) = Some cfg"
    "creds_public_keys (so_creds (fst (WithCreds create privKey pubKeys (o', st)))) = Some (pk_next st)"
    "cfg_certificates cfg \<noteq> []" "presented cfg = [raw]" "cfg_verify_peer cfg = pk_next st"
    "cfg_client_auth cfg = RequireAnyClientCert"
proof -
  obtain cfg where cfg: "NewServerTLSConfig create \<lparr>priv_key = privKey\<rparr> (pk_next st) = Inr cfg"
    using assms(3) by (simp add: NewServerTLSConfig_def newMutualTLSConfig_def newMinimalX509Cert_def)
  have "check_key_lengths pubKeys = None" using assms(2) by (simp add: is_static_def)
  with assms(1) cfg have "so_creds (fst (WithCreds create privKey pubKeys (o', st))) = NewTLS cfg (pk_next st)"
    by (simp del: check_key_lengths_None
        add: WithCreds_def ValidPrivateKeyFromEd25519_def ValidPublicKeysFromEd25519_def)
  moreover have "cfg_certificates cfg \<noteq> []" "presented cfg = [raw]"
    using cfg assms(3)
    by (auto simp: NewServerTLSConfig_def newMutualTLSConfig_def newMinimalX509Cert_def presented_def)
  ultimately show ?thesis using NewServerTLSConfig_verify [OF cfg] by (intro that [of cfg]) (simp_all add: NewTLS_def)
qed

text \<open>How each side judges the certificate the other made of its private key.\<close>

lemma made_certificate_accepted:
  assumes "certifies create parse" "create 0 (PrivateKeySigner privKey) = Inr raw"
  shows "VerifyPeerCertificate parse st r [raw] = Inr () \<longleftrightarrow> ed25519_Public privKey \<in> set (pk_keys st r)"
proof -
  obtain cert where "parse raw = Inr cert" "pubKeyFromCert cert = Inr (ed25519_Public privKey)"
    using assms(1,2) unfolding certifies_def by blast
  then show ?thesis by (auto simp: VerifyPeerCertificate_iff cert_with_key_def)
qed

lemma made_certificate_admitted:
  assumes "certifies create parse" "create 0 (PrivateKeySigner privKey) = Inr raw"
    and "cfg_certificates cfg \<noteq> []" "cfg_client_auth cfg = RequireAnyClientCert"
  obtains cert where "pubKeyFromCert cert = Inr (ed25519_Public privKey)"
    "handshake parse st cfg [raw]
       = (if ed25519_Public privKey \<in> set (pk_keys st (cfg_verify_peer cfg)) then Some [cert] else None)"
proof -
  obtain cert where "parse raw = Inr cert" "pubKeyFromCert cert = Inr (ed25519_Public privKey)"
    using assms(1,2) unfolding certifies_def by blast
  with assms(3,4) made_certificate_accepted [OF assms(1,2), of st "cfg_verify_peer cfg"] show ?thesis
    by (intro that [of cert]) (auto simp: handshake_def List.map_filter_def split: sum.split)
qed

subsection \<open>Mutual authentication\<close>


text \<open>A server with key 1 that admits key 2, and a client with key 2 that expects key 1.\<close>

definition demo_create :: "int \<Rightarrow> Signer \<Rightarrow> bytes res" where
  "demo_create serial signer =
     (case signer of PrivateKeySigner privKey \<Rightarrow> Inr (ed25519_Public privKey) | ExternalSigner n \<Rightarrow> Inl (New ''unknown signer''))"

definition demo_key :: "byte \<Rightarrow> bytes" where
  "demo_key b = replicate 64 b"

definition demo_store :: pk_store where
  "demo_store = \<lparr>pk_next = 0, pk_keys = \<lambda>_. []\<rparr>"

definition key_server :: "(unit, nat) Server" where
  "key_server = NewServer [WithCreds demo_create (demo_key 1) [key_of 2]] demo_store empty_chans"

lemma demo_certifies: "certifies demo_create raw_key_parse"
  by (simp add: certifies_def demo_create_def raw_key_parse_def pubKeyFromCert_def)

lemma ed25519_Public_demo [simp]: "ed25519_Public (demo_key b) = key_of b"
  by (simp add: ed25519_Public_def demo_key_def key_of_def drop_replicate)


end
