(* ===== verification/StopTermination.thy ===== *)
theory StopTermination
  imports ServerProps
begin

text \<open>
  \<open>Stop\<close> terminates: from the point where it has fired \<open>quit\<close> a run that needs nobody else takes it
  to its return.  The run closes the connections one by one, and lets each write pump close its
  websocket, wait for the peer for at most a second, and call back.
\<close>

text \<open>The steps of \<open>Stop\<close> itself, and those a closed transport can take by itself.\<close>

definition stop_event :: "srv_event \<Rightarrow> bool" where
  "stop_event e \<longleftrightarrow> (case e of
       SV_StopTake \<Rightarrow> True | SV_StopClose \<Rightarrow> True | SV_StopWait \<Rightarrow> True
     | SV_Transport i ev \<Rightarrow> ev \<in> {SeesCloseConn True, CloseWaitOver, PumpExits}
     | _ \<Rightarrow> False)"

fun finish_events :: "write_pc \<Rightarrow> pump_event list" where
  "finish_events WP_Select = [SeesCloseConn True, CloseWaitOver, PumpExits]"
| "finish_events WP_Closing = [CloseWaitOver, PumpExits]"
| "finish_events WP_Returned = [PumpExits]"
| "finish_events _ = []"

lemma finish_events_internal: "\<forall>e \<in> set (map (SV_Transport i) (finish_events pc)). stop_event e"
  by (cases pc) (simp_all add: stop_event_def)

lemma finish_events_length: "length (finish_events pc) \<le> 3"
  by (cases pc) simp_all

lemma run_srv_inv: "run_srv es s = Some (Ret s') \<Longrightarrow> srv_inv s \<Longrightarrow> srv_inv s'"
  by (erule run_steps_keeps [where P = srv_inv]) (auto dest: srv_step_inv)

text \<open>A transport that was told to close ends by itself.\<close>

lemma transport_finishes:
  assumes "srv_inv s" "srv_connMgr s = None" "i < length (srv_trs s)" "\<not> st_done (srv_trs s ! i)"
    and "ws_state (st_tr (srv_trs s ! i)) = closing"
  obtains s' t' where "run_srv (map (SV_Transport i) (finish_events (tr_writePump (st_tr (srv_trs s ! i))))) s = Some (Ret s')"
    "srv_trs s' = (srv_trs s)[i := t']" "st_done t'" "srv_stop s' = srv_stop s" "srv_connMgr s' = None"
proof -
  let ?t = "srv_trs s ! i" and ?pc = "tr_writePump (st_tr (srv_trs s ! i))"
  have t: "st_ok ?t" and wg: "srv_serveWG s = running (srv_trs s)"
    using assms(1,3) by (simp_all add: srv_inv_def inv_wg_def)
  then have pc: "?pc \<noteq> WP_NotStarted" "?pc \<noteq> WP_Done" "tr_closeConn (st_tr ?t)"
    using assms(4,5) by (auto simp: st_ok_def good_server_def)
  have "running (srv_trs s) \<noteq> 0" using assms(3,4) by (auto simp: running_0)
  with wg have pos: "srv_serveWG s \<noteq> 0" by simp
  have "\<exists>s' t'. run_srv (map (SV_Transport i) (finish_events ?pc)) s = Some (Ret s')
    \<and> srv_trs s' = (srv_trs s)[i := t'] \<and> st_done t' \<and> srv_stop s' = srv_stop s \<and> srv_connMgr s' = None"
    using pc assms(2-5) pos
    by (cases ?pc) (auto simp: srv_transport_event_def server_step_simps afterWritePump_srv_def WebsocketServer_Close_def
        Let_def)
  with that show ?thesis by blast
qed

text \<open>Once all connections are closed, what remains is to wait for them.\<close>

definition on_its_way :: "srv_tr \<Rightarrow> bool" where
  "on_its_way t \<longleftrightarrow> st_done t \<or> ws_state (st_tr t) = closing"

lemma waiting_finishes:
  assumes "srv_inv s" "srv_stop s = ST_Waiting" "\<forall>t \<in> set (srv_trs s). on_its_way t"
  shows "\<exists>es s'. run_srv es s = Some (Ret s') \<and> srv_stop s' = ST_Returned \<and> (\<forall>e \<in> set es. stop_event e)
    \<and> length es \<le> 3 * running (srv_trs s) + 1"
  using assms
proof (induction "running (srv_trs s)" arbitrary: s)
  case 0
  then have "srv_serveWG s = 0" by (simp add: srv_inv_def inv_wg_def)
  with 0 obtain r where r: "Stop_wait s = Some r" by (simp add: Stop_wait_def)
  from Stop_wait_inv [OF 0(2) r] obtain s' where "Stop_wait s = Some (Ret s')" using r by auto
  moreover from this have "srv_stop s' = ST_Returned" by (auto simp: Stop_wait_def split: if_splits)
  ultimately show ?case by (intro exI [of _ "[SV_StopWait]"] exI [of _ s']) (simp add: stop_event_def)
next
  case (Suc n)
  then obtain i where i: "i < length (srv_trs s)" "\<not> st_done (srv_trs s ! i)"
    using running_0 [of "srv_trs s"] by (auto simp: in_set_conv_nth)
  with Suc.prems(3) have closing: "ws_state (st_tr (srv_trs s ! i)) = closing" by (auto simp: on_its_way_def)
  have none: "srv_connMgr s = None" using Suc.prems(1,2) by (simp add: srv_inv_def inv_stop_def)
  let ?es = "map (SV_Transport i) (finish_events (tr_writePump (st_tr (srv_trs s ! i))))"
  obtain s1 t1 where s1: "run_srv ?es s = Some (Ret s1)" "srv_trs s1 = (srv_trs s)[i := t1]" "st_done t1"
    "srv_stop s1 = srv_stop s"
    by (rule transport_finishes [OF Suc.prems(1) none i closing])
  have "n = running (srv_trs s1)"
    using running_update [OF i(1), of t1] i(2) s1(2,3) Suc.hyps(2) by simp
  moreover have "\<forall>t \<in> set (srv_trs s1). on_its_way t"
    unfolding s1(2) by (rule ball_list_update [OF Suc.prems(3)]) (simp add: on_its_way_def s1(3))
  moreover have "srv_inv s1" by (rule run_srv_inv [OF s1(1) Suc.prems(1)])
  ultimately obtain es s' where es: "run_srv es s1 = Some (Ret s')" "srv_stop s' = ST_Returned" "\<forall>e \<in> set es. stop_event e"
    "length es \<le> 3 * n + 1"
    using Suc.hyps(1) [of s1] s1(4) Suc.prems(2) by auto
  have "run_srv (?es @ es) s = Some (Ret s')" using run_steps_append [OF s1(1)] es(1) by simp
  moreover have "\<forall>e \<in> set (?es @ es). stop_event e" using finish_events_internal es(3) by auto
  moreover have "length (?es @ es) \<le> 3 * running (srv_trs s) + 1"
    using finish_events_length [of "tr_writePump (st_tr (srv_trs s ! i))"] es(4) Suc.hyps(2) by simp
  ultimately show ?case using es(2) by blast
qed

text \<open>The loop that closes the connections \<open>Stop\<close> has taken.\<close>

lemma closing_finishes:
  assumes "srv_inv s" "srv_stop s = ST_Closing conns"
    and "\<forall>i < length (srv_trs s). on_its_way (srv_trs s ! i) \<or> i \<in> snd ` set conns"
  shows "\<exists>es s'. run_srv es s = Some (Ret s') \<and> srv_stop s' = ST_Returned \<and> (\<forall>e \<in> set es. stop_event e)
    \<and> length es \<le> 3 * running (srv_trs s) + length conns + 2"
  using assms
proof (induction conns arbitrary: s)
  case Nil
  let ?s = "s\<lparr>srv_stop := ST_Waiting\<rparr>"
  have st: "srv_step SV_StopClose s = Some (Ret ?s)" using Nil.prems(2) by (simp add: Stop_close_def)
  have "\<forall>t \<in> set (srv_trs ?s). on_its_way t" using Nil.prems(3) by (auto simp: in_set_conv_nth)
  from waiting_finishes [OF srv_step_inv [OF Nil.prems(1) st] _ this] obtain es s' where
    "run_srv es ?s = Some (Ret s')" "srv_stop s' = ST_Returned" "\<forall>e \<in> set es. stop_event e"
    "length es \<le> 3 * running (srv_trs s) + 1" by auto
  with st show ?case by (intro exI [of _ "SV_StopClose # es"] exI [of _ s']) (simp add: stop_event_def)
next
  case (Cons c conns)
  obtain k i where c: "c = (k, i)" by (cases c)
  have "conns_ok (srv_trs s) (c # conns)" using Cons.prems(1,2) by (simp add: srv_inv_def inv_conns_def)
  then have i: "i < length (srv_trs s)" using c by (simp add: conns_ok_def)
  obtain tr where cl: "close_tr i s = Ret (s\<lparr>srv_trs := (srv_trs s)[i := (srv_trs s ! i)\<lparr>st_tr := tr\<rparr>]\<rparr>)"
    "ws_state tr = closing"
    by (rule close_tr_inv [OF Cons.prems(1) i])
  let ?s = "s\<lparr>srv_trs := (srv_trs s)[i := (srv_trs s ! i)\<lparr>st_tr := tr\<rparr>], srv_stop := ST_Closing conns\<rparr>"
  have st: "srv_step SV_StopClose s = Some (Ret ?s)" using Cons.prems(2) c cl(1) by (simp add: Stop_close_def)
  have cover: "\<forall>j < length (srv_trs ?s). on_its_way (srv_trs ?s ! j) \<or> j \<in> snd ` set conns"
  proof (intro allI impI)
    fix j assume "j < length (srv_trs ?s)"
    with Cons.prems(3) c i cl(2) show "on_its_way (srv_trs ?s ! j) \<or> j \<in> snd ` set conns"
      by (cases "j = i") (auto simp: on_its_way_def)
  qed
  have "running (srv_trs ?s) = running (srv_trs s)"
    using running_update [OF i, of "(srv_trs s ! i)\<lparr>st_tr := tr\<rparr>"] by (auto split: if_splits)
  with Cons.IH [OF srv_step_inv [OF Cons.prems(1) st] _ cover] obtain es s' where
    "run_srv es ?s = Some (Ret s')" "srv_stop s' = ST_Returned" "\<forall>e \<in> set es. stop_event e"
    "length es \<le> 3 * running (srv_trs s) + length conns + 2" by auto
  with st show ?case by (intro exI [of _ "SV_StopClose # es"] exI [of _ s']) (simp add: stop_event_def)
qed



end
