(* ===== verification/ServerCalls.thy ===== *)
theory ServerCalls
  imports Server
begin

text \<open>
  The calls a \<open>Server\<close> makes to its clients: any number of \<open>Invoke\<close> calls and of goroutines
  \<open>handleMessageResponse\<close>.  Unlike the client, \<open>handleMessageResponse\<close> holds \<open>s.mu\<close> while it
  sends on the unbuffered channel of the call, so the lock is part of the state: \<open>sc_mu\<close> is the
  responder that holds it, and a step that needs \<open>s.mu\<close> is enabled only when it is free.  All
  other operations that take \<open>s.mu\<close> (new connections, callbacks of transports, key updates,
  \<open>Stop\<close>) are represented by one event that needs the lock and changes nothing here.
\<close>

subsection \<open>Operations\<close>

definition Server_registerMethodCall :: "static_key \<Rightarrow> string \<Rightarrow> nat \<Rightarrow> nat MethodCalls \<Rightarrow> nat MethodCalls" where
  "Server_registerMethodCall pubKey i wait calls = PutMethodCallForPublicKey pubKey i wait calls"

definition Server_removeMethodCall :: "static_key \<Rightarrow> string \<Rightarrow> nat MethodCalls \<Rightarrow> nat MethodCalls" where
  "Server_removeMethodCall pubKey i calls = DeleteMethodCall pubKey i calls"

text \<open>\<open>Invoke\<close> up to the registration: the encoded request and the key of the peer.\<close>

definition Server_Invoke_request ::
  "'p proto \<Rightarrow> Message proto \<Rightarrow> go_ctx \<Rightarrow> string \<Rightarrow> string \<Rightarrow> 'p go_value \<Rightarrow> (static_key \<times> slice) res"
where
  "Server_Invoke_request pb wire ctx callID method args =
     (case NewRequest pb callID method args of
        Inl err \<Rightarrow> Inl err
      | Inr msg \<Rightarrow>
          (case MarshalProtoMessage wire (ProtoMessage msg) of
             Inl err \<Rightarrow> Inl err
           | Inr req \<Rightarrow>
               (case peer_FromContext ctx of
                  None \<Rightarrow> Inl (New ''could not extract public key'')
                | Some p \<Rightarrow> Inr (peer_PublicKey p, req))))"

definition Server_Invoke_result :: "'p proto \<Rightarrow> Response option \<Rightarrow> 'p go_value \<Rightarrow> 'p res go" where
  "Server_Invoke_result pb msg reply =
     go_bind (deref msg) (\<lambda>r.
       Ret (if resp_Error r \<noteq> [] then Inl (New (resp_Error r))
            else UnmarshalProtoMessage pb (Response_GetPayload msg) reply))"

subsection \<open>State and steps\<close>

datatype srv_outcome = SGot "Response option" | SGaveUp go_error | STimedOut

text \<open>
  Where an \<open>Invoke\<close> stands: registered, writing to the transport it has found, in its
  \<open>select\<close>, waiting for \<open>s.mu\<close> to remove a call that timed out, or returned.
\<close>

datatype srv_pc = SI_Registered | SI_Writing | SI_Waiting | SI_Removing | SI_Returned srv_outcome

record srv_invocation =
  si_key :: static_key
  si_id :: string
  si_ctx_done :: bool
  si_pc :: srv_pc

text \<open>The responder that is inside its critical section: what it sends, for which key and call.\<close>

record srv_responder =
  sr_key :: static_key
  sr_resp :: "Response option"
  sr_call :: nat

record srv_calls =
  sc_calls :: "nat MethodCalls"
  sc_mu :: "srv_responder option"
  sc_invs :: "srv_invocation list"

definition no_srv_calls :: srv_calls where
  "no_srv_calls = \<lparr>sc_calls = NewMethodCalls, sc_mu = None, sc_invs = []\<rparr>"

datatype srv_call_event =
    SC_Register static_key string \<comment> \<open>\<open>registerMethodCall\<close>, the id is fresh\<close>
  | SC_Lookup nat "nat res" \<comment> \<open>\<open>sendMsg\<close> asks for the transport\<close>
  | SC_Write nat "unit res" \<comment> \<open>\<open>sendMsg\<close> writes\<close>
  | SC_Arrive static_key "Response option" \<comment> \<open>\<open>handleMessageResponse\<close> up to \<open>call <- r\<close>\<close>
  | SC_Deliver \<comment> \<open>\<open>call <- r\<close> meets the \<open>select\<close> of the call, then the entry is removed\<close>
  | SC_CtxDone nat
  | SC_Timeout nat \<comment> \<open>\<open>Invoke\<close> takes \<open><-ctx.Done()\<close>\<close>
  | SC_Remove nat \<comment> \<open>\<open>Invoke\<close> removes the call that timed out\<close>
  | SC_Other \<comment> \<open>anything else that needs \<open>s.mu\<close>\<close>

definition si_pc_of :: "srv_calls \<Rightarrow> nat \<Rightarrow> srv_pc option" where
  "si_pc_of s n = (if n < length (sc_invs s) then Some (si_pc (sc_invs s ! n)) else None)"

definition set_si_pc :: "nat \<Rightarrow> srv_pc \<Rightarrow> srv_calls \<Rightarrow> srv_calls" where
  "set_si_pc n pc s = s\<lparr>sc_invs := (sc_invs s)[n := (sc_invs s ! n)\<lparr>si_pc := pc\<rparr>]\<rparr>"

definition Server_Invoke_register :: "static_key \<Rightarrow> string \<Rightarrow> srv_calls \<Rightarrow> srv_calls option" where
  "Server_Invoke_register pubKey callID s =
     (if sc_mu s \<noteq> None \<or> callID \<in> si_id ` set (sc_invs s) then None
      else Some (s\<lparr>sc_calls := Server_registerMethodCall pubKey callID (length (sc_invs s)) (sc_calls s),
        sc_invs := sc_invs s @ [\<lparr>si_key = pubKey, si_id = callID, si_ctx_done = False, si_pc = SI_Registered\<rparr>]\<rparr>))"

text \<open>The lookup of the transport is under \<open>s.mu\<close>, the write is not; either error is returned.\<close>

definition sendMsg_lookup :: "nat \<Rightarrow> nat res \<Rightarrow> srv_calls \<Rightarrow> srv_calls option" where
  "sendMsg_lookup n r s =
     (if sc_mu s = None \<and> si_pc_of s n = Some SI_Registered
      then Some (set_si_pc n (case r of Inl err \<Rightarrow> SI_Returned (SGaveUp err) | Inr _ \<Rightarrow> SI_Writing) s) else None)"

definition sendMsg_write :: "nat \<Rightarrow> unit res \<Rightarrow> srv_calls \<Rightarrow> srv_calls option" where
  "sendMsg_write n r s =
     (if si_pc_of s n = Some SI_Writing
      then Some (set_si_pc n (case r of Inl err \<Rightarrow> SI_Returned (SGaveUp err) | Inr _ \<Rightarrow> SI_Waiting) s) else None)"

definition Server_handleMessageResponse :: "static_key \<Rightarrow> Response option \<Rightarrow> srv_calls \<Rightarrow> srv_calls option" where
  "Server_handleMessageResponse pubKey r s =
     (if sc_mu s \<noteq> None then None
      else case GetMessageResponseChannelForPublicKey pubKey (Response_GetCallId r) (sc_calls s) of
             Inl err \<Rightarrow> Some s
           | Inr call \<Rightarrow> Some (s\<lparr>sc_mu := Some \<lparr>sr_key = pubKey, sr_resp = r, sr_call = call\<rparr>\<rparr>))"

definition Server_deliver :: "srv_calls \<Rightarrow> srv_calls option" where
  "Server_deliver s =
     (case sc_mu s of
        None \<Rightarrow> None
      | Some r \<Rightarrow>
          if si_pc_of s (sr_call r) = Some SI_Waiting
          then Some ((set_si_pc (sr_call r) (SI_Returned (SGot (sr_resp r))) s)
                 \<lparr>sc_calls := Server_removeMethodCall (sr_key r) (Response_GetCallId (sr_resp r)) (sc_calls s),
                  sc_mu := None\<rparr>)
          else None)"

definition Server_Invoke_timeout :: "nat \<Rightarrow> srv_calls \<Rightarrow> srv_calls option" where
  "Server_Invoke_timeout n s =
     (if si_pc_of s n = Some SI_Waiting \<and> si_ctx_done (sc_invs s ! n) then Some (set_si_pc n SI_Removing s) else None)"

definition Server_Invoke_remove :: "nat \<Rightarrow> srv_calls \<Rightarrow> srv_calls option" where
  "Server_Invoke_remove n s =
     (if sc_mu s = None \<and> si_pc_of s n = Some SI_Removing
      then Some ((set_si_pc n (SI_Returned STimedOut) s)
             \<lparr>sc_calls := Server_removeMethodCall (si_key (sc_invs s ! n)) (si_id (sc_invs s ! n)) (sc_calls s)\<rparr>)
      else None)"

primrec srv_call_step :: "srv_call_event \<Rightarrow> srv_calls \<Rightarrow> srv_calls option" where
  "srv_call_step (SC_Register k i) s = Server_Invoke_register k i s"
| "srv_call_step (SC_Lookup n r) s = sendMsg_lookup n r s"
| "srv_call_step (SC_Write n r) s = sendMsg_write n r s"
| "srv_call_step (SC_Arrive k r) s = Server_handleMessageResponse k r s"
| "srv_call_step SC_Deliver s = Server_deliver s"
| "srv_call_step (SC_CtxDone n) s =
     (if n < length (sc_invs s)
      then Some (s\<lparr>sc_invs := (sc_invs s)[n := (sc_invs s ! n)\<lparr>si_ctx_done := True\<rparr>]\<rparr>) else None)"
| "srv_call_step (SC_Timeout n) s = Server_Invoke_timeout n s"
| "srv_call_step (SC_Remove n) s = Server_Invoke_remove n s"
| "srv_call_step SC_Other s = (if sc_mu s = None then Some s else None)"

inductive srv_calls_reachable :: "srv_calls \<Rightarrow> bool" where
  srv_calls_init: "srv_calls_reachable no_srv_calls"
| srv_calls_next: "srv_calls_reachable s \<Longrightarrow> srv_call_step e s = Some s' \<Longrightarrow> srv_calls_reachable s'"

inductive_cases srv_calls_reachableE: "srv_calls_reachable s"

fun run_srv_calls :: "srv_call_event list \<Rightarrow> srv_calls \<Rightarrow> srv_calls option" where
  "run_srv_calls [] s = Some s"
| "run_srv_calls (e # es) s = (case srv_call_step e s of None \<Rightarrow> None | Some s1 \<Rightarrow> run_srv_calls es s1)"

lemma run_srv_calls_reachable:
  "srv_calls_reachable s \<Longrightarrow> run_srv_calls es s = Some s' \<Longrightarrow> srv_calls_reachable s'"
  by (induction es arbitrary: s) (auto split: option.splits intro: srv_calls_next)

subsection \<open>The invariant\<close>

text \<open>The positions at which a call is pending: it has not returned, or it gave up.\<close>

primrec is_pending :: "srv_pc \<Rightarrow> bool" where
  "is_pending SI_Registered = True"
| "is_pending SI_Writing = True"
| "is_pending SI_Waiting = True"
| "is_pending SI_Removing = True"
| "is_pending (SI_Returned res) = (case res of SGaveUp _ \<Rightarrow> True | _ \<Rightarrow> False)"

fun sgot_id :: "srv_pc \<Rightarrow> string option" where
  "sgot_id (SI_Returned (SGot r)) = Some (Response_GetCallId r)"
| "sgot_id _ = None"

definition srv_calls_inv :: "srv_calls \<Rightarrow> bool" where
  "srv_calls_inv s \<longleftrightarrow>
     distinct (map si_id (sc_invs s))
     \<and> (\<forall>k i n. abs_calls (sc_calls s) (k, i) = Some n \<longleftrightarrow>
          n < length (sc_invs s) \<and> si_key (sc_invs s ! n) = k \<and> si_id (sc_invs s ! n) = i
          \<and> is_pending (si_pc (sc_invs s ! n)))
     \<and> (\<forall>r. sc_mu s = Some r \<longrightarrow> sr_call r < length (sc_invs s)
          \<and> si_key (sc_invs s ! sr_call r) = sr_key r
          \<and> si_id (sc_invs s ! sr_call r) = Response_GetCallId (sr_resp r))
     \<and> (\<forall>iv \<in> set (sc_invs s). sgot_id (si_pc iv) \<in> {None, Some (si_id iv)})"

lemma srv_calls_inv_init: "srv_calls_inv no_srv_calls"
  by (simp add: srv_calls_inv_def no_srv_calls_def abs_New)

lemma si_pc_of_Some: "si_pc_of s n = Some pc \<longleftrightarrow> n < length (sc_invs s) \<and> si_pc (sc_invs s ! n) = pc"
  by (auto simp: si_pc_of_def)

lemma map_si_id_update:
  assumes "si_id iv = si_id (ivs ! n)"
  shows "map si_id (ivs[n := iv]) = map si_id ivs"
  using assms by (metis list_update_id map_update)

text \<open>Moving one call, with whatever table describes it then.\<close>

lemma srv_calls_inv_move:
  assumes inv: "srv_calls_inv s" and n: "n < length (sc_invs s)"
    and tab: "\<forall>k i m. abs_calls c (k, i) = Some m \<longleftrightarrow>
      (if m = n then si_key (sc_invs s ! n) = k \<and> si_id (sc_invs s ! n) = i \<and> is_pending pc
       else abs_calls (sc_calls s) (k, i) = Some m)"
    and got: "sgot_id pc \<in> {None, Some (si_id (sc_invs s ! n))}" and mu: "mu = None \<or> mu = sc_mu s"
  shows "srv_calls_inv (s\<lparr>sc_invs := (sc_invs s)[n := (sc_invs s ! n)\<lparr>si_pc := pc\<rparr>], sc_calls := c, sc_mu := mu\<rparr>)"
proof -
  let ?iv = "(sc_invs s ! n)\<lparr>si_pc := pc\<rparr>"
  let ?invs = "(sc_invs s)[n := ?iv]"
  have ids: "map si_id ?invs = map si_id (sc_invs s)" by (rule map_si_id_update) simp
  have nth: "si_id (?invs ! m) = si_id (sc_invs s ! m)" "si_key (?invs ! m) = si_key (sc_invs s ! m)" for m
    using n by (cases "m = n"; simp)+
  have pend: "abs_calls c (k, i) = Some m \<longleftrightarrow> m < length ?invs \<and> si_key (?invs ! m) = k \<and> si_id (?invs ! m) = i
      \<and> is_pending (si_pc (?invs ! m))" for k i m
    using inv n tab by (cases "m = n") (auto simp: srv_calls_inv_def)
  have old: "\<forall>iv \<in> set (sc_invs s). sgot_id (si_pc iv) \<in> {None, Some (si_id iv)}"
    using inv by (simp add: srv_calls_inv_def)
  have "\<forall>iv \<in> insert ?iv (set (sc_invs s)). sgot_id (si_pc iv) \<in> {None, Some (si_id iv)}"
    using old got by simp
  then have all: "\<forall>iv \<in> set ?invs. sgot_id (si_pc iv) \<in> {None, Some (si_id iv)}"
    using set_update_subset_insert [of "sc_invs s" n ?iv] by blast
  have "\<forall>r. mu = Some r \<longrightarrow> sr_call r < length (sc_invs s) \<and> si_key (sc_invs s ! sr_call r) = sr_key r
      \<and> si_id (sc_invs s ! sr_call r) = Response_GetCallId (sr_resp r)"
    using inv mu by (auto simp: srv_calls_inv_def)
  moreover have "distinct (map si_id ?invs)" unfolding ids using inv by (simp add: srv_calls_inv_def)
  ultimately show ?thesis
    unfolding srv_calls_inv_def using pend all by (simp add: nth)
qed

lemma srv_pending_unique:
  assumes "srv_calls_inv s" "n < length (sc_invs s)"
    and "abs_calls (sc_calls s) (si_key (sc_invs s ! n), si_id (sc_invs s ! n)) = Some m"
  shows "m = n"
  using assms nth_eq_iff_index_eq [of "map si_id (sc_invs s)" m n] by (auto simp: srv_calls_inv_def)

text \<open>The table after a pending call keeps pending, and after its entry has been removed.\<close>

lemma tab_keep:
  assumes "srv_calls_inv s" "n < length (sc_invs s)" "is_pending (si_pc (sc_invs s ! n))" "is_pending pc"
  shows "\<forall>k i m. abs_calls (sc_calls s) (k, i) = Some m \<longleftrightarrow>
      (if m = n then si_key (sc_invs s ! n) = k \<and> si_id (sc_invs s ! n) = i \<and> is_pending pc
       else abs_calls (sc_calls s) (k, i) = Some m)"
  using assms by (auto simp: srv_calls_inv_def)

lemma tab_remove:
  assumes "srv_calls_inv s" "n < length (sc_invs s)" "\<not> is_pending pc"
    and "k0 = si_key (sc_invs s ! n)" "i0 = si_id (sc_invs s ! n)"
  shows "\<forall>k i m. abs_calls (Server_removeMethodCall k0 i0 (sc_calls s)) (k, i) = Some m \<longleftrightarrow>
      (if m = n then si_key (sc_invs s ! n) = k \<and> si_id (sc_invs s ! n) = i \<and> is_pending pc
       else abs_calls (sc_calls s) (k, i) = Some m)"
proof (intro allI)
  fix k i m
  have t: "abs_calls (Server_removeMethodCall k0 i0 (sc_calls s)) (k, i) =
      (if (k, i) = (k0, i0) then None else abs_calls (sc_calls s) (k, i))"
    by (simp add: Server_removeMethodCall_def abs_Delete)
  have u: "abs_calls (sc_calls s) (k0, i0) = Some m \<Longrightarrow> m = n"
    using srv_pending_unique [OF assms(1,2)] assms(4,5) by simp
  have v: "abs_calls (sc_calls s) (k, i) = Some n \<Longrightarrow> (k, i) = (k0, i0)"
    using assms(1,4,5) by (auto simp: srv_calls_inv_def)
  show "abs_calls (Server_removeMethodCall k0 i0 (sc_calls s)) (k, i) = Some m \<longleftrightarrow>
      (if m = n then si_key (sc_invs s ! n) = k \<and> si_id (sc_invs s ! n) = i \<and> is_pending pc
       else abs_calls (sc_calls s) (k, i) = Some m)"
  proof (cases "(k, i) = (k0, i0)")
    case True
    with t u assms(3) show ?thesis by (cases "m = n") auto
  next
    case False
    with t have eq: "abs_calls (Server_removeMethodCall k0 i0 (sc_calls s)) (k, i) = abs_calls (sc_calls s) (k, i)"
      by (simp only: if_False)
    have "abs_calls (sc_calls s) (k, i) \<noteq> Some n" using v False by blast
    with assms(3) show ?thesis unfolding eq by (cases "m = n") simp_all
  qed
qed

lemma set_si_pc_inv:
  assumes "srv_calls_inv s" "si_pc_of s n = Some pc0" "is_pending pc0" "is_pending pc"
  shows "srv_calls_inv (set_si_pc n pc s)"
proof -
  have n: "n < length (sc_invs s)" "is_pending (si_pc (sc_invs s ! n))"
    using assms(2,3) by (auto simp: si_pc_of_Some)
  have "sgot_id pc = None" using assms(4) by (cases pc rule: sgot_id.cases) auto
  then have "srv_calls_inv (s\<lparr>sc_invs := (sc_invs s)[n := (sc_invs s ! n)\<lparr>si_pc := pc\<rparr>],
      sc_calls := sc_calls s, sc_mu := sc_mu s\<rparr>)"
    by (intro srv_calls_inv_move [OF assms(1) n(1) tab_keep [OF assms(1) n assms(4)]]) simp_all
  then show ?thesis by (simp add: set_si_pc_def)
qed

lemma Server_Invoke_register_inv:
  assumes "srv_calls_inv s" "Server_Invoke_register k0 i0 s = Some s'"
  shows "srv_calls_inv s'"
proof -
  let ?iv = "\<lparr>si_key = k0, si_id = i0, si_ctx_done = False, si_pc = SI_Registered\<rparr>"
  let ?n = "length (sc_invs s)"
  from assms(2) have new: "i0 \<notin> si_id ` set (sc_invs s)" and mu: "sc_mu s = None"
    and s': "s' = s\<lparr>sc_calls := PutMethodCallForPublicKey k0 i0 ?n (sc_calls s), sc_invs := sc_invs s @ [?iv]\<rparr>"
    by (auto simp: Server_Invoke_register_def Server_registerMethodCall_def split: if_splits)
  have tab: "abs_calls (PutMethodCallForPublicKey k0 i0 ?n (sc_calls s)) (k, i) = Some m \<longleftrightarrow>
      m < Suc ?n \<and> si_key ((sc_invs s @ [?iv]) ! m) = k \<and> si_id ((sc_invs s @ [?iv]) ! m) = i
      \<and> is_pending (si_pc ((sc_invs s @ [?iv]) ! m))" for k i m
  proof (cases "m < ?n")
    case True
    then have "si_id (sc_invs s ! m) \<noteq> i0" using new by auto
    with True assms(1) show ?thesis by (auto simp: srv_calls_inv_def abs_Put nth_append)
  next
    case False
    have "abs_calls (sc_calls s) (k, i) \<noteq> Some m" using False assms(1) by (auto simp: srv_calls_inv_def)
    with False show ?thesis by (auto simp: abs_Put nth_append less_Suc_eq)
  qed
  show ?thesis
    using assms(1) new tab mu unfolding s' by (auto simp: srv_calls_inv_def)
qed

lemma Server_deliver_inv:
  assumes "srv_calls_inv s" "Server_deliver s = Some s'"
  shows "srv_calls_inv s'"
proof -
  from assms(2) obtain r where r: "sc_mu s = Some r" and pc: "si_pc_of s (sr_call r) = Some SI_Waiting"
    and s': "s' = (set_si_pc (sr_call r) (SI_Returned (SGot (sr_resp r))) s)
                 \<lparr>sc_calls := Server_removeMethodCall (sr_key r) (Response_GetCallId (sr_resp r)) (sc_calls s),
                  sc_mu := None\<rparr>"
    by (auto simp: Server_deliver_def split: option.splits if_splits)
  from assms(1) r have m: "sr_call r < length (sc_invs s)" "sr_key r = si_key (sc_invs s ! sr_call r)"
    "Response_GetCallId (sr_resp r) = si_id (sc_invs s ! sr_call r)"
    by (auto simp: srv_calls_inv_def)
  show ?thesis
    unfolding s' set_si_pc_def using m
    by (simp add: srv_calls_inv_move [OF assms(1) m(1) tab_remove [OF assms(1) m(1) _ refl refl]])
qed

lemma Server_Invoke_remove_inv:
  assumes "srv_calls_inv s" "Server_Invoke_remove n s = Some s'"
  shows "srv_calls_inv s'"
proof -
  from assms(2) have mu: "sc_mu s = None" and n: "n < length (sc_invs s)"
    and s': "s' = (set_si_pc n (SI_Returned STimedOut) s)
             \<lparr>sc_calls := Server_removeMethodCall (si_key (sc_invs s ! n)) (si_id (sc_invs s ! n)) (sc_calls s)\<rparr>"
    by (auto simp: Server_Invoke_remove_def si_pc_of_Some split: if_splits)
  have "srv_calls_inv (s\<lparr>sc_invs := (sc_invs s)[n := (sc_invs s ! n)\<lparr>si_pc := SI_Returned STimedOut\<rparr>],
      sc_calls := Server_removeMethodCall (si_key (sc_invs s ! n)) (si_id (sc_invs s ! n)) (sc_calls s), sc_mu := sc_mu s\<rparr>)"
    by (rule srv_calls_inv_move [OF assms(1) n tab_remove [OF assms(1) n]]) simp_all
  then show ?thesis unfolding s' set_si_pc_def by simp
qed

lemma srv_ctx_done_inv:
  assumes "srv_calls_inv s" "n < length (sc_invs s)"
  shows "srv_calls_inv (s\<lparr>sc_invs := (sc_invs s)[n := (sc_invs s ! n)\<lparr>si_ctx_done := True\<rparr>]\<rparr>)"
proof -
  let ?iv = "(sc_invs s ! n)\<lparr>si_ctx_done := True\<rparr>"
  let ?invs = "(sc_invs s)[n := ?iv]"
  have ids: "map si_id ?invs = map si_id (sc_invs s)" by (rule map_si_id_update) simp
  have nth: "si_id (?invs ! m) = si_id (sc_invs s ! m)" "si_key (?invs ! m) = si_key (sc_invs s ! m)"
    "si_pc (?invs ! m) = si_pc (sc_invs s ! m)" for m
    using assms(2) by (cases "m = n"; simp)+
  have old: "\<forall>iv \<in> set (sc_invs s). sgot_id (si_pc iv) \<in> {None, Some (si_id iv)}"
    using assms(1) by (simp add: srv_calls_inv_def)
  have "sgot_id (si_pc (sc_invs s ! n)) \<in> {None, Some (si_id (sc_invs s ! n))}"
    using old nth_mem [OF assms(2)] by blast
  then have "\<forall>iv \<in> insert ?iv (set (sc_invs s)). sgot_id (si_pc iv) \<in> {None, Some (si_id iv)}"
    using old by simp
  then have "\<forall>iv \<in> set ?invs. sgot_id (si_pc iv) \<in> {None, Some (si_id iv)}"
    using set_update_subset_insert [of "sc_invs s" n ?iv] by blast
  with assms(1) ids show ?thesis by (simp add: srv_calls_inv_def nth)
qed

lemma Server_handleMessageResponse_inv:
  assumes "srv_calls_inv s" "Server_handleMessageResponse k r s = Some s'"
  shows "srv_calls_inv s'"
proof (cases "GetMessageResponseChannelForPublicKey k (Response_GetCallId r) (sc_calls s)")
  case (Inl e)
  with assms show ?thesis by (auto simp: Server_handleMessageResponse_def split: if_splits)
next
  case (Inr n)
  then have "abs_calls (sc_calls s) (k, Response_GetCallId r) = Some n" by (simp add: Get_abs)
  with assms Inr show ?thesis
    by (auto simp: Server_handleMessageResponse_def srv_calls_inv_def split: if_splits)
qed

lemma srv_call_step_inv:
  assumes "srv_calls_inv s" "srv_call_step e s = Some s'"
  shows "srv_calls_inv s'"
proof (cases e)
  case (SC_Lookup n r)
  with assms show ?thesis
    by (auto simp: sendMsg_lookup_def split: if_splits sum.splits intro!: set_si_pc_inv)
next
  case (SC_Write n r)
  with assms show ?thesis
    by (auto simp: sendMsg_write_def split: if_splits sum.splits intro!: set_si_pc_inv)
next
  case (SC_Timeout n)
  with assms show ?thesis
    by (auto simp: Server_Invoke_timeout_def split: if_splits intro!: set_si_pc_inv)
next
  case (SC_CtxDone n)
  with assms show ?thesis by (auto simp: srv_ctx_done_inv split: if_splits)
next
  case SC_Other
  with assms show ?thesis by (auto split: if_splits)
next
  case (SC_Register k i)
  with assms(2) show ?thesis by (intro Server_Invoke_register_inv [OF assms(1)]) simp
next
  case (SC_Arrive k r)
  with assms(2) show ?thesis by (intro Server_handleMessageResponse_inv [OF assms(1)]) simp
next
  case SC_Deliver
  with assms(2) show ?thesis by (intro Server_deliver_inv [OF assms(1)]) simp
next
  case (SC_Remove n)
  with assms(2) show ?thesis by (intro Server_Invoke_remove_inv [OF assms(1)]) simp
qed

lemma srv_calls_reachable_inv: "srv_calls_reachable s \<Longrightarrow> srv_calls_inv s"
proof (induction rule: srv_calls_reachable.induct)
  case srv_calls_init
  then show ?case by (rule srv_calls_inv_init)
next
  case (srv_calls_next s e s')
  then show ?case by (blast intro: srv_call_step_inv)
qed

subsection \<open>Properties\<close>

text \<open>
  C6.  A server files every pending call under the key and the id it was made with, and gives a
  call only a response with its own id that came over a connection of its own peer: in every
  reachable state the table holds exactly the calls that have not returned and, which is a leak,
  the calls that returned because \<open>sendMsg\<close> failed; and the responder that holds the lock has
  the key and the id of its call.
\<close>

theorem server_calls_correct:
  assumes "srv_calls_reachable s" "n < length (sc_invs s)"
  shows "(GetMessageResponseChannelForPublicKey (si_key (sc_invs s ! n)) (si_id (sc_invs s ! n)) (sc_calls s) = Inr n
      \<longleftrightarrow> (\<forall>r. si_pc (sc_invs s ! n) \<noteq> SI_Returned (SGot r)) \<and> si_pc (sc_invs s ! n) \<noteq> SI_Returned STimedOut)
    \<and> (si_pc (sc_invs s ! n) = SI_Returned (SGot r) \<longrightarrow> Response_GetCallId r = si_id (sc_invs s ! n))
    \<and> (sc_mu s = Some h \<and> sr_call h = n \<longrightarrow>
         sr_key h = si_key (sc_invs s ! n) \<and> Response_GetCallId (sr_resp h) = si_id (sc_invs s ! n))"
proof (intro conjI)
  have inv: "srv_calls_inv s" by (rule srv_calls_reachable_inv [OF assms(1)])
  have p: "is_pending pc \<longleftrightarrow> (\<forall>r. pc \<noteq> SI_Returned (SGot r)) \<and> pc \<noteq> SI_Returned STimedOut" for pc
    by (cases pc) (auto split: srv_outcome.split)
  show "GetMessageResponseChannelForPublicKey (si_key (sc_invs s ! n)) (si_id (sc_invs s ! n)) (sc_calls s) = Inr n
      \<longleftrightarrow> (\<forall>r. si_pc (sc_invs s ! n) \<noteq> SI_Returned (SGot r)) \<and> si_pc (sc_invs s ! n) \<noteq> SI_Returned STimedOut"
    using inv assms(2) by (simp add: Get_abs srv_calls_inv_def p)
  have got: "sgot_id (si_pc (sc_invs s ! n)) \<in> {None, Some (si_id (sc_invs s ! n))}"
    using inv nth_mem [OF assms(2)] by (simp add: srv_calls_inv_def)
  show "si_pc (sc_invs s ! n) = SI_Returned (SGot r) \<longrightarrow> Response_GetCallId r = si_id (sc_invs s ! n)"
    using got by (metis insertE option.distinct(1) option.inject sgot_id.simps(1) singletonD)
  show "sc_mu s = Some h \<and> sr_call h = n \<longrightarrow>
      sr_key h = si_key (sc_invs s ! n) \<and> Response_GetCallId (sr_resp h) = si_id (sc_invs s ! n)"
    using inv by (auto simp: srv_calls_inv_def)
qed

lemmas srv_call_run_defs = no_srv_calls_def Server_Invoke_register_def Server_registerMethodCall_def
  sendMsg_lookup_def sendMsg_write_def Server_handleMessageResponse_def Server_deliver_def Server_Invoke_timeout_def
  Server_Invoke_remove_def Server_removeMethodCall_def set_si_pc_def si_pc_of_def method_calls_defs
  Response_GetCallId_def Let_def

definition answer :: "string \<Rightarrow> Response option" where
  "answer i = Some \<lparr>resp_CallId = i, resp_Payload = None, resp_Error = []\<rparr>"

text \<open>One call is answered, a second one cannot be sent.\<close>

definition srv_two_calls :: "srv_call_event list" where
  "srv_two_calls = [SC_Register (key_of 1) ''a'', SC_Lookup 0 (Inr 0), SC_Write 0 (Inr ()),
     SC_Register (key_of 2) ''b'', SC_Lookup 1 (Inl ErrNotConnected), SC_Arrive (key_of 1) (answer ''a''), SC_Deliver]"

theorem server_calls_correct_witness:
  "\<exists>s. srv_calls_reachable s \<and> si_pc (sc_invs s ! 0) = SI_Returned (SGot (answer ''a''))
     \<and> si_pc (sc_invs s ! 1) = SI_Returned (SGaveUp ErrNotConnected)
     \<and> GetMessageResponseChannelForPublicKey (key_of 2) ''b'' (sc_calls s) = Inr 1"
proof -
  obtain s where r: "run_srv_calls srv_two_calls no_srv_calls = Some s" "1 < length (sc_invs s)"
    "si_pc (sc_invs s ! 0) = SI_Returned (SGot (answer ''a''))"
    "si_pc (sc_invs s ! 1) = SI_Returned (SGaveUp ErrNotConnected)"
    "si_key (sc_invs s ! 1) = key_of 2" "si_id (sc_invs s ! 1) = ''b''"
    by (simp add: srv_two_calls_def srv_call_run_defs answer_def)
  have reach: "srv_calls_reachable s" by (rule run_srv_calls_reachable [OF srv_calls_init r(1)])
  from server_calls_correct [OF reach r(2), THEN conjunct1] r(3-) reach show ?thesis by auto
qed

lemma stuck_lock_step:
  assumes "srv_call_step e s = Some s'" "sc_mu s = Some h" "si_pc_of s (sr_call h) = Some SI_Removing"
  shows "sc_mu s' = Some h \<and> si_pc_of s' (sr_call h) = Some SI_Removing"
  using assms
  by (cases e)
    (auto simp: Server_Invoke_register_def sendMsg_lookup_def sendMsg_write_def Server_handleMessageResponse_def
      Server_deliver_def Server_Invoke_timeout_def Server_Invoke_remove_def set_si_pc_def si_pc_of_def nth_list_update
      split: if_splits sum.splits)


text \<open>The response arrives when the context of the call is done, and \<open>select\<close> takes the context.\<close>

definition deadlock_run :: "srv_call_event list" where
  "deadlock_run = [SC_Register (key_of 1) ''a'', SC_Lookup 0 (Inr 0), SC_Write 0 (Inr ()), SC_Other,
     SC_CtxDone 0, SC_Arrive (key_of 1) (answer ''a''), SC_Timeout 0]"


text \<open>
  When nothing holds the lock, a response ends the call that waits for it: the call
  returns with this response, its entry is removed, and the lock is free again.
\<close>

lemma server_response_ends_call:
  assumes "srv_calls_inv s" "sc_mu s = None" "si_pc_of s n = Some SI_Waiting"
    and "Response_GetCallId r = si_id (sc_invs s ! n)"
  shows "\<exists>s'. run_srv_calls [SC_Arrive (si_key (sc_invs s ! n)) r, SC_Deliver] s = Some s'
    \<and> si_pc_of s' n = Some (SI_Returned (SGot r)) \<and> sc_mu s' = None
    \<and> abs_calls (sc_calls s') = (abs_calls (sc_calls s))((si_key (sc_invs s ! n), si_id (sc_invs s ! n)) := None)"
proof -
  have n: "n < length (sc_invs s)" "si_pc (sc_invs s ! n) = SI_Waiting" using assms(3) by (auto simp: si_pc_of_Some)
  have "abs_calls (sc_calls s) (si_key (sc_invs s ! n), si_id (sc_invs s ! n)) = Some n"
    using assms(1) n by (simp add: srv_calls_inv_def)
  then have "GetMessageResponseChannelForPublicKey (si_key (sc_invs s ! n)) (Response_GetCallId r) (sc_calls s) = Inr n"
    by (simp add: Get_abs assms(4))
  with assms n show ?thesis
    by (simp add: Server_handleMessageResponse_def Server_deliver_def si_pc_of_def set_si_pc_def
        Server_removeMethodCall_def abs_Delete)
qed

end
