(* ===== verification/Rpc.thy ===== *)
theory Rpc
  imports ClientCalls ServerCalls
begin

text \<open>
  The two endpoints put together: what the readers make of the messages the other side writes,
  and what a registered service answers.  Shared by the end-to-end properties of the root theory.
\<close>

text \<open>A request as the reader of the other side sees it.\<close>

definition sent_request :: "string \<Rightarrow> string \<Rightarrow> slice \<Rightarrow> Request option" where
  "sent_request callID method payload =
     Some \<lparr>req_Method = method, req_CallId = callID, req_Payload = norm_slice payload\<rparr>"

definition sent_response :: "string \<Rightarrow> slice \<Rightarrow> go_error option \<Rightarrow> Response option" where
  "sent_response callID payload herr =
     Some \<lparr>resp_CallId = callID, resp_Payload = norm_slice payload,
       resp_Error = (case herr of None \<Rightarrow> [] | Some e \<Rightarrow> Error e)\<rparr>"

lemma sent_request_simps [simp]:
  "Request_GetMethod (sent_request i m p) = m"
  "Request_GetCallId (sent_request i m p) = i"
  "Request_GetPayload (sent_request i m p) = norm_slice p"
  by (simp_all add: sent_request_def go_simps)

lemma sent_response_CallId [simp]: "Response_GetCallId (sent_response i p e) = i"
  by (simp add: sent_response_def go_simps)

lemma request_arrives:
  assumes "decodes wire norm_message" "NewRequest pb callID method args = Inr m" "pb_marshal wire m = Inr b"
  obtains p payload where "args = ProtoMessage p" "pb_marshal pb p = Inr payload"
    "Server_handleRead wire b = SrvHandleRequest (sent_request callID method payload)"
    "ClientConn_handleRead wire b = HandleRequest (sent_request callID method payload)"
proof -
  from assms(2) obtain p payload where p: "args = ProtoMessage p" "pb_marshal pb p = Inr payload"
    and m: "m = \<lparr>msg_Exchange = Some (Message_Request (Some
          \<lparr>req_Method = method, req_CallId = callID, req_Payload = payload\<rparr>))\<rparr>"
    by (auto simp: NewRequest_Inr)
  have "UnmarshalProtoMessage wire b (ProtoMessage empty_message) = Inr (norm_message m)"
    using wire_decode [OF assms(1), of m b empty_message] assms(3) by (simp add: MarshalProtoMessage_def)
  then show ?thesis
    using that [OF p]
    by (simp add: m go_simps Server_handleRead_def ClientConn_handleRead_def sent_request_def)
qed

lemma response_arrives_at_reader:
  assumes "decodes wire norm_message" "NewResponse pb callID (ProtoMessage out) herr = Inr m"
    and "MarshalProtoMessage wire (ProtoMessage m) = Inr b" "pb_marshal pb out = Inr payload"
  shows "ClientConn_handleRead wire b = HandleResponse (sent_response callID payload herr)
    \<and> Server_handleRead wire b = SrvHandleResponse (sent_response callID payload herr)"
proof -
  from assms(2,4) have m: "m = \<lparr>msg_Exchange = Some (Message_Response (Some
      \<lparr>resp_CallId = callID, resp_Payload = payload, resp_Error = (case herr of None \<Rightarrow> [] | Some e \<Rightarrow> Error e)\<rparr>))\<rparr>"
    by (auto simp: NewResponse_Inr)
  from wire_decode [OF assms(1,3), of empty_message] show ?thesis
    by (simp add: m go_simps Server_handleRead_def ClientConn_handleRead_def sent_response_def split: option.split)
qed

text \<open>What the caller makes of the response: the error text if there is one, else the decoded reply.\<close>

definition call_result :: "'p \<Rightarrow> go_error option \<Rightarrow> 'p res" where
  "call_result out herr =
     (case herr of
        None \<Rightarrow> Inr out
      | Some e \<Rightarrow> if Error e = [] then Inr out else Inl (New (Error e)))"

lemma result_of_response:
  assumes "decodes pb norm" "pb_marshal pb out = Inr payload"
  shows "Invoke_result pb (sent_response callID payload herr) (ProtoMessage t) = Ret (call_result (norm out) herr)
    \<and> Server_Invoke_result pb (sent_response callID payload herr) (ProtoMessage t) = Ret (call_result (norm out) herr)"
proof -
  have "UnmarshalProtoMessage pb (norm_slice payload) (ProtoMessage t) = Inr (norm out)"
    using payload_decode [OF assms(1)] assms(2) by (simp add: marshalProtoMessage_def)
  then show ?thesis
    by (auto simp: Invoke_result_def Server_Invoke_result_def sent_response_def go_simps call_result_def split: option.split)
qed

text \<open>A registered generated handler, run on a request that has arrived.\<close>

lemma generated_handler_runs:
  assumes "decodes pb norm" "pb_marshal pb p = Inr payload"
  shows "generated_handler new_in method srv ctx (UnmarshalProtoMessage pb (norm_slice payload)) = method srv ctx (norm p)"
proof -
  have "UnmarshalProtoMessage pb (norm_slice payload) (ProtoMessage new_in) = Inr (norm p)"
    using payload_decode [OF assms(1)] assms(2) by (simp add: marshalProtoMessage_def)
  then show ?thesis by (simp add: generated_handler_def)
qed

lemma Server_serves:
  assumes "srv_service s = Some si" "si_methods si (Request_GetMethod r) = Some d"
    and "uuid_parse (Request_GetCallId r) = Inr 4"
    and "md_Handler d (si_serviceImpl si) (peer_NewContext Background \<lparr>peer_PublicKey = key\<rparr>)
           (UnmarshalProtoMessage pb (Request_GetPayload r)) = (ProtoMessage out, herr)"
    and "NewResponse pb (Request_GetCallId r) (ProtoMessage out) herr = Inr m"
    and "MarshalProtoMessage wire (ProtoMessage m) = Inr b"
  shows "Server_handleMessageRequest uuid_parse pb wire key s r = Ret (Some b)"
  using assms by (simp add: Server_handleMessageRequest_def validateMessageRequest_def Let_def)

lemma Client_serves:
  assumes "cc_service cc = Some si" "si_methods si (Request_GetMethod r) = Some d"
    and "md_Handler d (si_serviceImpl si) Background (UnmarshalProtoMessage pb (Request_GetPayload r)) = (ProtoMessage out, herr)"
    and "NewResponse pb (Request_GetCallId r) (ProtoMessage out) herr = Inr m"
    and "MarshalProtoMessage wire (ProtoMessage m) = Inr b"
  shows "ClientConn_handleMessageRequest pb wire cc r = Ret (Some b)"
  using assms by (simp add: ClientConn_handleMessageRequest_def Let_def)

text \<open>What is not answered: an invalid request, and a request whose handler's reply cannot be encoded.\<close>

lemma no_service_panics:
  "srv_service s = None \<Longrightarrow> Server_handleMessageRequest uuid_parse pb wire key s r = Panic NilDereference"
  "cc_service cc = None \<Longrightarrow> ClientConn_handleMessageRequest pb wire cc r = Panic NilDereference"
  by (simp_all add: Server_handleMessageRequest_def validateMessageRequest_def ClientConn_handleMessageRequest_def)

lemma invalid_request_dropped:
  assumes "srv_service s = Some si"
    and "si_methods si (Request_GetMethod r) = None \<or> uuid_parse (Request_GetCallId r) \<noteq> Inr 4"
  shows "Server_handleMessageRequest uuid_parse pb wire key s r = Ret None"
proof -
  have "\<exists>e. validateMessageRequest uuid_parse s r = Ret (Inl e)"
  proof (cases "si_methods si (Request_GetMethod r)")
    case None
    then show ?thesis by (simp add: validateMessageRequest_def assms(1))
  next
    case (Some d)
    then have "uuid_parse (Request_GetCallId r) \<noteq> Inr 4" using assms(2) by simp
    then show ?thesis
      by (cases "uuid_parse (Request_GetCallId r)") (simp_all add: validateMessageRequest_def assms(1) Some)
  qed
  then obtain e where "validateMessageRequest uuid_parse s r = Ret (Inl e)" ..
  then show ?thesis by (simp add: Server_handleMessageRequest_def)
qed

lemma unknown_method_dropped:
  "\<lbrakk>cc_service cc = Some si; si_methods si (Request_GetMethod r) = None\<rbrakk>
   \<Longrightarrow> ClientConn_handleMessageRequest pb wire cc r = Ret None"
  by (simp add: ClientConn_handleMessageRequest_def)

lemma generated_handler_error:
  assumes "is_err (dec (ProtoMessage new_in))"
  obtains e where "generated_handler new_in method srv ctx dec = (NilValue, Some e)"
  using assms by (cases "dec (ProtoMessage new_in)") (simp_all add: generated_handler_def)

lemma NewResponse_nil: "is_err (NewResponse pb i NilValue e)"
  by (simp add: NewResponse_def marshalProtoMessage_def)

lemma Server_drops_undecodable:
  assumes "srv_service s = Some si" "si_methods si (Request_GetMethod r) = Some d"
    and "md_Handler d = generated_handler new_in method"
    and bad: "is_err (UnmarshalProtoMessage pb (Request_GetPayload r) (ProtoMessage new_in))"
  shows "Server_handleMessageRequest uuid_parse pb wire key s r = Ret None"
proof (cases "uuid_parse (Request_GetCallId r) = Inr 4")
  case True
  obtain e where h: "generated_handler new_in method (si_serviceImpl si) (peer_NewContext Background \<lparr>peer_PublicKey = key\<rparr>)
      (UnmarshalProtoMessage pb (Request_GetPayload r)) = (NilValue, Some e)"
    by (rule generated_handler_error [where dec = "UnmarshalProtoMessage pb (Request_GetPayload r)", OF bad])
  obtain e' where n: "NewResponse pb (Request_GetCallId r) NilValue (Some e) = Inl e'"
    using NewResponse_nil [of pb "Request_GetCallId r" "Some e"] by (auto simp: is_err_def split: sum.splits)
  have "validateMessageRequest uuid_parse s r = Ret (Inr ())"
    by (simp add: validateMessageRequest_def assms(1,2) True)
  then show ?thesis
    by (simp add: Server_handleMessageRequest_def assms(1-3) h n Let_def)
next
  case False
  then show ?thesis by (simp add: invalid_request_dropped [OF assms(1)])
qed

lemma Client_drops_undecodable:
  assumes "cc_service cc = Some si" "si_methods si (Request_GetMethod r) = Some d"
    and "md_Handler d = generated_handler new_in method"
    and bad: "is_err (UnmarshalProtoMessage pb (Request_GetPayload r) (ProtoMessage new_in))"
  shows "ClientConn_handleMessageRequest pb wire cc r = Ret None"
proof -
  obtain e where h: "generated_handler new_in method (si_serviceImpl si) Background
      (UnmarshalProtoMessage pb (Request_GetPayload r)) = (NilValue, Some e)"
    by (rule generated_handler_error [where dec = "UnmarshalProtoMessage pb (Request_GetPayload r)", OF bad])
  obtain e' where n: "NewResponse pb (Request_GetCallId r) NilValue (Some e) = Inl e'"
    using NewResponse_nil [of pb "Request_GetCallId r" "Some e"] by (auto simp: is_err_def split: sum.splits)
  show ?thesis by (simp add: ClientConn_handleMessageRequest_def assms(1-3) h n Let_def)
qed

subsection \<open>Endpoints for concrete runs\<close>

text \<open>Concrete services and endpoints for the witnesses: payload messages are byte strings.\<close>

definition echo_service :: "(unit, bytes) ServiceDesc" where
  "echo_service = \<lparr>sd_ServiceName = ''echo'', sd_HandlerType = ''EchoServer'',
     sd_Methods = [\<lparr>md_MethodName = ''Echo'', md_Handler = generated_handler []
       (\<lambda>srv ctx p. (ProtoMessage (p @ p), if p = [0] then Some (New ''zero'') else None))\<rparr>]\<rparr>"

text \<open>The ids of the witnesses: every string is a version 4 UUID but the empty one.\<close>

definition demo_uuid_parse :: "string \<Rightarrow> nat res" where
  "demo_uuid_parse i = (if i = [] then Inl (New ''invalid UUID length: 0'') else Inr 4)"

definition echo_server :: "(unit, bytes) Server" where
  "echo_server = NewServer [] \<lparr>pk_next = 0, pk_keys = \<lambda>_. []\<rparr> empty_chans"

text \<open>A client, without a connection.\<close>

definition demo_client :: "(unit, bytes) ClientConn" where
  "demo_client = \<lparr>cc_target = ''host'', cc_dopts = defaultDialOptions, cc_conn = fresh_conn, cc_addrConn = True,
     cc_methodCalls = Map.empty, cc_service = None\<rparr>"

end
