(* ===== verification/EndToEnd.thy ===== *)
theory EndToEnd
  imports Rpc Transport
begin

text \<open>
  A client and a server together, in every interleaving.  The client makes any number of calls at once
  (\<open>ClientCalls\<close>) over any number of connections, one after the other or overlapping; a connection is a
  transport at each end (\<open>Transport\<close>) and the messages under way between them, which arrive in order but
  may never arrive; the server runs a goroutine \<open>handleMessageRequest\<close> for each request it reads, and
  sends its reply over any connection of the client.  An event of the system is an event of one of these
  parts, or of two of them that meet.  Calls in the other direction share the connections: their
  messages are the other traffic.
\<close>

subsection \<open>State\<close>

text \<open>What does not change: the encoders, the key of the client and the server with its service.\<close>

record ('i, 'p) endpoints =
  ep_pb :: "'p proto"
  ep_wire :: "Message proto"
  ep_uuid :: "string \<Rightarrow> nat res"
  ep_key :: static_key
  ep_server :: "('i, 'p) Server"

text \<open>
  A connection.  \<open>ln_up\<close> counts the messages of the client that the server has read from its websocket,
  \<open>ln_down\<close> those of the server that the client has read.  \<open>ln_calls\<close> is history: the call for which
  the client wrote each of its messages.
\<close>

record rpc_link =
  ln_client :: WebsocketClient
  ln_server :: WebsocketServer
  ln_up :: nat
  ln_down :: nat
  ln_calls :: "nat option list"

text \<open>What \<open>Invoke\<close> was called with, and the request it writes.\<close>

record 'p rpc_call =
  rc_method :: string
  rc_args :: 'p
  rc_request :: slice

datatype handler_pc = HD_Serving | HD_Replying slice | HD_Replied slice | HD_NoReply

text \<open>
  A goroutine \<open>handleMessageRequest\<close> of the server.  \<open>hd_link\<close> and \<open>hd_pos\<close> are history: the
  connection its request came from, and which message of it this was.
\<close>

record served_request =
  hd_link :: nat
  hd_pos :: nat
  hd_req :: "Request option"
  hd_pc :: handler_pc

text \<open>\<open>sy_responses\<close>: the goroutines \<open>handleMessageResponse\<close> that have not looked up their call yet.\<close>

record 'p rpc_system =
  sy_calls :: call_sys
  sy_requests :: "'p rpc_call list"
  sy_links :: "rpc_link list"
  sy_served :: "served_request list"
  sy_responses :: "Response option list"

definition no_traffic :: "'p rpc_system" where
  "no_traffic = \<lparr>sy_calls = no_calls, sy_requests = [], sy_links = [], sy_served = [], sy_responses = []\<rparr>"

subsection \<open>Events\<close>

datatype 'p rpc_event =
    SY_Connect ConnectOptions ServerConfig \<comment> \<open>a new connection\<close>
  | SY_Invoke string string 'p \<comment> \<open>\<open>Invoke\<close> encodes its request and registers the call\<close>
  | SY_Send nat nat bool \<comment> \<open>a call and a connection: \<open>Write\<close> of the request\<close>
  | SY_Call call_event \<comment> \<open>another step of the calls\<close>
  | SY_Client nat pump_event \<comment> \<open>the client end of a connection\<close>
  | SY_Server nat pump_event \<comment> \<open>the server end of a connection\<close>
  | SY_ServerRead nat \<comment> \<open>\<open>handleRead\<close> of the server takes a message\<close>
  | SY_Serve nat \<comment> \<open>a handler runs\<close>
  | SY_Reply nat nat bool \<comment> \<open>a handler and a connection: \<open>Write\<close> of the reply\<close>
  | SY_NotSent nat \<comment> \<open>\<open>sendMsg\<close> of a handler fails\<close>
  | SY_ClientRead nat \<comment> \<open>\<open>handleRead\<close> of the client takes a message\<close>
  | SY_Respond nat \<comment> \<open>\<open>handleMessageResponse\<close> looks up the call\<close>
  | SY_ClientSends nat slice bool \<comment> \<open>other traffic\<close>
  | SY_ServerSends nat slice bool

text \<open>An event at one end of a connection, with what changes in the connection besides.\<close>

definition at_client :: "nat \<Rightarrow> pump_event \<Rightarrow> (rpc_link \<Rightarrow> rpc_link) \<Rightarrow> 'p rpc_system \<Rightarrow> 'p rpc_system go option" where
  "at_client l e f y =
     (if l < length (sy_links y)
      then map_option (\<lambda>r. go_bind r (\<lambda>t. Ret (y\<lparr>sy_links := (sy_links y)[l := f ((sy_links y ! l)\<lparr>ln_client := t\<rparr>)]\<rparr>)))
             (client_step (ln_client (sy_links y ! l)) e)
      else None)"

definition at_server :: "nat \<Rightarrow> pump_event \<Rightarrow> (rpc_link \<Rightarrow> rpc_link) \<Rightarrow> 'p rpc_system \<Rightarrow> 'p rpc_system go option" where
  "at_server l e f y =
     (if l < length (sy_links y)
      then map_option (\<lambda>r. go_bind r (\<lambda>t. Ret (y\<lparr>sy_links := (sy_links y)[l := f ((sy_links y ! l)\<lparr>ln_server := t\<rparr>)]\<rparr>)))
             (server_step (ln_server (sy_links y ! l)) e)
      else None)"

text \<open>
  The events a connection takes by itself.  \<open>ReadMessage\<close> returns the next message the peer has written;
  the receives from \<open>Read\<close> and the calls of \<open>Write\<close> belong to the endpoints.
\<close>

definition by_itself :: "pump_event \<Rightarrow> nat \<Rightarrow> slice list \<Rightarrow> bool" where
  "by_itself e n sent =
     (case e of
        ReadReturns m \<Rightarrow> n < length sent \<and> m = sent ! n
      | ReaderTakes \<Rightarrow> False
      | WriterGives m ok \<Rightarrow> False
      | _ \<Rightarrow> True)"

definition is_read :: "pump_event \<Rightarrow> bool" where
  "is_read e = (case e of ReadReturns m \<Rightarrow> True | _ \<Rightarrow> False)"

definition in_hand_msg :: "'a transport_scheme \<Rightarrow> slice" where
  "in_hand_msg t = (case tr_readPump t of RP_Sending m \<Rightarrow> m | _ \<Rightarrow> None)"

definition calls_to :: "call_event \<Rightarrow> 'p rpc_system \<Rightarrow> 'p rpc_system option" where
  "calls_to e y = map_option (\<lambda>c. y\<lparr>sy_calls := c\<rparr>) (call_step e (sy_calls y))"

definition set_handler :: "nat \<Rightarrow> handler_pc \<Rightarrow> 'p rpc_system \<Rightarrow> 'p rpc_system" where
  "set_handler k pc y = y\<lparr>sy_served := (sy_served y)[k := (sy_served y ! k)\<lparr>hd_pc := pc\<rparr>]\<rparr>"

text \<open>The steps of the calls that need no connection.\<close>

fun call_event_alone :: "call_event \<Rightarrow> bool" where
  "call_event_alone (CE_Register i) = False"
| "call_event_alone (CE_Sent n) = False"
| "call_event_alone (CE_Arrive r) = False"
| "call_event_alone _ = True"

subsection \<open>Steps\<close>

definition sys_connect :: "ConnectOptions \<Rightarrow> ServerConfig \<Rightarrow> 'p rpc_system \<Rightarrow> 'p rpc_system" where
  "sys_connect opts config y = y\<lparr>sy_links := sy_links y @
     [\<lparr>ln_client = WebsocketClient_Start (newWebsocketClientConfig opts), ln_server = NewServerTransport config,
       ln_up = 0, ln_down = 0, ln_calls = []\<rparr>]\<rparr>"

definition sys_invoke :: "('i, 'p) endpoints \<Rightarrow> string \<Rightarrow> string \<Rightarrow> 'p \<Rightarrow> 'p rpc_system \<Rightarrow> 'p rpc_system option" where
  "sys_invoke w callID m args y =
     (case Invoke_request (ep_pb w) (ep_wire w) callID m (ProtoMessage args) of
        Inl err \<Rightarrow> None
      | Inr reqB \<Rightarrow>
          map_option (\<lambda>y1. y1\<lparr>sy_requests := sy_requests y @ [\<lparr>rc_method = m, rc_args = args, rc_request = reqB\<rparr>]\<rparr>)
            (calls_to (CE_Register callID) y))"

text \<open>\<open>Write\<close> returns once the write pump has the message, whether or not writing it succeeds.\<close>

definition sys_send :: "nat \<Rightarrow> nat \<Rightarrow> bool \<Rightarrow> 'p rpc_system \<Rightarrow> 'p rpc_system go option" where
  "sys_send n l ok y =
     (case calls_to (CE_Sent n) y of
        None \<Rightarrow> None
      | Some y1 \<Rightarrow>
          if n < length (sy_requests y)
          then at_client l (WriterGives (rc_request (sy_requests y ! n)) ok)
                 (\<lambda>k. if ok then k\<lparr>ln_calls := ln_calls k @ [Some n]\<rparr> else k) y1
          else None)"

definition sys_server_read :: "('i, 'p) endpoints \<Rightarrow> nat \<Rightarrow> 'p rpc_system \<Rightarrow> 'p rpc_system go option" where
  "sys_server_read w l y =
     map_option (\<lambda>r. go_bind r (\<lambda>y1. Ret (
         case Server_handleRead (ep_wire w) (in_hand_msg (ln_server (sy_links y ! l))) of
           SrvHandleRequest q \<Rightarrow> y1\<lparr>sy_served := sy_served y @
             [\<lparr>hd_link = l, hd_pos = length (tr_delivered (ln_server (sy_links y ! l))), hd_req = q, hd_pc = HD_Serving\<rparr>]\<rparr>
         | _ \<Rightarrow> y1)))
       (at_server l ReaderTakes id y)"

definition sys_client_read :: "('i, 'p) endpoints \<Rightarrow> nat \<Rightarrow> 'p rpc_system \<Rightarrow> 'p rpc_system go option" where
  "sys_client_read w l y =
     map_option (\<lambda>r. go_bind r (\<lambda>y1. Ret (
         case ClientConn_handleRead (ep_wire w) (in_hand_msg (ln_client (sy_links y ! l))) of
           HandleResponse q \<Rightarrow> y1\<lparr>sy_responses := sy_responses y @ [q]\<rparr>
         | _ \<Rightarrow> y1)))
       (at_client l ReaderTakes id y)"

definition sys_serve :: "('i, 'p) endpoints \<Rightarrow> nat \<Rightarrow> 'p rpc_system \<Rightarrow> 'p rpc_system go option" where
  "sys_serve w k y =
     (if k < length (sy_served y) \<and> hd_pc (sy_served y ! k) = HD_Serving
      then Some (go_bind (Server_handleMessageRequest (ep_uuid w) (ep_pb w) (ep_wire w) (ep_key w) (ep_server w)
                   (hd_req (sy_served y ! k))) (\<lambda>r.
             Ret (set_handler k (case r of None \<Rightarrow> HD_NoReply | Some b \<Rightarrow> HD_Replying b) y)))
      else None)"

definition sys_reply :: "nat \<Rightarrow> nat \<Rightarrow> bool \<Rightarrow> 'p rpc_system \<Rightarrow> 'p rpc_system go option" where
  "sys_reply k l ok y =
     (if k < length (sy_served y)
      then case hd_pc (sy_served y ! k) of
             HD_Replying b \<Rightarrow> at_server l (WriterGives b ok) id (set_handler k (HD_Replied b) y)
           | _ \<Rightarrow> None
      else None)"

definition sys_not_sent :: "nat \<Rightarrow> 'p rpc_system \<Rightarrow> 'p rpc_system option" where
  "sys_not_sent k y =
     (if k < length (sy_served y)
      then case hd_pc (sy_served y ! k) of HD_Replying b \<Rightarrow> Some (set_handler k HD_NoReply y) | _ \<Rightarrow> None
      else None)"

definition sys_respond :: "nat \<Rightarrow> 'p rpc_system \<Rightarrow> 'p rpc_system option" where
  "sys_respond j y =
     (if j < length (sy_responses y)
      then map_option (\<lambda>y1. y1\<lparr>sy_responses := take j (sy_responses y) @ drop (Suc j) (sy_responses y)\<rparr>)
             (calls_to (CE_Arrive (sy_responses y ! j)) y)
      else None)"

text \<open>Other traffic: requests of the server and the replies to them.\<close>

definition other_up :: "('i, 'p) endpoints \<Rightarrow> slice \<Rightarrow> bool" where
  "other_up w b = (case Server_handleRead (ep_wire w) b of SrvHandleRequest q \<Rightarrow> False | _ \<Rightarrow> True)"

definition other_down :: "('i, 'p) endpoints \<Rightarrow> slice \<Rightarrow> bool" where
  "other_down w b = (case ClientConn_handleRead (ep_wire w) b of HandleResponse q \<Rightarrow> False | _ \<Rightarrow> True)"

primrec rpc_step :: "('i, 'p) endpoints \<Rightarrow> 'p rpc_event \<Rightarrow> 'p rpc_system \<Rightarrow> 'p rpc_system go option" where
  "rpc_step w (SY_Connect opts config) y = Some (Ret (sys_connect opts config y))"
| "rpc_step w (SY_Invoke callID m args) y = map_option Ret (sys_invoke w callID m args y)"
| "rpc_step w (SY_Send n l ok) y = sys_send n l ok y"
| "rpc_step w (SY_Call e) y = (if call_event_alone e then map_option Ret (calls_to e y) else None)"
| "rpc_step w (SY_Client l e) y =
     (if by_itself e (ln_down (sy_links y ! l)) (tr_sent (ln_server (sy_links y ! l)))
      then at_client l e (\<lambda>k. if is_read e then k\<lparr>ln_down := Suc (ln_down k)\<rparr> else k) y else None)"
| "rpc_step w (SY_Server l e) y =
     (if by_itself e (ln_up (sy_links y ! l)) (tr_sent (ln_client (sy_links y ! l)))
      then at_server l e (\<lambda>k. if is_read e then k\<lparr>ln_up := Suc (ln_up k)\<rparr> else k) y else None)"
| "rpc_step w (SY_ServerRead l) y = sys_server_read w l y"
| "rpc_step w (SY_Serve k) y = sys_serve w k y"
| "rpc_step w (SY_Reply k l ok) y = sys_reply k l ok y"
| "rpc_step w (SY_NotSent k) y = map_option Ret (sys_not_sent k y)"
| "rpc_step w (SY_ClientRead l) y = sys_client_read w l y"
| "rpc_step w (SY_Respond j) y = map_option Ret (sys_respond j y)"
| "rpc_step w (SY_ClientSends l b ok) y =
     (if other_up w b then at_client l (WriterGives b ok) (\<lambda>k. if ok then k\<lparr>ln_calls := ln_calls k @ [None]\<rparr> else k) y
      else None)"
| "rpc_step w (SY_ServerSends l b ok) y =
     (if other_down w b then at_server l (WriterGives b ok) id y else None)"

inductive rpc_reachable :: "('i, 'p) endpoints \<Rightarrow> 'p rpc_system \<Rightarrow> bool" for w where
  rpc_init: "rpc_reachable w no_traffic"
| rpc_next: "rpc_reachable w y \<Longrightarrow> rpc_step w e y = Some (Ret y') \<Longrightarrow> rpc_reachable w y'"

abbreviation run_rpc :: "('i, 'p) endpoints \<Rightarrow> 'p rpc_event list \<Rightarrow> 'p rpc_system \<Rightarrow> 'p rpc_system go option" where
  "run_rpc w \<equiv> run_steps (rpc_step w)"

lemma run_rpc_reachable: "rpc_reachable w y \<Longrightarrow> run_rpc w es y = Some (Ret y') \<Longrightarrow> rpc_reachable w y'"
  by (erule run_steps_keeps [where P = "rpc_reachable w"]) (auto intro: rpc_next)

subsection \<open>What the calls keep\<close>

text \<open>The responses that have reached the calls.\<close>

definition responses_in :: "call_sys \<Rightarrow> Response option set" where
  "responses_in s = rs_resp ` set (cs_responders s)
     \<union> {r. \<exists>iv \<in> set (cs_invs s). iv_pc iv = IV_Leaving (Got r) \<or> iv_pc iv = IV_Returned (Got r)}"

fun arriving :: "call_event \<Rightarrow> Response option set" where
  "arriving (CE_Arrive r) = {r}"
| "arriving _ = {}"

fun registering :: "call_event \<Rightarrow> string list" where
  "registering (CE_Register i) = [i]"
| "registering _ = []"

lemma responses_in_set_pc:
  assumes "n < length (cs_invs s)" "\<And>r. pc = IV_Leaving (Got r) \<or> pc = IV_Returned (Got r) \<Longrightarrow> r \<in> responses_in s"
  shows "responses_in (set_pc n pc s) \<subseteq> responses_in s"
proof -
  have "set (cs_invs (set_pc n pc s)) \<subseteq> insert ((cs_invs s ! n)\<lparr>iv_pc := pc\<rparr>) (set (cs_invs s))"
    by (simp add: set_pc_def set_update_subset_insert)
  then show ?thesis using assms(2) by (fastforce simp: responses_in_def set_pc_def)
qed

lemma responses_in_cong [simp]:
  "responses_in (s\<lparr>cs_calls := c\<rparr>) = responses_in s"
  by (simp add: responses_in_def)

lemma responses_in_responder_done: "responses_in (responder_done k s) \<subseteq> responses_in s"
proof (cases "k < length (cs_responders s)")
  case True
  then have "rs_resp ` set (cs_responders (responder_done k s)) \<subseteq> rs_resp ` set (cs_responders s)"
    using set_update_subset_insert [of "cs_responders s" k "(cs_responders s ! k)\<lparr>rs_done := True\<rparr>"]
    by (fastforce simp: responder_done_def)
  then show ?thesis by (auto simp: responses_in_def responder_done_def)
qed (simp add: responder_done_def list_update_beyond)

lemma call_step_responses:
  assumes "call_step e s = Some s'"
  shows "responses_in s' \<subseteq> responses_in s \<union> arriving e"
proof (cases e)
  case (CE_Register i)
  with assms show ?thesis by (auto simp: Invoke_register_def responses_in_def split: if_splits)
next
  case (CE_Arrive r)
  with assms show ?thesis by (auto simp: response_arrives_def responses_in_def split: option.splits)
next
  case (CE_Deliver k)
  let ?r = "cs_responders s ! k"
  from assms CE_Deliver have k: "k < length (cs_responders s)" and pc: "pc_of s (rs_call ?r) = Some IV_Waiting"
    and s': "s' = responder_done k (set_pc (rs_call ?r) (IV_Leaving (Got (rs_resp ?r))) s)"
    by (auto simp: responder_delivers_def split: if_splits)
  have "rs_resp ?r \<in> responses_in s" using k by (auto simp: responses_in_def)
  then have "responses_in (set_pc (rs_call ?r) (IV_Leaving (Got (rs_resp ?r))) s) \<subseteq> responses_in s"
    using pc by (intro responses_in_set_pc) (auto simp: pc_of_Some)
  with responses_in_responder_done show ?thesis unfolding s' by blast
next
  case (CE_CtxDone n)
  with assms have n: "n < length (cs_invs s)"
    and s': "s' = s\<lparr>cs_invs := (cs_invs s)[n := (cs_invs s ! n)\<lparr>iv_ctx_done := True\<rparr>]\<rparr>"
    by (auto split: if_splits)
  have "set (cs_invs s') \<subseteq> insert ((cs_invs s ! n)\<lparr>iv_ctx_done := True\<rparr>) (set (cs_invs s))"
    by (simp add: s' set_update_subset_insert)
  then show ?thesis using nth_mem [OF n] by (fastforce simp: responses_in_def s')
next
  case (CE_ResponderCtxDone k)
  with assms responses_in_responder_done show ?thesis by (fastforce simp: responder_ctx_done_def split: if_splits)
next
  case (CE_Leave n)
  with assms obtain res where n: "n < length (cs_invs s)" "iv_pc (cs_invs s ! n) = IV_Leaving res"
    and s': "s' = (set_pc n (IV_Returned res) s)\<lparr>cs_calls := ClientConn_removeMethodCall (iv_id (cs_invs s ! n)) (cs_calls s)\<rparr>"
    by (auto simp: Invoke_leave_def pc_of_Some split: option.splits invoke_pc.splits)
  have "r \<in> responses_in s" if "IV_Returned res = IV_Leaving (Got r) \<or> IV_Returned res = IV_Returned (Got r)" for r
    using that n nth_mem [OF n(1)] by (force simp: responses_in_def)
  from responses_in_set_pc [OF n(1) this] show ?thesis by (auto simp: s')
qed (use assms in \<open>auto simp: pc_of_Some split: if_splits dest!: responses_in_set_pc [THEN subsetD, rotated 2]\<close>)

lemma call_step_ids:
  assumes "call_step e s = Some s'"
  shows "map iv_id (cs_invs s') = map iv_id (cs_invs s) @ registering e"
  using assms
  by (cases e)
    (auto simp: Invoke_register_def Invoke_leave_def response_arrives_def responder_delivers_def responder_ctx_done_def
      responder_done_def set_pc_def map_iv_id_update split: if_splits option.splits invoke_pc.splits)

lemma call_step_not_registered:
  assumes "call_step e s = Some s'" "n < length (cs_invs s)" "pc_of s n \<noteq> Some IV_Registered"
  shows "pc_of s' n \<noteq> Some IV_Registered"
  using assms
  by (cases e)
    (auto simp: Invoke_register_def Invoke_leave_def response_arrives_def responder_delivers_def responder_ctx_done_def
      responder_done_def set_pc_def pc_of_def nth_append nth_list_update split: if_splits option.splits invoke_pc.splits)

subsection \<open>The invariant\<close>

text \<open>The call for which the client wrote message \<open>i\<close> of connection \<open>l\<close>.\<close>

definition call_at :: "rpc_link list \<Rightarrow> nat \<Rightarrow> nat \<Rightarrow> nat option" where
  "call_at ks l i = (if l < length ks \<and> i < length (ln_calls (ks ! l)) then ln_calls (ks ! l) ! i else None)"

text \<open>A reply that some handler has sent, as the reader of the client sees it.\<close>

definition answered :: "('i, 'p) endpoints \<Rightarrow> served_request list \<Rightarrow> Response option \<Rightarrow> bool" where
  "answered w hs r \<longleftrightarrow> (\<exists>h \<in> set hs. \<exists>b. hd_pc h = HD_Replied b \<and> ClientConn_handleRead (ep_wire w) b = HandleResponse r)"

definition calls_ok :: "('i, 'p) endpoints \<Rightarrow> call_sys \<Rightarrow> 'p rpc_call list \<Rightarrow> bool" where
  "calls_ok w s cs \<longleftrightarrow> calls_inv s \<and> length cs = length (cs_invs s)
     \<and> (\<forall>n < length cs. Invoke_request (ep_pb w) (ep_wire w) (iv_id (cs_invs s ! n)) (rc_method (cs ! n))
          (ProtoMessage (rc_args (cs ! n))) = Inr (rc_request (cs ! n)))"

definition message_ok :: "('i, 'p) endpoints \<Rightarrow> call_sys \<Rightarrow> 'p rpc_call list \<Rightarrow> nat option \<Rightarrow> slice \<Rightarrow> bool" where
  "message_ok w s cs t b \<longleftrightarrow>
     (case t of
        None \<Rightarrow> other_up w b
      | Some n \<Rightarrow> n < length cs \<and> b = rc_request (cs ! n) \<and> pc_of s n \<noteq> Some IV_Registered)"

definition link_ok :: "rpc_link \<Rightarrow> bool" where
  "link_ok k \<longleftrightarrow> ln_up k \<le> length (tr_sent (ln_client k))
     \<and> tr_delivered (ln_server k) @ in_hand (ln_server k) = take (ln_up k) (tr_sent (ln_client k))
     \<and> ln_down k \<le> length (tr_sent (ln_server k))
     \<and> tr_delivered (ln_client k) @ in_hand (ln_client k) = take (ln_down k) (tr_sent (ln_server k))
     \<and> good_server (ln_server k)"

definition links_ok :: "('i, 'p) endpoints \<Rightarrow> 'p rpc_system \<Rightarrow> bool" where
  "links_ok w y \<longleftrightarrow>
     (\<forall>k \<in> set (sy_links y). link_ok k
        \<and> list_all2 (message_ok w (sy_calls y) (sy_requests y)) (ln_calls k) (tr_sent (ln_client k)))
     \<and> (\<forall>l i l' i' n. call_at (sy_links y) l i = Some n \<and> call_at (sy_links y) l' i' = Some n \<longrightarrow> l = l' \<and> i = i')"

definition handler_ok :: "('i, 'p) endpoints \<Rightarrow> 'p rpc_system \<Rightarrow> served_request \<Rightarrow> bool" where
  "handler_ok w y h \<longleftrightarrow>
     (\<exists>n. call_at (sy_links y) (hd_link h) (hd_pos h) = Some n \<and> n < length (sy_requests y)
        \<and> Server_handleRead (ep_wire w) (rc_request (sy_requests y ! n)) = SrvHandleRequest (hd_req h))
     \<and> hd_pos h < length (tr_delivered (ln_server (sy_links y ! hd_link h)))
     \<and> (\<forall>b. hd_pc h = HD_Replying b \<or> hd_pc h = HD_Replied b \<longrightarrow>
          Server_handleMessageRequest (ep_uuid w) (ep_pb w) (ep_wire w) (ep_key w) (ep_server w) (hd_req h) = Ret (Some b))"

definition origin :: "served_request \<Rightarrow> nat \<times> nat" where
  "origin h = (hd_link h, hd_pos h)"

text \<open>The messages of the calls that the server has taken from its connections.\<close>

definition taken :: "'p rpc_system \<Rightarrow> (nat \<times> nat) set" where
  "taken y = {(l, i). call_at (sy_links y) l i \<noteq> None \<and> i < length (tr_delivered (ln_server (sy_links y ! l)))}"

definition served_ok :: "('i, 'p) endpoints \<Rightarrow> 'p rpc_system \<Rightarrow> bool" where
  "served_ok w y \<longleftrightarrow> distinct (map origin (sy_served y)) \<and> (\<forall>h \<in> set (sy_served y). handler_ok w y h)"

definition replies_ok :: "('i, 'p) endpoints \<Rightarrow> 'p rpc_system \<Rightarrow> bool" where
  "replies_ok w y \<longleftrightarrow>
     (\<forall>k \<in> set (sy_links y). \<forall>b \<in> set (tr_sent (ln_server k)). \<forall>r.
        ClientConn_handleRead (ep_wire w) b = HandleResponse r \<longrightarrow> answered w (sy_served y) r)
     \<and> (\<forall>r \<in> set (sy_responses y) \<union> responses_in (sy_calls y). answered w (sy_served y) r)"

definition rpc_inv :: "('i, 'p) endpoints \<Rightarrow> 'p rpc_system \<Rightarrow> bool" where
  "rpc_inv w y \<longleftrightarrow> calls_ok w (sy_calls y) (sy_requests y) \<and> links_ok w y \<and> served_ok w y \<and> replies_ok w y"

lemma rpc_inv_init: "rpc_inv w no_traffic"
  by (simp add: rpc_inv_def calls_ok_def calls_inv_def links_ok_def served_ok_def replies_ok_def no_traffic_def
      no_calls_def call_at_def responses_in_def)

subsection \<open>Steps of the calls\<close>

lemma ids_nth:
  assumes "call_step e s = Some s'" "n < length (cs_invs s)"
  shows "n < length (cs_invs s')" "iv_id (cs_invs s' ! n) = iv_id (cs_invs s ! n)"
proof -
  from call_step_ids [OF assms(1)] have m: "map iv_id (cs_invs s') = map iv_id (cs_invs s) @ registering e" .
  then have "length (cs_invs s') = length (cs_invs s) + length (registering e)"
    by (metis length_append length_map)
  with assms(2) show n: "n < length (cs_invs s')" by simp
  have "map iv_id (cs_invs s') ! n = map iv_id (cs_invs s) ! n"
    using assms(2) by (simp add: m nth_append)
  with assms(2) n show "iv_id (cs_invs s' ! n) = iv_id (cs_invs s ! n)" by simp
qed

lemma calls_ok_step:
  assumes "calls_ok w s cs" "call_step e s = Some s'" "registering e = []"
  shows "calls_ok w s' cs"
proof -
  have "length (cs_invs s') = length (cs_invs s)"
    using arg_cong [OF call_step_ids [OF assms(2)], of length] assms(3) by simp
  with assms ids_nth [OF assms(2)] call_step_inv [OF _ assms(2)] show ?thesis
    by (auto simp: calls_ok_def)
qed

lemma message_ok_step:
  assumes "message_ok w s cs t b" "call_step e s = Some s'" "length cs = length (cs_invs s)"
  shows "message_ok w s' cs t b"
  using assms call_step_not_registered [OF assms(2)] by (auto simp: message_ok_def split: option.splits)

lemma message_ok_mono:
  "message_ok w s cs t b \<Longrightarrow> message_ok w s (cs @ ds) t b"
  by (auto simp: message_ok_def nth_append split: option.splits)

text \<open>What a step of the calls that registers nothing keeps.\<close>

lemma rpc_inv_calls:
  assumes "rpc_inv w y" "call_step e (sy_calls y) = Some c" "registering e = []"
    and "\<And>r. r \<in> arriving e \<Longrightarrow> answered w (sy_served y) r"
  shows "rpc_inv w (y\<lparr>sy_calls := c\<rparr>)"
proof -
  from assms(1) have ok: "calls_ok w (sy_calls y) (sy_requests y)" by (simp add: rpc_inv_def)
  then have len: "length (sy_requests y) = length (cs_invs (sy_calls y))" by (simp add: calls_ok_def)
  have "list_all2 (message_ok w c (sy_requests y)) ts bs" if "list_all2 (message_ok w (sy_calls y) (sy_requests y)) ts bs" for ts bs
    using that by (rule list_all2_mono) (rule message_ok_step [OF _ assms(2) len])
  with assms(1) have "links_ok w (y\<lparr>sy_calls := c\<rparr>)" by (simp add: rpc_inv_def links_ok_def)
  moreover have "served_ok w (y\<lparr>sy_calls := c\<rparr>)"
    using assms(1) by (simp add: rpc_inv_def served_ok_def handler_ok_def)
  moreover have "replies_ok w (y\<lparr>sy_calls := c\<rparr>)"
    using assms(1,4) call_step_responses [OF assms(2)] by (auto simp: rpc_inv_def replies_ok_def)
  ultimately show ?thesis using calls_ok_step [OF ok assms(2,3)] by (simp add: rpc_inv_def)
qed

lemma rpc_inv_invoke:
  assumes "rpc_inv w y" "sys_invoke w callID m args y = Some y'"
  shows "rpc_inv w y'"
proof -
  from assms(2) obtain reqB c where req: "Invoke_request (ep_pb w) (ep_wire w) callID m (ProtoMessage args) = Inr reqB"
    and c: "call_step (CE_Register callID) (sy_calls y) = Some c"
    and y': "y' = y\<lparr>sy_calls := c, sy_requests := sy_requests y @ [\<lparr>rc_method = m, rc_args = args, rc_request = reqB\<rparr>]\<rparr>"
    by (auto simp: sys_invoke_def calls_to_def split: sum.splits)
  let ?cs = "sy_requests y @ [\<lparr>rc_method = m, rc_args = args, rc_request = reqB\<rparr>]"
  from assms(1) have ok: "calls_ok w (sy_calls y) (sy_requests y)" by (simp add: rpc_inv_def)
  then have len: "length (sy_requests y) = length (cs_invs (sy_calls y))" by (simp add: calls_ok_def)
  have ids: "map iv_id (cs_invs c) = map iv_id (cs_invs (sy_calls y)) @ [callID]"
    using call_step_ids [OF c] by simp
  then have lenc: "length (cs_invs c) = Suc (length (cs_invs (sy_calls y)))"
    by (metis length_append_singleton length_map)
  have last: "iv_id (cs_invs c ! length (cs_invs (sy_calls y))) = callID"
    using arg_cong [OF ids, of "\<lambda>xs. xs ! length (cs_invs (sy_calls y))"] lenc by (simp add: nth_append)
  have "calls_ok w c ?cs"
    using ok req len lenc last ids_nth(2) [OF c] call_step_inv [OF _ c]
    by (auto simp: calls_ok_def nth_append less_Suc_eq)
  moreover have "list_all2 (message_ok w c ?cs) ts bs"
    if "list_all2 (message_ok w (sy_calls y) (sy_requests y)) ts bs" for ts bs
    using that by (rule list_all2_mono) (rule message_ok_mono [OF message_ok_step [OF _ c len]])
  ultimately show ?thesis
    using assms(1) call_step_responses [OF c]
    by (auto simp: y' rpc_inv_def links_ok_def served_ok_def handler_ok_def replies_ok_def nth_append)
qed

subsection \<open>Steps of the connections\<close>

lemma call_at_update:
  assumes "l < length ks" "ln_calls k = ln_calls (ks ! l) @ ts"
  shows "call_at (ks[l := k]) l' i =
    (if l' = l \<and> length (ln_calls (ks ! l)) \<le> i
     then (if i - length (ln_calls (ks ! l)) < length ts then ts ! (i - length (ln_calls (ks ! l))) else None)
     else call_at ks l' i)"
  using assms by (auto simp: call_at_def nth_append nth_list_update)

text \<open>A new message of the client, for a call that has no other.\<close>

lemma call_at_unique:
  assumes "l < length ks" "ln_calls k = ln_calls (ks ! l) @ ts" "length ts \<le> 1"
    and "\<forall>l i l' i' n. call_at ks l i = Some n \<and> call_at ks l' i' = Some n \<longrightarrow> l = l' \<and> i = i'"
    and "\<And>n l i. Some n \<in> set ts \<Longrightarrow> call_at ks l i \<noteq> Some n"
  shows "call_at (ks[l := k]) a i = Some n \<and> call_at (ks[l := k]) a' i' = Some n \<longrightarrow> a = a' \<and> i = i'"
proof -
  let ?m = "length (ln_calls (ks ! l))"
  have "Some n \<in> set ts \<and> a = l \<and> i = ?m \<or> (Some n \<notin> set ts \<longrightarrow> call_at ks a i = Some n)"
    if "call_at (ks[l := k]) a i = Some n" for a i
    using that assms(3) unfolding call_at_update [OF assms(1,2)]
    by (cases ts) (auto split: if_splits)
  moreover have "call_at ks a i = Some n \<or> Some n \<in> set ts \<and> a = l \<and> i = ?m"
    if "call_at (ks[l := k]) a i = Some n" for a i
    using that assms(3) unfolding call_at_update [OF assms(1,2)]
    by (cases ts) (auto split: if_splits)
  ultimately show ?thesis using assms(4,5) by metis
qed

lemma rpc_inv_link:
  assumes inv: "rpc_inv w y" and l: "l < length (sy_links y)" and ok: "link_ok k"
    and msgs: "list_all2 (message_ok w (sy_calls y) (sy_requests y)) (ln_calls k) (tr_sent (ln_client k))"
    and calls: "ln_calls k = ln_calls (sy_links y ! l) @ ts" "length ts \<le> 1"
      "\<And>n l i. Some n \<in> set ts \<Longrightarrow> call_at (sy_links y) l i \<noteq> Some n"
    and deliv: "length (tr_delivered (ln_server (sy_links y ! l))) \<le> length (tr_delivered (ln_server k))"
    and sent: "\<And>b r. \<lbrakk>b \<in> set (tr_sent (ln_server k)); b \<notin> set (tr_sent (ln_server (sy_links y ! l)));
        ClientConn_handleRead (ep_wire w) b = HandleResponse r\<rbrakk> \<Longrightarrow> answered w (sy_served y) r"
  shows "rpc_inv w (y\<lparr>sy_links := (sy_links y)[l := k]\<rparr>)"
proof -
  have sub: "set ((sy_links y)[l := k]) \<subseteq> insert k (set (sy_links y))" by (rule set_update_subset_insert)
  have uniq: "\<forall>l i l' i' n. call_at (sy_links y) l i = Some n \<and> call_at (sy_links y) l' i' = Some n \<longrightarrow> l = l' \<and> i = i'"
    using inv by (simp add: rpc_inv_def links_ok_def)
  have "links_ok w (y\<lparr>sy_links := (sy_links y)[l := k]\<rparr>)"
    using inv sub ok msgs call_at_unique [OF l calls(1,2) uniq calls(3)]
    by (auto simp: rpc_inv_def links_ok_def)
  moreover have "handler_ok w (y\<lparr>sy_links := (sy_links y)[l := k]\<rparr>) h" if "handler_ok w y h" for h
  proof -
    from that obtain n where n: "call_at (sy_links y) (hd_link h) (hd_pos h) = Some n" by (auto simp: handler_ok_def)
    have "call_at ((sy_links y)[l := k]) (hd_link h) (hd_pos h) = call_at (sy_links y) (hd_link h) (hd_pos h)"
      using n unfolding call_at_update [OF l calls(1)] by (auto simp: call_at_def split: if_splits)
    with that deliv l show ?thesis by (auto simp: handler_ok_def nth_list_update)
  qed
  moreover have "answered w (sy_served y) r"
    if "k' \<in> set ((sy_links y)[l := k])" "b \<in> set (tr_sent (ln_server k'))"
      "ClientConn_handleRead (ep_wire w) b = HandleResponse r" for k' b r
  proof -
    have old: "answered w (sy_served y) r" if "k'' \<in> set (sy_links y)" "b \<in> set (tr_sent (ln_server k''))" for k''
      using inv that \<open>ClientConn_handleRead (ep_wire w) b = HandleResponse r\<close> unfolding rpc_inv_def replies_ok_def by blast
    show ?thesis
    proof (cases "k' \<in> set (sy_links y)")
      case False
      then have "k' = k" using that(1) sub by blast
      with that sent old [OF nth_mem [OF l]] show ?thesis by blast
    qed (use old that(2) in blast)
  qed
  then have "replies_ok w (y\<lparr>sy_links := (sy_links y)[l := k]\<rparr>)"
    using inv by (simp add: rpc_inv_def replies_ok_def)
  ultimately show ?thesis using inv by (simp add: rpc_inv_def served_ok_def)
qed

lemma rpc_inv_linkD:
  assumes "rpc_inv w y" "l < length (sy_links y)"
  shows "link_ok (sy_links y ! l)"
    "list_all2 (message_ok w (sy_calls y) (sy_requests y)) (ln_calls (sy_links y ! l)) (tr_sent (ln_client (sy_links y ! l)))"
    "\<And>b r. b \<in> set (tr_sent (ln_server (sy_links y ! l))) \<Longrightarrow> ClientConn_handleRead (ep_wire w) b = HandleResponse r
       \<Longrightarrow> answered w (sy_served y) r"
  using assms(1) nth_mem [OF assms(2)] unfolding rpc_inv_def links_ok_def replies_ok_def by blast+

lemma take_Suc_nth: "n < length xs \<Longrightarrow> take n xs @ [xs ! n] = take (Suc n) xs"
  by (simp add: take_Suc_conv_app_nth)

text \<open>What a connection keeps when one of its ends moves.\<close>

lemma link_ok_client:
  assumes ok: "link_ok k" and c: "client_step (ln_client k) e = Some (Ret c)"
    and read: "\<And>m. e = ReadReturns m \<Longrightarrow> ln_down k < length (tr_sent (ln_server k)) \<and> m = tr_sent (ln_server k) ! ln_down k"
    and k': "ln_client k' = c" "ln_server k' = ln_server k" "ln_up k' = ln_up k" "ln_down k' = ln_down k + (if is_read e then 1 else 0)"
  shows "link_ok k'" "tr_sent (ln_client k') = tr_sent (ln_client k) @ written_by e"
    "length (tr_delivered (ln_client k)) \<le> length (tr_delivered (ln_client k'))"
proof -
  have fifo: "tr_sent c = tr_sent (ln_client k) @ written_by e"
    "tr_delivered c @ in_hand c = (tr_delivered (ln_client k) @ in_hand (ln_client k)) @ read_by e"
    using client_pump.step_fifo [OF c] by simp_all
  have "read_by e = (if is_read e then [tr_sent (ln_server k) ! ln_down k] else [])"
    using read by (cases e) (auto simp: is_read_def)
  moreover have "is_read e \<Longrightarrow> ln_down k < length (tr_sent (ln_server k))"
    using read by (cases e) (auto simp: is_read_def)
  ultimately show "link_ok k'"
    using ok fifo by (auto simp: link_ok_def k' take_Suc_nth)
  show "tr_sent (ln_client k') = tr_sent (ln_client k) @ written_by e" by (simp add: k' fifo)
  show "length (tr_delivered (ln_client k)) \<le> length (tr_delivered (ln_client k'))"
    unfolding k' using c by (cases e) (auto simp: client_pump_defs split: pump_splits)
qed

lemma link_ok_server:
  assumes ok: "link_ok k" and s: "server_step (ln_server k) e = Some (Ret s)"
    and read: "\<And>m. e = ReadReturns m \<Longrightarrow> ln_up k < length (tr_sent (ln_client k)) \<and> m = tr_sent (ln_client k) ! ln_up k"
    and k': "ln_client k' = ln_client k" "ln_server k' = s" "ln_down k' = ln_down k" "ln_up k' = ln_up k + (if is_read e then 1 else 0)"
  shows "link_ok k'" "tr_sent (ln_server k') = tr_sent (ln_server k) @ written_by e"
    "length (tr_delivered (ln_server k)) \<le> length (tr_delivered (ln_server k'))"
proof -
  have fifo: "tr_sent s = tr_sent (ln_server k) @ written_by e"
    "tr_delivered s @ in_hand s = (tr_delivered (ln_server k) @ in_hand (ln_server k)) @ read_by e"
    using server_pump.step_fifo [OF s] by simp_all
  have good: "good_server s" using ok server_pump.step_good [OF _ s] by (simp add: link_ok_def)
  have "read_by e = (if is_read e then [tr_sent (ln_client k) ! ln_up k] else [])"
    using read by (cases e) (auto simp: is_read_def)
  moreover have "is_read e \<Longrightarrow> ln_up k < length (tr_sent (ln_client k))"
    using read by (cases e) (auto simp: is_read_def)
  ultimately show "link_ok k'"
    using ok fifo good by (auto simp: link_ok_def k' take_Suc_nth)
  show "tr_sent (ln_server k') = tr_sent (ln_server k) @ written_by e" by (simp add: k' fifo)
  show "length (tr_delivered (ln_server k)) \<le> length (tr_delivered (ln_server k'))"
    unfolding k' using s by (cases e) (auto simp: server_pump_defs Let_def split: pump_splits)
qed

text \<open>An event at one end of a connection, with the message it writes and the call this is for.\<close>

lemma rpc_inv_at_client:
  assumes inv: "rpc_inv w y" and step: "at_client l e f y = Some (Ret y')"
    and f: "\<And>k. ln_client (f k) = ln_client k" "\<And>k. ln_server (f k) = ln_server k" "\<And>k. ln_up (f k) = ln_up k"
      "\<And>k. ln_down (f k) = ln_down k + (if is_read e then 1 else 0)" "\<And>k. ln_calls (f k) = ln_calls k @ ts"
    and read: "\<And>m. e = ReadReturns m \<Longrightarrow> ln_down (sy_links y ! l) < length (tr_sent (ln_server (sy_links y ! l)))
        \<and> m = tr_sent (ln_server (sy_links y ! l)) ! ln_down (sy_links y ! l)"
    and msgs: "list_all2 (message_ok w (sy_calls y) (sy_requests y)) ts (written_by e)"
    and new: "\<And>n l i. Some n \<in> set ts \<Longrightarrow> call_at (sy_links y) l i \<noteq> Some n"
  shows "rpc_inv w y'"
proof -
  let ?k = "sy_links y ! l"
  from step obtain c where l: "l < length (sy_links y)" and c: "client_step (ln_client ?k) e = Some (Ret c)"
    and y': "y' = y\<lparr>sy_links := (sy_links y)[l := f (?k\<lparr>ln_client := c\<rparr>)]\<rparr>"
    by (auto simp: at_client_def split: if_splits)
  note old = rpc_inv_linkD [OF inv l]
  note k' = link_ok_client [OF old(1) c read, where k' = "f (?k\<lparr>ln_client := c\<rparr>)"]
  have ok: "link_ok (f (?k\<lparr>ln_client := c\<rparr>))" by (rule k'(1)) (simp_all add: f)
  have sent: "tr_sent (ln_client (f (?k\<lparr>ln_client := c\<rparr>))) = tr_sent (ln_client ?k) @ written_by e"
    by (rule k'(2)) (simp_all add: f)
  have "list_all2 (message_ok w (sy_calls y) (sy_requests y)) (ln_calls (f (?k\<lparr>ln_client := c\<rparr>)))
      (tr_sent (ln_client (f (?k\<lparr>ln_client := c\<rparr>))))"
    unfolding sent using old(2) msgs by (simp add: f list_all2_appendI)
  moreover have "length ts \<le> 1"
    using list_all2_lengthD [OF msgs] by (cases e rule: written_by.cases) auto
  ultimately show ?thesis unfolding y'
    by (intro rpc_inv_link [OF inv l ok, where ts = ts]) (auto simp: f dest: new)
qed

lemma rpc_inv_at_server:
  assumes inv: "rpc_inv w y" and step: "at_server l e f y = Some (Ret y')"
    and f: "\<And>k. ln_client (f k) = ln_client k" "\<And>k. ln_server (f k) = ln_server k" "\<And>k. ln_down (f k) = ln_down k"
      "\<And>k. ln_up (f k) = ln_up k + (if is_read e then 1 else 0)" "\<And>k. ln_calls (f k) = ln_calls k"
    and read: "\<And>m. e = ReadReturns m \<Longrightarrow> ln_up (sy_links y ! l) < length (tr_sent (ln_client (sy_links y ! l)))
        \<and> m = tr_sent (ln_client (sy_links y ! l)) ! ln_up (sy_links y ! l)"
    and replies: "\<And>b r. b \<in> set (written_by e) \<Longrightarrow> ClientConn_handleRead (ep_wire w) b = HandleResponse r
        \<Longrightarrow> answered w (sy_served y) r"
  shows "rpc_inv w y'"
proof -
  let ?k = "sy_links y ! l"
  from step obtain s where l: "l < length (sy_links y)" and s: "server_step (ln_server ?k) e = Some (Ret s)"
    and y': "y' = y\<lparr>sy_links := (sy_links y)[l := f (?k\<lparr>ln_server := s\<rparr>)]\<rparr>"
    by (auto simp: at_server_def split: if_splits)
  note old = rpc_inv_linkD [OF inv l]
  note k' = link_ok_server [OF old(1) s read, where k' = "f (?k\<lparr>ln_server := s\<rparr>)"]
  have ok: "link_ok (f (?k\<lparr>ln_server := s\<rparr>))" by (rule k'(1)) (simp_all add: f)
  have sent: "tr_sent (ln_server (f (?k\<lparr>ln_server := s\<rparr>))) = tr_sent (ln_server ?k) @ written_by e"
    by (rule k'(2)) (simp_all add: f)
  have deliv: "length (tr_delivered (ln_server ?k)) \<le> length (tr_delivered (ln_server (f (?k\<lparr>ln_server := s\<rparr>))))"
    by (rule k'(3)) (simp_all add: f)
  show ?thesis unfolding y'
    by (rule rpc_inv_link [OF inv l ok, where ts = "[]"])
      (use old(2) deliv replies sent in \<open>auto simp: f\<close>)
qed

text \<open>A request of a call that is still at its \<open>Write\<close> is on no connection.\<close>

lemma registered_not_sent:
  assumes "rpc_inv w y" "pc_of (sy_calls y) n = Some IV_Registered"
  shows "call_at (sy_links y) l i \<noteq> Some n"
proof
  assume c: "call_at (sy_links y) l i = Some n"
  then have l: "l < length (sy_links y)" "i < length (ln_calls (sy_links y ! l))" "ln_calls (sy_links y ! l) ! i = Some n"
    by (auto simp: call_at_def split: if_splits)
  from list_all2_nthD [OF rpc_inv_linkD(2) [OF assms(1) l(1)] l(2)] l(3) assms(2) show False
    by (simp add: message_ok_def)
qed

lemma rpc_inv_send:
  assumes "rpc_inv w y" "sys_send n l ok y = Some (Ret y')"
  shows "rpc_inv w y'"
proof -
  from assms(2) obtain c where n: "n < length (sy_requests y)" and c: "call_step (CE_Sent n) (sy_calls y) = Some c"
    and at: "at_client l (WriterGives (rc_request (sy_requests y ! n)) ok)
      (\<lambda>k. if ok then k\<lparr>ln_calls := ln_calls k @ [Some n]\<rparr> else k) (y\<lparr>sy_calls := c\<rparr>) = Some (Ret y')"
    by (auto simp: sys_send_def calls_to_def split: option.splits if_splits)
  have inv: "rpc_inv w (y\<lparr>sy_calls := c\<rparr>)" by (rule rpc_inv_calls [OF assms(1) c]) simp_all
  from c have pc: "pc_of (sy_calls y) n = Some IV_Registered" and c': "c = set_pc n IV_Waiting (sy_calls y)"
    by (auto split: if_splits)
  then have "pc_of c n = Some IV_Waiting" by (auto simp: pc_of_Some pc_of_set_pc)
  with n have "message_ok w c (sy_requests y) (Some n) (rc_request (sy_requests y ! n))" by (simp add: message_ok_def)
  then show ?thesis
    by (intro rpc_inv_at_client [OF inv at, where ts = "if ok then [Some n] else []"])
      (auto simp: is_read_def registered_not_sent [OF assms(1) pc] split: if_splits)
qed

lemma new_link:
  fixes opts config
  defines "k \<equiv> \<lparr>ln_client = WebsocketClient_Start (newWebsocketClientConfig opts), ln_server = NewServerTransport config,
    ln_up = 0, ln_down = 0, ln_calls = []\<rparr>"
  shows "link_ok k" "ln_calls k = []" "tr_sent (ln_client k) = []" "tr_sent (ln_server k) = []"
    "call_at (ks @ [k]) l i = call_at ks l i"
proof -
  have "tr_delivered (ln_client k) @ in_hand (ln_client k) = []" "tr_delivered (ln_server k) @ in_hand (ln_server k) = []"
    by (simp_all add: k_def in_hand_def WebsocketClient_Start_def newWebsocketClientConfig_def NewServerTransport_def
        newWebsocketServer_def newWebsocketServerWithConfig_def WebsocketServer_start_def Let_def)
  then show "link_ok k" by (simp add: link_ok_def k_def del: append_is_Nil_conv)
  show "ln_calls k = []" "tr_sent (ln_client k) = []" "tr_sent (ln_server k) = []"
    by (simp_all add: k_def WebsocketClient_Start_def newWebsocketClientConfig_def NewServerTransport_def
        newWebsocketServer_def newWebsocketServerWithConfig_def WebsocketServer_start_def Let_def)
  then show "call_at (ks @ [k]) l i = call_at ks l i"
    by (auto simp: call_at_def nth_append less_Suc_eq)
qed

lemma rpc_inv_connect:
  assumes "rpc_inv w y"
  shows "rpc_inv w (sys_connect opts config y)"
proof -
  let ?k = "\<lparr>ln_client = WebsocketClient_Start (newWebsocketClientConfig opts), ln_server = NewServerTransport config,
    ln_up = 0, ln_down = 0, ln_calls = []\<rparr>"
  note k = new_link [where opts = opts and config = config]
  have "l < length (sy_links y)" if "call_at (sy_links y) l i = Some n" for l i n
    using that by (auto simp: call_at_def split: if_splits)
  then have "handler_ok w (sys_connect opts config y) h" if "handler_ok w y h" for h
    using that by (auto simp: handler_ok_def sys_connect_def k(5) nth_append)
  moreover have "list_all2 (message_ok w (sy_calls y) (sy_requests y)) (ln_calls ?k) (tr_sent (ln_client ?k))"
    unfolding k(2,3) by simp
  ultimately show ?thesis
    using assms k(1,4) unfolding rpc_inv_def links_ok_def served_ok_def replies_ok_def
    by (simp add: sys_connect_def k(5))
qed

lemma snoc_prefix:
  assumes "xs @ [m] = take u ys"
  shows "length xs < length ys" "ys ! length xs = m"
proof -
  have len: "Suc (length xs) = min u (length ys)" using arg_cong [OF assms, of length] by simp
  then show "length xs < length ys" by simp
  have "(take u ys) ! length xs = m" by (simp add: assms [symmetric])
  with len show "ys ! length xs = m" by simp
qed

lemma rpc_inv_server_read:
  assumes "rpc_inv w y" "sys_server_read w l y = Some (Ret y')"
  shows "rpc_inv w y'"
proof -
  let ?k = "sy_links y ! l" and ?m = "in_hand_msg (ln_server (sy_links y ! l))"
  let ?pos = "length (tr_delivered (ln_server (sy_links y ! l)))"
  from assms(2) obtain y1 where at: "at_server l ReaderTakes id y = Some (Ret y1)"
    and y': "y' = (case Server_handleRead (ep_wire w) ?m of
        SrvHandleRequest q \<Rightarrow> y1\<lparr>sy_served := sy_served y @ [\<lparr>hd_link = l, hd_pos = ?pos, hd_req = q, hd_pc = HD_Serving\<rparr>]\<rparr>
      | _ \<Rightarrow> y1)"
    by (auto simp: sys_server_read_def)
  have inv: "rpc_inv w y1"
    by (rule rpc_inv_at_server [OF assms(1) at]) (auto simp: is_read_def)
  from at obtain s where l: "l < length (sy_links y)" and s: "server_step (ln_server ?k) ReaderTakes = Some (Ret s)"
    and y1: "y1 = y\<lparr>sy_links := (sy_links y)[l := ?k\<lparr>ln_server := s\<rparr>]\<rparr>"
    by (auto simp: at_server_def split: if_splits)
  from s have hand: "tr_readPump (ln_server ?k) = RP_Sending ?m" and s': "tr_delivered s = tr_delivered (ln_server ?k) @ [?m]"
    by (auto simp: server_step_simps in_hand_msg_def split: pump_splits)
  note old = rpc_inv_linkD [OF assms(1) l]
  have "tr_delivered (ln_server ?k) @ [?m] = take (ln_up ?k) (tr_sent (ln_client ?k))"
    using old(1) hand by (simp add: link_ok_def in_hand_def)
  note m = snoc_prefix [OF this]
  show ?thesis
  proof (cases "Server_handleRead (ep_wire w) ?m")
    case (SrvHandleRequest q)
    let ?h = "\<lparr>hd_link = l, hd_pos = ?pos, hd_req = q, hd_pc = HD_Serving\<rparr>"
    from old(2) m(1) have i: "?pos < length (ln_calls ?k)"
      "message_ok w (sy_calls y) (sy_requests y) (ln_calls ?k ! ?pos) ?m"
      using list_all2_lengthD [OF old(2)] list_all2_nthD2 [OF old(2), of ?pos] by (simp_all add: m(2))
    with SrvHandleRequest obtain n where n: "ln_calls ?k ! ?pos = Some n" "n < length (sy_requests y)" "?m = rc_request (sy_requests y ! n)"
      by (auto simp: message_ok_def other_up_def split: option.splits)
    have "call_at (sy_links y1) l ?pos = Some n" using i n l by (simp add: y1 call_at_def)
    with SrvHandleRequest n s' l have h: "handler_ok w y1 ?h" by (simp add: handler_ok_def y1)
    have "origin ?h \<notin> origin ` set (sy_served y)"
      using assms(1) by (auto simp: rpc_inv_def served_ok_def handler_ok_def origin_def)
    then have "served_ok w (y1\<lparr>sy_served := sy_served y @ [?h]\<rparr>)"
      using inv h by (auto simp: rpc_inv_def served_ok_def y1 handler_ok_def)
    moreover have "answered w (sy_served y @ [?h]) r" if "answered w (sy_served y1) r" for r
      using that by (auto simp: answered_def y1)
    ultimately show ?thesis
      using inv unfolding y' SrvHandleRequest srv_dispatch.case rpc_inv_def replies_ok_def links_ok_def by simp
  qed (use inv in \<open>simp_all add: y'\<close>)
qed

lemma rpc_inv_client_read:
  assumes "rpc_inv w y" "sys_client_read w l y = Some (Ret y')"
  shows "rpc_inv w y'"
proof -
  let ?k = "sy_links y ! l" and ?m = "in_hand_msg (ln_client (sy_links y ! l))"
  from assms(2) obtain y1 where at: "at_client l ReaderTakes id y = Some (Ret y1)"
    and y': "y' = (case ClientConn_handleRead (ep_wire w) ?m of
        HandleResponse q \<Rightarrow> y1\<lparr>sy_responses := sy_responses y @ [q]\<rparr> | _ \<Rightarrow> y1)"
    by (auto simp: sys_client_read_def)
  have inv: "rpc_inv w y1"
    by (rule rpc_inv_at_client [OF assms(1) at, where ts = "[]"]) (auto simp: is_read_def)
  from at obtain c where l: "l < length (sy_links y)" and c: "client_step (ln_client ?k) ReaderTakes = Some (Ret c)"
    and y1: "y1 = y\<lparr>sy_links := (sy_links y)[l := ?k\<lparr>ln_client := c\<rparr>]\<rparr>"
    by (auto simp: at_client_def split: if_splits)
  from c have hand: "tr_readPump (ln_client ?k) = RP_Sending ?m"
    by (auto simp: client_step_simps in_hand_msg_def split: pump_splits)
  note old = rpc_inv_linkD [OF assms(1) l]
  have "tr_delivered (ln_client ?k) @ [?m] = take (ln_down ?k) (tr_sent (ln_server ?k))"
    using old(1) hand by (simp add: link_ok_def in_hand_def)
  note m = snoc_prefix [OF this]
  have "answered w (sy_served y) q" if "ClientConn_handleRead (ep_wire w) ?m = HandleResponse q" for q
    by (rule old(3) [OF _ that]) (use m nth_mem [OF m(1)] in simp)
  with inv show ?thesis
    by (auto simp: y' y1 rpc_inv_def links_ok_def served_ok_def handler_ok_def replies_ok_def split: dispatch.split)
qed

lemma origin_set_handler: "map origin (sy_served (set_handler k pc y)) = map origin (sy_served y)"
  by (cases "k < length (sy_served y)")
    (auto simp: set_handler_def origin_def map_update list_update_beyond intro!: nth_equalityI simp: nth_list_update)

text \<open>A handler that has not replied yet moves on.\<close>

lemma rpc_inv_set_handler:
  assumes inv: "rpc_inv w y" and k: "k < length (sy_served y)" "\<And>b. hd_pc (sy_served y ! k) \<noteq> HD_Replied b"
    and pc: "\<And>b. pc = HD_Replying b \<or> pc = HD_Replied b \<Longrightarrow>
      Server_handleMessageRequest (ep_uuid w) (ep_pb w) (ep_wire w) (ep_key w) (ep_server w) (hd_req (sy_served y ! k)) = Ret (Some b)"
  shows "rpc_inv w (set_handler k pc y)"
proof -
  let ?h = "(sy_served y ! k)\<lparr>hd_pc := pc\<rparr>"
  have sub: "set ((sy_served y)[k := ?h]) \<subseteq> insert ?h (set (sy_served y))" by (rule set_update_subset_insert)
  have "handler_ok w y (sy_served y ! k)" using inv nth_mem [OF k(1)] by (simp add: rpc_inv_def served_ok_def)
  then have "handler_ok w y ?h" using pc by (simp add: handler_ok_def)
  then have "\<forall>h \<in> set ((sy_served y)[k := ?h]). handler_ok w y h"
    using inv sub by (auto simp: rpc_inv_def served_ok_def)
  then have served: "served_ok w (set_handler k pc y)"
    using inv origin_set_handler [of k pc y]
    by (simp add: rpc_inv_def served_ok_def) (simp add: set_handler_def handler_ok_def)
  have "h \<in> set ((sy_served y)[k := ?h])" if "h \<in> set (sy_served y)" "hd_pc h = HD_Replied b" for h b
    using that k by (metis in_set_conv_nth length_list_update nth_list_update_neq)
  then have "answered w ((sy_served y)[k := ?h]) r" if "answered w (sy_served y) r" for r
    using that unfolding answered_def by blast
  with inv served show ?thesis
    by (auto simp: rpc_inv_def links_ok_def replies_ok_def set_handler_def)
qed

lemma rpc_inv_serve:
  assumes "rpc_inv w y" "sys_serve w k y = Some (Ret y')"
  shows "rpc_inv w y'"
proof -
  from assms(2) obtain r where k: "k < length (sy_served y)" "hd_pc (sy_served y ! k) = HD_Serving"
    and r: "Server_handleMessageRequest (ep_uuid w) (ep_pb w) (ep_wire w) (ep_key w) (ep_server w) (hd_req (sy_served y ! k)) = Ret r"
    and y': "y' = set_handler k (case r of None \<Rightarrow> HD_NoReply | Some b \<Rightarrow> HD_Replying b) y"
    by (auto simp: sys_serve_def split: if_splits)
  show ?thesis unfolding y'
    by (rule rpc_inv_set_handler [OF assms(1) k(1)]) (use k r in \<open>auto split: option.splits\<close>)
qed

lemma rpc_inv_reply:
  assumes "rpc_inv w y" "sys_reply k l ok y = Some (Ret y')"
  shows "rpc_inv w y'"
proof -
  from assms(2) obtain b where k: "k < length (sy_served y)" "hd_pc (sy_served y ! k) = HD_Replying b"
    and at: "at_server l (WriterGives b ok) id (set_handler k (HD_Replied b) y) = Some (Ret y')"
    by (auto simp: sys_reply_def split: if_splits handler_pc.splits)
  have "handler_ok w y (sy_served y ! k)" using assms(1) nth_mem [OF k(1)] by (simp add: rpc_inv_def served_ok_def)
  then have inv: "rpc_inv w (set_handler k (HD_Replied b) y)"
    using k by (intro rpc_inv_set_handler [OF assms(1)]) (auto simp: handler_ok_def)
  have "(sy_served y ! k)\<lparr>hd_pc := HD_Replied b\<rparr> \<in> set (sy_served (set_handler k (HD_Replied b) y))"
    using k(1) by (simp add: set_handler_def set_update_memI)
  then have "answered w (sy_served (set_handler k (HD_Replied b) y)) r"
    if "ClientConn_handleRead (ep_wire w) b = HandleResponse r" for r
    using that unfolding answered_def by force
  then show ?thesis
    by (intro rpc_inv_at_server [OF inv at]) (cases ok; auto simp: is_read_def)+
qed

lemma rpc_inv_respond:
  assumes "rpc_inv w y" "sys_respond j y = Some y'"
  shows "rpc_inv w y'"
proof -
  from assms(2) obtain c where j: "j < length (sy_responses y)"
    and c: "call_step (CE_Arrive (sy_responses y ! j)) (sy_calls y) = Some c"
    and y': "y' = y\<lparr>sy_calls := c, sy_responses := take j (sy_responses y) @ drop (Suc j) (sy_responses y)\<rparr>"
    by (auto simp: sys_respond_def calls_to_def split: if_splits)
  have "answered w (sy_served y) (sy_responses y ! j)"
    using assms(1) nth_mem [OF j] by (simp add: rpc_inv_def replies_ok_def)
  then have inv: "rpc_inv w (y\<lparr>sy_calls := c\<rparr>)"
    by (intro rpc_inv_calls [OF assms(1) c]) simp_all
  have "set (take j (sy_responses y) @ drop (Suc j) (sy_responses y)) \<subseteq> set (sy_responses y)"
    by (auto dest: in_set_takeD in_set_dropD)
  with inv show ?thesis
    by (auto simp: y' rpc_inv_def links_ok_def served_ok_def handler_ok_def replies_ok_def)
qed

lemma rpc_inv_step:
  assumes inv: "rpc_inv w y" and step: "rpc_step w e y = Some (Ret y')"
  shows "rpc_inv w y'"
proof (cases e)
  case (SY_Connect opts config)
  with step rpc_inv_connect [OF inv] show ?thesis by auto
next
  case (SY_Invoke callID m args)
  with step rpc_inv_invoke [OF inv] show ?thesis by auto
next
  case (SY_Send n l ok)
  with step rpc_inv_send [OF inv] show ?thesis by simp
next
  case (SY_Call ev)
  with step obtain c where "call_event_alone ev" and c: "call_step ev (sy_calls y) = Some c" and "y' = y\<lparr>sy_calls := c\<rparr>"
    by (auto simp: calls_to_def split: if_splits)
  then show ?thesis using rpc_inv_calls [OF inv c] by (cases ev) auto
next
  case (SY_Client l ev)
  with step have "by_itself ev (ln_down (sy_links y ! l)) (tr_sent (ln_server (sy_links y ! l)))"
    and at: "at_client l ev (\<lambda>k. if is_read ev then k\<lparr>ln_down := Suc (ln_down k)\<rparr> else k) y = Some (Ret y')"
    by (auto split: if_splits)
  then show ?thesis
    by (intro rpc_inv_at_client [OF inv at, where ts = "[]"]) (cases ev; auto simp: by_itself_def is_read_def)+
next
  case (SY_Server l ev)
  with step have "by_itself ev (ln_up (sy_links y ! l)) (tr_sent (ln_client (sy_links y ! l)))"
    and at: "at_server l ev (\<lambda>k. if is_read ev then k\<lparr>ln_up := Suc (ln_up k)\<rparr> else k) y = Some (Ret y')"
    by (auto split: if_splits)
  then show ?thesis
    by (intro rpc_inv_at_server [OF inv at]) (cases ev; auto simp: by_itself_def is_read_def)+
next
  case (SY_ServerRead l)
  with step rpc_inv_server_read [OF inv] show ?thesis by simp
next
  case (SY_Serve k)
  with step rpc_inv_serve [OF inv] show ?thesis by simp
next
  case (SY_Reply k l ok)
  with step rpc_inv_reply [OF inv] show ?thesis by simp
next
  case (SY_NotSent k)
  with step obtain b where "k < length (sy_served y)" "hd_pc (sy_served y ! k) = HD_Replying b" "y' = set_handler k HD_NoReply y"
    by (auto simp: sys_not_sent_def split: if_splits handler_pc.splits)
  with rpc_inv_set_handler [OF inv, of k HD_NoReply] show ?thesis by simp
next
  case (SY_ClientRead l)
  with step rpc_inv_client_read [OF inv] show ?thesis by simp
next
  case (SY_Respond j)
  with step rpc_inv_respond [OF inv] show ?thesis by auto
next
  case (SY_ClientSends l b ok)
  with step have "other_up w b" and at: "at_client l (WriterGives b ok) (\<lambda>k. if ok then k\<lparr>ln_calls := ln_calls k @ [None]\<rparr> else k) y = Some (Ret y')"
    by (auto split: if_splits)
  then show ?thesis
    by (intro rpc_inv_at_client [OF inv at, where ts = "if ok then [None] else []"])
      (auto simp: is_read_def message_ok_def split: if_splits)
next
  case (SY_ServerSends l b ok)
  with step have "other_down w b" and at: "at_server l (WriterGives b ok) id y = Some (Ret y')"
    by (auto split: if_splits)
  then show ?thesis
    by (intro rpc_inv_at_server [OF inv at]) (cases ok; auto simp: is_read_def other_down_def)+
qed

lemma rpc_reachable_inv: "rpc_reachable w y \<Longrightarrow> rpc_inv w y"
proof (induction rule: rpc_reachable.induct)
  case rpc_init
  show ?case by (rule rpc_inv_init)
next
  case (rpc_next y e y')
  then show ?case by (blast intro: rpc_inv_step)
qed

subsection \<open>Safety\<close>

text \<open>The goroutines \<open>handleMessageRequest\<close> that carry the id of call \<open>n\<close>.\<close>

definition served_for :: "'p rpc_system \<Rightarrow> nat \<Rightarrow> served_request list" where
  "served_for y n = filter (\<lambda>h. Request_GetCallId (hd_req h) = iv_id (cs_invs (sy_calls y) ! n)) (sy_served y)"

lemma request_of_call:
  assumes "calls_ok w s cs" "n < length cs" "decodes (ep_wire w) norm_message"
  obtains payload where "pb_marshal (ep_pb w) (rc_args (cs ! n)) = Inr payload"
    "Server_handleRead (ep_wire w) (rc_request (cs ! n))
       = SrvHandleRequest (sent_request (iv_id (cs_invs s ! n)) (rc_method (cs ! n)) payload)"
proof -
  have "Invoke_request (ep_pb w) (ep_wire w) (iv_id (cs_invs s ! n)) (rc_method (cs ! n)) (ProtoMessage (rc_args (cs ! n)))
      = Inr (rc_request (cs ! n))"
    using assms(1,2) by (simp add: calls_ok_def)
  then obtain q where q: "NewRequest (ep_pb w) (iv_id (cs_invs s ! n)) (rc_method (cs ! n))
      (ProtoMessage (rc_args (cs ! n))) = Inr q" "pb_marshal (ep_wire w) q = Inr (rc_request (cs ! n))"
    by (auto simp: Invoke_request_def split: sum.splits)
  from request_arrives [OF assms(3) q] obtain payload where "pb_marshal (ep_pb w) (rc_args (cs ! n)) = Inr payload"
    "Server_handleRead (ep_wire w) (rc_request (cs ! n))
       = SrvHandleRequest (sent_request (iv_id (cs_invs s ! n)) (rc_method (cs ! n)) payload)"
    by blast
  then show ?thesis by (rule that)
qed

text \<open>A handler works on the request of a call, and which call this is its id says.\<close>

lemma handler_call:
  assumes "rpc_inv w y" "decodes (ep_wire w) norm_message" "h \<in> set (sy_served y)"
  obtains n payload where "call_at (sy_links y) (hd_link h) (hd_pos h) = Some n" "n < length (sy_requests y)"
    "pb_marshal (ep_pb w) (rc_args (sy_requests y ! n)) = Inr payload"
    "hd_req h = sent_request (iv_id (cs_invs (sy_calls y) ! n)) (rc_method (sy_requests y ! n)) payload"
proof -
  from assms obtain n where n: "call_at (sy_links y) (hd_link h) (hd_pos h) = Some n" "n < length (sy_requests y)"
    "Server_handleRead (ep_wire w) (rc_request (sy_requests y ! n)) = SrvHandleRequest (hd_req h)"
    by (auto simp: rpc_inv_def served_ok_def handler_ok_def)
  have "calls_ok w (sy_calls y) (sy_requests y)" using assms(1) by (simp add: rpc_inv_def)
  then obtain payload where "pb_marshal (ep_pb w) (rc_args (sy_requests y ! n)) = Inr payload"
    "Server_handleRead (ep_wire w) (rc_request (sy_requests y ! n))
       = SrvHandleRequest (sent_request (iv_id (cs_invs (sy_calls y) ! n)) (rc_method (sy_requests y ! n)) payload)"
    by (rule request_of_call [OF _ n(2) assms(2)])
  note p = this
  have "hd_req h = sent_request (iv_id (cs_invs (sy_calls y) ! n)) (rc_method (sy_requests y ! n)) payload"
    using p(2) n(3) by auto
  then show ?thesis by (rule that [OF n(1,2) p(1)])
qed

lemma same_id_same_call:
  assumes "rpc_inv w y" "n < length (sy_requests y)" "m < length (sy_requests y)"
    and "iv_id (cs_invs (sy_calls y) ! n) = iv_id (cs_invs (sy_calls y) ! m)"
  shows "n = m"
  using assms nth_eq_iff_index_eq [of "map iv_id (cs_invs (sy_calls y))" n m]
  by (auto simp: rpc_inv_def calls_ok_def calls_inv_def)

lemma length_distinct_image:
  assumes "distinct (map f xs)" "\<And>x y. x \<in> set xs \<Longrightarrow> y \<in> set xs \<Longrightarrow> f x = f y"
  shows "length xs \<le> 1"
proof (cases xs)
  case (Cons a ys)
  show ?thesis
  proof (cases ys)
    case (Cons b zs)
    then have "f a = f b" using \<open>xs = a # ys\<close> by (intro assms(2)) simp_all
    with assms(1) \<open>xs = a # ys\<close> Cons show ?thesis by simp
  qed (simp add: \<open>xs = a # ys\<close>)
qed simp

lemma served_at_most_once:
  assumes "rpc_inv w y" "decodes (ep_wire w) norm_message" "n < length (sy_requests y)"
  shows "length (served_for y n) \<le> 1"
proof (rule length_distinct_image [where f = origin])
  show "distinct (map origin (served_for y n))"
    using assms(1) by (simp add: served_for_def rpc_inv_def served_ok_def distinct_map_filter)
  have at: "call_at (sy_links y) (hd_link h) (hd_pos h) = Some n" if h: "h \<in> set (served_for y n)" for h
  proof -
    from h have "h \<in> set (sy_served y)" by (simp add: served_for_def)
    then obtain m payload where m: "call_at (sy_links y) (hd_link h) (hd_pos h) = Some m" "m < length (sy_requests y)"
      "hd_req h = sent_request (iv_id (cs_invs (sy_calls y) ! m)) (rc_method (sy_requests y ! m)) payload"
      by (rule handler_call [OF assms(1,2)])
    with h have "m = n" by (intro same_id_same_call [OF assms(1) m(2) assms(3)]) (simp add: served_for_def)
    with m show ?thesis by simp
  qed
  have uniq: "\<forall>l i l' i' n. call_at (sy_links y) l i = Some n \<and> call_at (sy_links y) l' i' = Some n \<longrightarrow> l = l' \<and> i = i'"
    using assms(1) by (simp add: rpc_inv_def links_ok_def)
  show "origin h = origin h'" if "h \<in> set (served_for y n)" "h' \<in> set (served_for y n)" for h h'
    using uniq at [OF that(1)] at [OF that(2)] unfolding origin_def by blast
qed

text \<open>A reply of a generated handler, from the request it served.\<close>

lemma reply_of_generated:
  assumes "Server_handleMessageRequest uuid_parse pb wire key s (sent_request callID m payload) = Ret (Some b)"
    and "decodes pb nrm" "decodes wire norm_message" "pb_marshal pb args = Inr payload" "srv_service s = Some si"
    and gen: "\<And>name d. si_methods si name = Some d \<Longrightarrow> \<exists>new_in meth. md_Handler d = generated_handler new_in meth"
  obtains d new_in meth out herr rp where "si_methods si m = Some d" "md_Handler d = generated_handler new_in meth"
    "meth (si_serviceImpl si) (peer_NewContext Background \<lparr>peer_PublicKey = key\<rparr>) (nrm args) = (ProtoMessage out, herr)"
    "pb_marshal pb out = Inr rp" "ClientConn_handleRead wire b = HandleResponse (sent_response callID rp herr)"
proof -
  let ?ctx = "peer_NewContext Background \<lparr>peer_PublicKey = key\<rparr>"
  from assms(1,5) obtain d where d: "si_methods si m = Some d"
    by (cases "si_methods si m") (auto simp: Server_handleMessageRequest_def validateMessageRequest_def)
  with gen obtain new_in meth where g: "md_Handler d = generated_handler new_in meth" by blast
  obtain v herr where run: "meth (si_serviceImpl si) ?ctx (nrm args) = (v, herr)" by fastforce
  have h: "md_Handler d (si_serviceImpl si) ?ctx (UnmarshalProtoMessage pb (norm_slice payload)) = (v, herr)"
    unfolding g generated_handler_runs [OF assms(2,4)] by (rule run)
  from assms(1) obtain val where "validateMessageRequest uuid_parse s (sent_request callID m payload) = Ret val"
    by (auto simp: Server_handleMessageRequest_def)
  moreover from this assms(1) have "val = Inr ()"
    by (cases val) (simp_all add: Server_handleMessageRequest_def)
  ultimately have "validateMessageRequest uuid_parse s (sent_request callID m payload) = Ret (Inr ())" by simp
  with assms(1,5) d h obtain msg where msg: "NewResponse pb callID v herr = Inr msg" "MarshalProtoMessage wire (ProtoMessage msg) = Inr b"
    by (auto simp: Server_handleMessageRequest_def Let_def split: sum.splits)
  then obtain out rp where out: "v = ProtoMessage out" "pb_marshal pb out = Inr rp" by (auto simp: NewResponse_Inr)
  from response_arrives_at_reader [OF assms(3) msg(1) [unfolded out(1)] msg(2) out(2)] d g run out that show ?thesis by blast
qed

text \<open>
  C1.  Calls of a client to a server are safe in every interleaving.  Take encoders that decode what they
  encode, and a service of generated handlers.  Any number of calls run at once, connections break and
  are replaced, messages are lost, replies travel over another connection than their requests, and
  calls of the server share the connections.  Then each call reaches at most one handler; and a call
  that returns with a response has been served exactly once, with its own arguments and the key of
  the client in the context, and returns the reply of this run of the method, or an error with the text
  of its error.
\<close>

theorem rpc_system_safe:
  assumes "rpc_reachable w y" "decodes (ep_wire w) norm_message" "decodes (ep_pb w) nrm"
    and "srv_service (ep_server w) = Some si"
    and "\<And>name d. si_methods si name = Some d \<Longrightarrow> \<exists>new_in meth. md_Handler d = generated_handler new_in meth"
    and "n < length (sy_requests y)"
  shows "length (served_for y n) \<le> 1
    \<and> (\<forall>r. pc_of (sy_calls y) n = Some (IV_Returned (Got r)) \<longrightarrow>
         length (served_for y n) = 1
         \<and> (\<exists>d new_in meth out herr. si_methods si (rc_method (sy_requests y ! n)) = Some d
              \<and> md_Handler d = generated_handler new_in meth
              \<and> meth (si_serviceImpl si) (peer_NewContext Background \<lparr>peer_PublicKey = ep_key w\<rparr>)
                  (nrm (rc_args (sy_requests y ! n))) = (ProtoMessage out, herr)
              \<and> Invoke_result (ep_pb w) r (ProtoMessage t) = Ret (call_result (nrm out) herr)))"
proof (intro conjI allI impI)
  have inv: "rpc_inv w y" by (rule rpc_reachable_inv [OF assms(1)])
  show once: "length (served_for y n) \<le> 1" by (rule served_at_most_once [OF inv assms(2,6)])
  fix r
  assume pc: "pc_of (sy_calls y) n = Some (IV_Returned (Got r))"
  then have iv: "n < length (cs_invs (sy_calls y))" "iv_pc (cs_invs (sy_calls y) ! n) = IV_Returned (Got r)"
    by (auto simp: pc_of_Some)
  have ci: "calls_inv (sy_calls y)" using inv by (simp add: rpc_inv_def calls_ok_def)
  have "r \<in> responses_in (sy_calls y)" using iv nth_mem [OF iv(1)] by (force simp: responses_in_def)
  then have "answered w (sy_served y) r" using inv unfolding rpc_inv_def replies_ok_def by blast
  then obtain h b where h: "h \<in> set (sy_served y)" "hd_pc h = HD_Replied b"
    and b: "ClientConn_handleRead (ep_wire w) b = HandleResponse r"
    by (auto simp: answered_def)
  obtain m payload where m: "m < length (sy_requests y)" "pb_marshal (ep_pb w) (rc_args (sy_requests y ! m)) = Inr payload"
    and q: "hd_req h = sent_request (iv_id (cs_invs (sy_calls y) ! m)) (rc_method (sy_requests y ! m)) payload"
    by (rule handler_call [OF inv assms(2) h(1)])
  have "Server_handleMessageRequest (ep_uuid w) (ep_pb w) (ep_wire w) (ep_key w) (ep_server w)
      (sent_request (iv_id (cs_invs (sy_calls y) ! m)) (rc_method (sy_requests y ! m)) payload) = Ret (Some b)"
    using inv h q by (auto simp: rpc_inv_def served_ok_def handler_ok_def)
  then obtain d new_in meth out herr rp where d: "si_methods si (rc_method (sy_requests y ! m)) = Some d"
    "md_Handler d = generated_handler new_in meth"
    and run: "meth (si_serviceImpl si) (peer_NewContext Background \<lparr>peer_PublicKey = ep_key w\<rparr>)
        (nrm (rc_args (sy_requests y ! m))) = (ProtoMessage out, herr)"
    and rp: "pb_marshal (ep_pb w) out = Inr rp"
    and resp: "ClientConn_handleRead (ep_wire w) b = HandleResponse (sent_response (iv_id (cs_invs (sy_calls y) ! m)) rp herr)"
    by (rule reply_of_generated [OF _ assms(3,2) m(2) assms(4,5)]) blast
  from b resp have r: "r = sent_response (iv_id (cs_invs (sy_calls y) ! m)) rp herr" by simp
  have "got_id (iv_pc (cs_invs (sy_calls y) ! n)) \<in> {None, Some (iv_id (cs_invs (sy_calls y) ! n))}"
    using ci nth_mem [OF iv(1)] by (simp add: calls_inv_def)
  then have "m = n" using iv by (intro same_id_same_call [OF inv m(1) assms(6)]) (simp add: r)
  with h(1) q have "h \<in> set (served_for y n)" by (simp add: served_for_def)
  with once show "length (served_for y n) = 1" by (cases "served_for y n") auto
  have "Invoke_result (ep_pb w) r (ProtoMessage t) = Ret (call_result (nrm out) herr)"
    unfolding r using result_of_response [OF assms(3) rp] by blast
  with d run \<open>m = n\<close> show "\<exists>d new_in meth out herr. si_methods si (rc_method (sy_requests y ! n)) = Some d
      \<and> md_Handler d = generated_handler new_in meth
      \<and> meth (si_serviceImpl si) (peer_NewContext Background \<lparr>peer_PublicKey = ep_key w\<rparr>)
          (nrm (rc_args (sy_requests y ! n))) = (ProtoMessage out, herr)
      \<and> Invoke_result (ep_pb w) r (ProtoMessage t) = Ret (call_result (nrm out) herr)"
    by blast
qed

subsection \<open>Concrete runs\<close>

text \<open>
  A server with the service \<open>echo_service\<close> and the encoders of the samples.  In \<open>reconnect_run\<close> a call's
  connection breaks while its handler runs; the client dials again, and the reply comes over the new
  connection.
\<close>

definition demo_endpoints :: "(unit, bytes) endpoints" where
  "demo_endpoints = \<lparr>ep_pb = sample_payload, ep_wire = sample_wire, ep_uuid = demo_uuid_parse, ep_key = key_of 1,
     ep_server = Server_register echo_service () echo_server\<rparr>"

definition demo_request :: slice where
  "demo_request = (case Invoke_request sample_payload sample_wire ''a'' ''Echo'' (ProtoMessage [5]) of Inr b \<Rightarrow> b | Inl e \<Rightarrow> None)"

definition demo_reply :: slice where
  "demo_reply = (case NewResponse sample_payload ''a'' (ProtoMessage [5, 5]) None of
     Inr m \<Rightarrow> (case MarshalProtoMessage sample_wire (ProtoMessage m) of Inr b \<Rightarrow> b | Inl e \<Rightarrow> None) | Inl e \<Rightarrow> None)"

definition demo_options :: ConnectOptions where
  "demo_options = \<lparr>co_WriteTimeout = 0, co_ReadLimit = 0, co_TransportCredentials = no_creds\<rparr>"

definition reconnect_run :: "bytes rpc_event list" where
  "reconnect_run = [SY_Connect demo_options example_config, SY_Invoke ''a'' ''Echo'' [5], SY_Send 0 0 True,
     SY_Server 0 (ReadReturns demo_request), SY_ServerRead 0, SY_Server 0 ReadFails, SY_Client 0 ReadFails,
     SY_Connect demo_options example_config, SY_Serve 0, SY_Reply 0 1 True, SY_Client 1 (ReadReturns demo_reply),
     SY_ClientRead 1, SY_Respond 0, SY_Call (CE_Deliver 0), SY_Call (CE_Leave 0)]"

lemma reconnect_run_result:
  "case run_rpc demo_endpoints reconnect_run no_traffic of
     Some (Ret y) \<Rightarrow> length (sy_requests y) = 1
       \<and> pc_of (sy_calls y) 0 = Some (IV_Returned (Got (sent_response ''a'' (Some [5, 5]) None)))
   | _ \<Rightarrow> False"
  by code_simp

lemma demo_service:
  "srv_service (ep_server demo_endpoints) = Some (new_serviceInfo echo_service ())"
  "si_methods (new_serviceInfo echo_service ()) = [''Echo'' \<mapsto> hd (sd_Methods echo_service)]"
  unfolding new_serviceInfo_def by (simp_all add: demo_endpoints_def Server_register_def new_serviceInfo_def echo_service_def)

lemma demo_generated:
  assumes "si_methods (new_serviceInfo echo_service ()) name = Some d"
  shows "\<exists>new_in meth. md_Handler d = generated_handler new_in meth"
  using assms unfolding demo_service(2)
  by (clarsimp simp: echo_service_def split: if_splits) (rule exI, rule exI, rule refl)

lemma demo_endpoints_simps [simp]:
  "ep_pb demo_endpoints = sample_payload" "ep_wire demo_endpoints = sample_wire" "ep_uuid demo_endpoints = demo_uuid_parse"
  "ep_key demo_endpoints = key_of 1"
  by (simp_all add: demo_endpoints_def)

lemma demo_codec: "decodes (ep_wire demo_endpoints) norm_message" "decodes (ep_pb demo_endpoints) id"
  by (simp_all only: demo_endpoints_simps decodes_sample_wire decodes_sample_payload)

theorem rpc_system_safe_witness:
  "\<exists>y. run_rpc demo_endpoints reconnect_run no_traffic = Some (Ret y) \<and> length (served_for y 0) = 1
     \<and> (\<exists>r. pc_of (sy_calls y) 0 = Some (IV_Returned (Got r)))"
proof -
  from reconnect_run_result obtain y r where y: "run_rpc demo_endpoints reconnect_run no_traffic = Some (Ret y)"
    "length (sy_requests y) = 1" "pc_of (sy_calls y) 0 = Some (IV_Returned (Got r))"
    by (auto split: option.splits go.splits)
  have "length (served_for y 0) = 1"
    using rpc_system_safe [OF run_rpc_reachable [OF rpc_init y(1)] demo_codec demo_service(1) demo_generated, where n = 0] y(2,3)
    by simp
  with y show ?thesis by blast
qed

end
