(* ===== verification/EndToEndLive.thy ===== *)
theory EndToEndLive
  imports EndToEnd
begin

text \<open>
  A call of a client can always be completed: the runs of \<open>EndToEnd\<close> in which nothing fails, and how they
  take a new call through the connection, the handler and the way back.
\<close>

subsection \<open>Progress\<close>

text \<open>A connection whose four pumps are at work.\<close>

definition live :: "rpc_link \<Rightarrow> bool" where
  "live k \<longleftrightarrow> tr_writePump (ln_client k) = WP_Select \<and> tr_writePump (ln_server k) = WP_Select
     \<and> tr_readPump (ln_client k) \<notin> {RP_NotStarted, RP_Done} \<and> tr_readPump (ln_server k) \<notin> {RP_NotStarted, RP_Done}"

text \<open>Events in which nothing fails and nobody gives up.\<close>

fun orderly :: "'p rpc_event \<Rightarrow> bool" where
  "orderly (SY_Invoke callID m args) = True"
| "orderly (SY_Send n l ok) = ok"
| "orderly (SY_Call e) = (case e of CE_Deliver k \<Rightarrow> True | CE_Leave n \<Rightarrow> True | _ \<Rightarrow> False)"
| "orderly (SY_Client l e) = is_read e"
| "orderly (SY_Server l e) = is_read e"
| "orderly (SY_ServerRead l) = True"
| "orderly (SY_Serve k) = True"
| "orderly (SY_Reply k l ok) = ok"
| "orderly (SY_ClientRead l) = True"
| "orderly (SY_Respond j) = True"
| "orderly _ = False"

abbreviation orderly_run :: "('i, 'p) endpoints \<Rightarrow> 'p rpc_system \<Rightarrow> 'p rpc_system \<Rightarrow> bool" where
  "orderly_run w \<equiv> runs_within (rpc_step w) orderly"

lemmas orderly_step = runs_within_step [where step = "rpc_step w" and good = orderly] for w

lemma orderly_inv: "orderly_run w y y' \<Longrightarrow> rpc_inv w y \<Longrightarrow> rpc_inv w y'"
  by (erule runs_within_keeps [where P = "rpc_inv w"]) (auto dest: rpc_inv_step)
text \<open>
  What the server's reading from connection \<open>l\<close> does: the rest of the system stays, and each request
  taken gets a new handler.
\<close>

definition reads_up :: "nat \<Rightarrow> 'p rpc_system \<Rightarrow> 'p rpc_system \<Rightarrow> bool" where
  "reads_up l y y' \<longleftrightarrow>
     sy_calls y' = sy_calls y \<and> sy_requests y' = sy_requests y \<and> sy_responses y' = sy_responses y
     \<and> (\<exists>k. sy_links y' = (sy_links y)[l := k] \<and> live k \<and> ln_client k = ln_client (sy_links y ! l)
          \<and> ln_calls k = ln_calls (sy_links y ! l) \<and> tr_sent (ln_server k) = tr_sent (ln_server (sy_links y ! l))
          \<and> length (tr_delivered (ln_server (sy_links y ! l))) \<le> length (tr_delivered (ln_server k)))
     \<and> (\<exists>hs. sy_served y' = sy_served y @ hs \<and> (\<forall>h \<in> set hs. hd_pc h = HD_Serving)
          \<and> (\<forall>i n. length (tr_delivered (ln_server (sy_links y ! l))) \<le> i
               \<and> i < length (tr_delivered (ln_server (sy_links y' ! l))) \<and> call_at (sy_links y) l i = Some n
               \<longrightarrow> (l, i) \<in> origin ` set hs))"

lemma reads_up_trans:
  assumes "reads_up l y y1" "reads_up l y1 y2" "l < length (sy_links y)"
  shows "reads_up l y y2"
proof -
  from assms(1) obtain k hs where 1: "sy_links y1 = (sy_links y)[l := k]" "ln_calls k = ln_calls (sy_links y ! l)"
    "ln_client k = ln_client (sy_links y ! l)" "tr_sent (ln_server k) = tr_sent (ln_server (sy_links y ! l))"
    "length (tr_delivered (ln_server (sy_links y ! l))) \<le> length (tr_delivered (ln_server k))"
    "sy_served y1 = sy_served y @ hs" "\<forall>h \<in> set hs. hd_pc h = HD_Serving"
    "\<forall>i n. length (tr_delivered (ln_server (sy_links y ! l))) \<le> i
       \<and> i < length (tr_delivered (ln_server k)) \<and> call_at (sy_links y) l i = Some n \<longrightarrow> (l, i) \<in> origin ` set hs"
    by (auto simp: reads_up_def assms(3))
  from assms(2) obtain k' hs' where 2: "sy_links y2 = (sy_links y)[l := k']" "ln_calls k' = ln_calls k"
    "ln_client k' = ln_client k" "tr_sent (ln_server k') = tr_sent (ln_server k)" "live k'"
    "length (tr_delivered (ln_server k)) \<le> length (tr_delivered (ln_server k'))"
    "sy_served y2 = sy_served y1 @ hs'" "\<forall>h \<in> set hs'. hd_pc h = HD_Serving"
    "\<forall>i n. length (tr_delivered (ln_server k)) \<le> i
       \<and> i < length (tr_delivered (ln_server k')) \<and> call_at (sy_links y1) l i = Some n \<longrightarrow> (l, i) \<in> origin ` set hs'"
    by (auto simp: reads_up_def assms(3) 1(1))
  have at: "call_at (sy_links y1) l i = call_at (sy_links y) l i" for i
    using assms(3) by (simp add: 1(1,2) call_at_def)
  have "(l, i) \<in> origin ` set (hs @ hs')" if "length (tr_delivered (ln_server (sy_links y ! l))) \<le> i"
    "i < length (tr_delivered (ln_server k'))" "call_at (sy_links y) l i = Some n" for i n
    using that 1(8) 2(9) unfolding set_append image_Un
    by (cases "i < length (tr_delivered (ln_server k))") (simp_all add: at not_less del: image_iff)
  with 1 2 assms show ?thesis
    unfolding reads_up_def by (intro conjI exI [of _ k'] exI [of _ "hs @ hs'"]) (auto simp: reads_up_def)
qed

lemma read_up_once:
  assumes inv: "rpc_inv w y" and codec: "decodes (ep_wire w) norm_message"
    and l: "l < length (sy_links y)" "live (sy_links y ! l)"
    and more: "length (tr_delivered (ln_server (sy_links y ! l))) < length (tr_sent (ln_client (sy_links y ! l)))"
  obtains y' where "orderly_run w y y'" "reads_up l y y'"
    "ln_up (sy_links y' ! l) + length (tr_delivered (ln_server (sy_links y' ! l)))
       = Suc (ln_up (sy_links y ! l) + length (tr_delivered (ln_server (sy_links y ! l))))"
proof (cases "tr_readPump (ln_server (sy_links y ! l))")
  case RP_Reading
  let ?k = "sy_links y ! l"
  note old = rpc_inv_linkD [OF inv l(1)]
  have "tr_delivered (ln_server ?k) = take (ln_up ?k) (tr_sent (ln_client ?k))"
    using old(1) RP_Reading by (simp add: link_ok_def in_hand_def)
  from arg_cong [OF this, of length] more have up: "ln_up ?k < length (tr_sent (ln_client ?k))" by simp
  let ?m = "tr_sent (ln_client ?k) ! ln_up ?k"
  let ?k' = "?k\<lparr>ln_server := (ln_server ?k)\<lparr>tr_readPump := RP_Sending ?m\<rparr>, ln_up := Suc (ln_up ?k)\<rparr>"
  let ?y = "y\<lparr>sy_links := (sy_links y)[l := ?k']\<rparr>"
  have "rpc_step w (SY_Server l (ReadReturns ?m)) y = Some (Ret ?y)"
    using l(1) up RP_Reading by (simp add: by_itself_def at_server_def server_step_simps is_read_def)
  then have "orderly_run w y ?y" by (rule orderly_step) (simp add: is_read_def)
  moreover have "reads_up l y ?y"
    using l by (auto simp: reads_up_def live_def)
  ultimately show ?thesis using l(1) by (intro that [of ?y]) simp_all
next
  case (RP_Sending m)
  let ?k = "sy_links y ! l" and ?pos = "length (tr_delivered (ln_server (sy_links y ! l)))"
  note old = rpc_inv_linkD [OF inv l(1)]
  let ?k' = "?k\<lparr>ln_server := (ln_server ?k)\<lparr>tr_readPump := RP_Reading, tr_delivered := tr_delivered (ln_server ?k) @ [m]\<rparr>\<rparr>"
  let ?y1 = "y\<lparr>sy_links := (sy_links y)[l := ?k']\<rparr>"
  have at: "at_server l ReaderTakes id y = Some (Ret ?y1)"
    using l(1) RP_Sending by (simp add: at_server_def server_step_simps)
  have m: "in_hand_msg (ln_server ?k) = m" using RP_Sending by (simp add: in_hand_msg_def)
  define hs where "hs = (case Server_handleRead (ep_wire w) m of
      SrvHandleRequest q \<Rightarrow> [\<lparr>hd_link = l, hd_pos = ?pos, hd_req = q, hd_pc = HD_Serving\<rparr>] | _ \<Rightarrow> [])"
  let ?y = "?y1\<lparr>sy_served := sy_served y @ hs\<rparr>"
  have "sys_server_read w l y = Some (Ret ?y)"
    by (simp add: sys_server_read_def at m hs_def split: srv_dispatch.split)
  then have run: "orderly_run w y ?y" by (intro orderly_step [where e = "SY_ServerRead l"]) simp_all
  have prefix: "tr_delivered (ln_server ?k) @ [m] = take (ln_up ?k) (tr_sent (ln_client ?k))"
    using old(1) RP_Sending by (simp add: link_ok_def in_hand_def)
  have "(l, ?pos) \<in> origin ` set hs" if n: "call_at (sy_links y) l ?pos = Some n" for n
  proof -
    from n have i: "?pos < length (ln_calls ?k)" "ln_calls ?k ! ?pos = Some n" by (auto simp: call_at_def split: if_splits)
    from list_all2_nthD [OF old(2) i(1)] i(2) snoc_prefix(2) [OF prefix]
    have n: "n < length (sy_requests y)" "m = rc_request (sy_requests y ! n)" by (simp_all add: message_ok_def)
    have "calls_ok w (sy_calls y) (sy_requests y)" using inv by (simp add: rpc_inv_def)
    then obtain q where "Server_handleRead (ep_wire w) m = SrvHandleRequest q"
      unfolding n(2) by (rule request_of_call [OF _ n(1) codec]) blast
    then show ?thesis by (simp add: hs_def origin_def)
  qed
  moreover have "\<forall>h \<in> set hs. hd_pc h = HD_Serving" by (auto simp: hs_def split: srv_dispatch.splits)
  ultimately have "reads_up l y ?y"
    using l by (auto simp: reads_up_def live_def less_Suc_eq)
  with run l(1) show ?thesis by (intro that [of ?y]) simp_all
qed (use l(2) in \<open>simp_all add: live_def\<close>)

lemma read_up_to:
  assumes "rpc_inv w y" "decodes (ep_wire w) norm_message" "l < length (sy_links y)" "live (sy_links y ! l)"
    and "p \<le> length (tr_sent (ln_client (sy_links y ! l)))"
  shows "\<exists>y'. orderly_run w y y' \<and> reads_up l y y' \<and> p \<le> length (tr_delivered (ln_server (sy_links y' ! l)))"
  using assms
proof (induction "2 * length (tr_sent (ln_client (sy_links y ! l)))
    - (ln_up (sy_links y ! l) + length (tr_delivered (ln_server (sy_links y ! l))))" arbitrary: y rule: less_induct)
  case (less y)
  let ?k = "sy_links y ! l"
  show ?case
  proof (cases "p \<le> length (tr_delivered (ln_server ?k))")
    case True
    have "reads_up l y y"
      using less.prems(3,4) unfolding reads_up_def by (intro conjI exI [of _ ?k] exI [of _ "[]"]) auto
    with True show ?thesis by (intro exI [of _ y]) simp
  next
    case False
    then have "length (tr_delivered (ln_server ?k)) < length (tr_sent (ln_client ?k))" using less.prems(5) by simp
    then obtain y1 where y1: "orderly_run w y y1" "reads_up l y y1"
      "ln_up (sy_links y1 ! l) + length (tr_delivered (ln_server (sy_links y1 ! l)))
         = Suc (ln_up ?k + length (tr_delivered (ln_server ?k)))"
      by (rule read_up_once [OF less.prems(1-4)])
    have inv: "rpc_inv w y1" by (rule orderly_inv [OF y1(1) less.prems(1)])
    from y1(2) less.prems(3) have l: "l < length (sy_links y1)" "live (sy_links y1 ! l)"
      "ln_client (sy_links y1 ! l) = ln_client ?k" by (auto simp: reads_up_def)
    have "link_ok ?k" using rpc_inv_linkD [OF less.prems(1,3)] by blast
    then have "ln_up ?k + length (tr_delivered (ln_server ?k)) < 2 * length (tr_sent (ln_client ?k))"
      using False less.prems(5) by (simp add: link_ok_def)
    then have "2 * length (tr_sent (ln_client (sy_links y1 ! l))) - (ln_up (sy_links y1 ! l) + length (tr_delivered (ln_server (sy_links y1 ! l))))
        < 2 * length (tr_sent (ln_client ?k)) - (ln_up ?k + length (tr_delivered (ln_server ?k)))"
      unfolding l(3) y1(3) by (rule diff_less_mono2 [OF lessI])
    from less.hyps [OF this inv less.prems(2) l(1,2)] less.prems(5) obtain y2 where y2: "orderly_run w y1 y2" "reads_up l y1 y2"
      "p \<le> length (tr_delivered (ln_server (sy_links y2 ! l)))" by (auto simp: l(3))
    from reads_up_trans [OF y1(2) y2(2) less.prems(3)] runs_within_trans [OF y1(1) y2(1)] y2(3) show ?thesis by blast
  qed
qed

text \<open>The same for the client's reading.\<close>

definition reads_down :: "('i, 'p) endpoints \<Rightarrow> nat \<Rightarrow> 'p rpc_system \<Rightarrow> 'p rpc_system \<Rightarrow> bool" where
  "reads_down w l y y' \<longleftrightarrow>
     sy_calls y' = sy_calls y \<and> sy_requests y' = sy_requests y \<and> sy_served y' = sy_served y
     \<and> (\<exists>k. sy_links y' = (sy_links y)[l := k] \<and> live k \<and> ln_server k = ln_server (sy_links y ! l)
          \<and> ln_calls k = ln_calls (sy_links y ! l) \<and> tr_sent (ln_client k) = tr_sent (ln_client (sy_links y ! l))
          \<and> length (tr_delivered (ln_client (sy_links y ! l))) \<le> length (tr_delivered (ln_client k)))
     \<and> (\<exists>rs. sy_responses y' = sy_responses y @ rs
          \<and> (\<forall>i r. length (tr_delivered (ln_client (sy_links y ! l))) \<le> i
               \<and> i < length (tr_delivered (ln_client (sy_links y' ! l)))
               \<and> ClientConn_handleRead (ep_wire w) (tr_sent (ln_server (sy_links y ! l)) ! i) = HandleResponse r
               \<longrightarrow> r \<in> set rs))"

lemma reads_down_trans:
  assumes "reads_down w l y y1" "reads_down w l y1 y2" "l < length (sy_links y)"
  shows "reads_down w l y y2"
proof -
  from assms(1) obtain k rs where 1: "sy_links y1 = (sy_links y)[l := k]" "ln_calls k = ln_calls (sy_links y ! l)"
    "ln_server k = ln_server (sy_links y ! l)" "tr_sent (ln_client k) = tr_sent (ln_client (sy_links y ! l))"
    "length (tr_delivered (ln_client (sy_links y ! l))) \<le> length (tr_delivered (ln_client k))"
    "sy_responses y1 = sy_responses y @ rs"
    "\<forall>i r. length (tr_delivered (ln_client (sy_links y ! l))) \<le> i \<and> i < length (tr_delivered (ln_client k))
       \<and> ClientConn_handleRead (ep_wire w) (tr_sent (ln_server (sy_links y ! l)) ! i) = HandleResponse r \<longrightarrow> r \<in> set rs"
    by (auto simp: reads_down_def assms(3))
  from assms(2) obtain k' rs' where 2: "sy_links y2 = (sy_links y)[l := k']" "ln_calls k' = ln_calls k"
    "ln_server k' = ln_server k" "tr_sent (ln_client k') = tr_sent (ln_client k)" "live k'"
    "length (tr_delivered (ln_client k)) \<le> length (tr_delivered (ln_client k'))"
    "sy_responses y2 = sy_responses y1 @ rs'"
    "\<forall>i r. length (tr_delivered (ln_client k)) \<le> i \<and> i < length (tr_delivered (ln_client k'))
       \<and> ClientConn_handleRead (ep_wire w) (tr_sent (ln_server k) ! i) = HandleResponse r \<longrightarrow> r \<in> set rs'"
    by (auto simp: reads_down_def assms(3) 1(1))
  have k2: "sy_links y2 ! l = k'" using assms(3) by (simp add: 2(1))
  have "r \<in> set (rs @ rs')" if "length (tr_delivered (ln_client (sy_links y ! l))) \<le> i"
    "i < length (tr_delivered (ln_client k'))"
    "ClientConn_handleRead (ep_wire w) (tr_sent (ln_server (sy_links y ! l)) ! i) = HandleResponse r" for i r
    using that 1(7) 2(8) by (cases "i < length (tr_delivered (ln_client k))") (simp_all add: 1(3) not_less)
  then have new: "\<forall>i r. length (tr_delivered (ln_client (sy_links y ! l))) \<le> i
      \<and> i < length (tr_delivered (ln_client (sy_links y2 ! l)))
      \<and> ClientConn_handleRead (ep_wire w) (tr_sent (ln_server (sy_links y ! l)) ! i) = HandleResponse r \<longrightarrow> r \<in> set (rs @ rs')"
    unfolding k2 by blast
  have same: "sy_calls y2 = sy_calls y" "sy_requests y2 = sy_requests y" "sy_served y2 = sy_served y"
    using assms(1,2) by (simp_all add: reads_down_def)
  have "\<exists>k. sy_links y2 = (sy_links y)[l := k] \<and> live k \<and> ln_server k = ln_server (sy_links y ! l)
      \<and> ln_calls k = ln_calls (sy_links y ! l) \<and> tr_sent (ln_client k) = tr_sent (ln_client (sy_links y ! l))
      \<and> length (tr_delivered (ln_client (sy_links y ! l))) \<le> length (tr_delivered (ln_client k))"
    using 1 2 by (intro exI [of _ k']) simp
  moreover have "sy_responses y2 = sy_responses y @ rs @ rs'" using 1(6) 2(7) by simp
  ultimately show ?thesis using new same unfolding reads_down_def by (intro conjI exI [of _ "rs @ rs'"]) simp_all
qed

lemma read_down_once:
  assumes inv: "rpc_inv w y" and l: "l < length (sy_links y)" "live (sy_links y ! l)"
    and more: "length (tr_delivered (ln_client (sy_links y ! l))) < length (tr_sent (ln_server (sy_links y ! l)))"
  obtains y' where "orderly_run w y y'" "reads_down w l y y'"
    "ln_down (sy_links y' ! l) + length (tr_delivered (ln_client (sy_links y' ! l)))
       = Suc (ln_down (sy_links y ! l) + length (tr_delivered (ln_client (sy_links y ! l))))"
proof (cases "tr_readPump (ln_client (sy_links y ! l))")
  case RP_Reading
  let ?k = "sy_links y ! l"
  note old = rpc_inv_linkD [OF inv l(1)]
  have "tr_delivered (ln_client ?k) = take (ln_down ?k) (tr_sent (ln_server ?k))"
    using old(1) RP_Reading by (simp add: link_ok_def in_hand_def)
  from arg_cong [OF this, of length] more have down: "ln_down ?k < length (tr_sent (ln_server ?k))" by simp
  let ?m = "tr_sent (ln_server ?k) ! ln_down ?k"
  let ?k' = "?k\<lparr>ln_client := (ln_client ?k)\<lparr>tr_readPump := RP_Sending ?m\<rparr>, ln_down := Suc (ln_down ?k)\<rparr>"
  let ?y = "y\<lparr>sy_links := (sy_links y)[l := ?k']\<rparr>"
  have "rpc_step w (SY_Client l (ReadReturns ?m)) y = Some (Ret ?y)"
    using l(1) down RP_Reading by (simp add: by_itself_def at_client_def client_step_simps is_read_def)
  then have "orderly_run w y ?y" by (rule orderly_step) (simp add: is_read_def)
  moreover have "reads_down w l y ?y"
    using l by (auto simp: reads_down_def live_def)
  ultimately show ?thesis using l(1) by (intro that [of ?y]) simp_all
next
  case (RP_Sending m)
  let ?k = "sy_links y ! l" and ?pos = "length (tr_delivered (ln_client (sy_links y ! l)))"
  note old = rpc_inv_linkD [OF inv l(1)]
  let ?k' = "?k\<lparr>ln_client := (ln_client ?k)\<lparr>tr_readPump := RP_Reading, tr_delivered := tr_delivered (ln_client ?k) @ [m]\<rparr>\<rparr>"
  let ?y1 = "y\<lparr>sy_links := (sy_links y)[l := ?k']\<rparr>"
  have at: "at_client l ReaderTakes id y = Some (Ret ?y1)"
    using l(1) RP_Sending by (simp add: at_client_def client_step_simps)
  have m: "in_hand_msg (ln_client ?k) = m" using RP_Sending by (simp add: in_hand_msg_def)
  define rs where "rs = (case ClientConn_handleRead (ep_wire w) m of HandleResponse r \<Rightarrow> [r] | _ \<Rightarrow> [])"
  let ?y = "?y1\<lparr>sy_responses := sy_responses y @ rs\<rparr>"
  have "sys_client_read w l y = Some (Ret ?y)"
    by (simp add: sys_client_read_def at m rs_def split: dispatch.split)
  then have run: "orderly_run w y ?y" by (intro orderly_step [where e = "SY_ClientRead l"]) simp_all
  have prefix: "tr_delivered (ln_client ?k) @ [m] = take (ln_down ?k) (tr_sent (ln_server ?k))"
    using old(1) RP_Sending by (simp add: link_ok_def in_hand_def)
  have "r \<in> set rs" if "ClientConn_handleRead (ep_wire w) (tr_sent (ln_server ?k) ! ?pos) = HandleResponse r" for r
    using that snoc_prefix(2) [OF prefix] by (simp add: rs_def)
  then have "reads_down w l y ?y"
    using l by (auto simp: reads_down_def live_def less_Suc_eq)
  with run l(1) show ?thesis by (intro that [of ?y]) simp_all
qed (use l(2) in \<open>simp_all add: live_def\<close>)

lemma read_down_to:
  assumes "rpc_inv w y" "l < length (sy_links y)" "live (sy_links y ! l)"
    and "p \<le> length (tr_sent (ln_server (sy_links y ! l)))"
  shows "\<exists>y'. orderly_run w y y' \<and> reads_down w l y y' \<and> p \<le> length (tr_delivered (ln_client (sy_links y' ! l)))"
  using assms
proof (induction "2 * length (tr_sent (ln_server (sy_links y ! l)))
    - (ln_down (sy_links y ! l) + length (tr_delivered (ln_client (sy_links y ! l))))" arbitrary: y rule: less_induct)
  case (less y)
  let ?k = "sy_links y ! l"
  show ?case
  proof (cases "p \<le> length (tr_delivered (ln_client ?k))")
    case True
    have "reads_down w l y y"
      using less.prems(2,3) unfolding reads_down_def by (intro conjI exI [of _ ?k] exI [of _ "[]"]) auto
    with True show ?thesis by (intro exI [of _ y]) simp
  next
    case False
    then have "length (tr_delivered (ln_client ?k)) < length (tr_sent (ln_server ?k))" using less.prems(4) by simp
    then obtain y1 where y1: "orderly_run w y y1" "reads_down w l y y1"
      "ln_down (sy_links y1 ! l) + length (tr_delivered (ln_client (sy_links y1 ! l)))
         = Suc (ln_down ?k + length (tr_delivered (ln_client ?k)))"
      by (rule read_down_once [OF less.prems(1-3)])
    have inv: "rpc_inv w y1" by (rule orderly_inv [OF y1(1) less.prems(1)])
    from y1(2) less.prems(2) have l: "l < length (sy_links y1)" "live (sy_links y1 ! l)"
      "ln_server (sy_links y1 ! l) = ln_server ?k" by (auto simp: reads_down_def)
    have "link_ok ?k" using rpc_inv_linkD [OF less.prems(1,2)] by blast
    then have "ln_down ?k + length (tr_delivered (ln_client ?k)) < 2 * length (tr_sent (ln_server ?k))"
      using False less.prems(4) by (simp add: link_ok_def)
    then have "2 * length (tr_sent (ln_server (sy_links y1 ! l))) - (ln_down (sy_links y1 ! l) + length (tr_delivered (ln_client (sy_links y1 ! l))))
        < 2 * length (tr_sent (ln_server ?k)) - (ln_down ?k + length (tr_delivered (ln_client ?k)))"
      unfolding l(3) y1(3) by (rule diff_less_mono2 [OF lessI])
    from less.hyps [OF this inv l(1,2)] less.prems(4) obtain y2 where y2: "orderly_run w y1 y2" "reads_down w l y1 y2"
      "p \<le> length (tr_delivered (ln_client (sy_links y2 ! l)))" by (auto simp: l(3))
    from reads_down_trans [OF y1(2) y2(2) less.prems(2)] runs_within_trans [OF y1(1) y2(1)] y2(3) show ?thesis by blast
  qed
qed

lemma delivered_le:
  assumes "link_ok k"
  shows "length (tr_delivered (ln_server k)) \<le> length (tr_sent (ln_client k))"
    "length (tr_delivered (ln_client k)) \<le> length (tr_sent (ln_server k))"
proof -
  have "length xs \<le> length zs" if "xs @ ys = take i zs" for xs ys zs :: "slice list" and i
    using arg_cong [OF that, of length] by simp
  then show "length (tr_delivered (ln_server k)) \<le> length (tr_sent (ln_client k))"
    "length (tr_delivered (ln_client k)) \<le> length (tr_sent (ln_server k))"
    using assms unfolding link_ok_def by blast+
qed

lemma request_sent:
  assumes inv: "rpc_inv w y" and l: "l < length (sy_links y)" "live (sy_links y ! l)"
    and id: "callID \<notin> iv_id ` set (cs_invs (sy_calls y))"
    and req: "Invoke_request (ep_pb w) (ep_wire w) callID m (ProtoMessage args) = Inr reqB"
  obtains y' where "orderly_run w y y'" "sy_served y' = sy_served y"
    "sy_requests y' = sy_requests y @ [\<lparr>rc_method = m, rc_args = args, rc_request = reqB\<rparr>]"
    "sy_links y' = (sy_links y)[l := (sy_links y ! l)
       \<lparr>ln_client := (ln_client (sy_links y ! l))\<lparr>tr_sent := tr_sent (ln_client (sy_links y ! l)) @ [reqB]\<rparr>,
        ln_calls := ln_calls (sy_links y ! l) @ [Some (length (sy_requests y))]\<rparr>]"
    "pc_of (sy_calls y') (length (sy_requests y)) = Some IV_Waiting"
    "iv_id (cs_invs (sy_calls y') ! length (sy_requests y)) = callID"
proof -
  let ?n = "length (sy_requests y)" and ?k = "sy_links y ! l"
  let ?rc = "\<lparr>rc_method = m, rc_args = args, rc_request = reqB\<rparr>"
  have len: "length (cs_invs (sy_calls y)) = ?n" using inv by (simp add: rpc_inv_def calls_ok_def)
  obtain c where c: "call_step (CE_Register callID) (sy_calls y) = Some c"
    and iv: "cs_invs c = cs_invs (sy_calls y) @ [\<lparr>iv_id = callID, iv_ctx_done = False, iv_pc = IV_Registered\<rparr>]"
    using id by (auto simp: Invoke_register_def)
  let ?y1 = "y\<lparr>sy_calls := c, sy_requests := sy_requests y @ [?rc]\<rparr>"
  have 1: "rpc_step w (SY_Invoke callID m args) y = Some (Ret ?y1)"
    using c by (simp add: sys_invoke_def req calls_to_def)
  have pc: "pc_of c ?n = Some IV_Registered" by (simp add: pc_of_def iv len nth_append)
  let ?k2 = "?k\<lparr>ln_client := (ln_client ?k)\<lparr>tr_sent := tr_sent (ln_client ?k) @ [reqB]\<rparr>, ln_calls := ln_calls ?k @ [Some ?n]\<rparr>"
  let ?y2 = "?y1\<lparr>sy_calls := set_pc ?n IV_Waiting c, sy_links := (sy_links y)[l := ?k2]\<rparr>"
  have 2: "rpc_step w (SY_Send ?n l True) ?y1 = Some (Ret ?y2)"
    using pc l by (simp add: sys_send_def calls_to_def at_client_def client_step_simps live_def nth_append)
  have "orderly_run w y ?y2"
    by (rule runs_within_trans [OF orderly_step [OF 1] orderly_step [OF 2]]) simp_all
  then show ?thesis
    by (rule that) (use pc in \<open>simp_all add: pc_of_set_pc pc_of_Some set_pc_def iv len nth_append\<close>)
qed

lemma request_served:
  assumes inv: "rpc_inv w y" and codec: "decodes (ep_wire w) norm_message"
    and l: "l < length (sy_links y)" "live (sy_links y ! l)"
    and id: "callID \<notin> iv_id ` set (cs_invs (sy_calls y))"
    and req: "Invoke_request (ep_pb w) (ep_wire w) callID m (ProtoMessage args) = Inr reqB"
  obtains y' j payload where "orderly_run w y y'" "l < length (sy_links y')" "live (sy_links y' ! l)"
    "sy_requests y' = sy_requests y @ [\<lparr>rc_method = m, rc_args = args, rc_request = reqB\<rparr>]"
    "pc_of (sy_calls y') (length (sy_requests y)) = Some IV_Waiting"
    "iv_id (cs_invs (sy_calls y') ! length (sy_requests y)) = callID"
    "j < length (sy_served y')" "hd_pc (sy_served y' ! j) = HD_Serving"
    "hd_req (sy_served y' ! j) = sent_request callID m payload" "pb_marshal (ep_pb w) args = Inr payload"
proof -
  let ?n = "length (sy_requests y)" and ?k = "sy_links y ! l"
  obtain y2 where run: "orderly_run w y y2" and y2: "sy_served y2 = sy_served y"
    "sy_requests y2 = sy_requests y @ [\<lparr>rc_method = m, rc_args = args, rc_request = reqB\<rparr>]"
    "sy_links y2 = (sy_links y)[l := ?k\<lparr>ln_client := (ln_client ?k)\<lparr>tr_sent := tr_sent (ln_client ?k) @ [reqB]\<rparr>,
        ln_calls := ln_calls ?k @ [Some ?n]\<rparr>]"
    and waiting: "pc_of (sy_calls y2) ?n = Some IV_Waiting" "iv_id (cs_invs (sy_calls y2) ! ?n) = callID"
    by (rule request_sent [OF inv l id req])
  note old = rpc_inv_linkD [OF inv l(1)]
  have inv2: "rpc_inv w y2" by (rule orderly_inv [OF run inv])
  let ?pos = "length (tr_sent (ln_client ?k))"
  have l2: "l < length (sy_links y2)" "live (sy_links y2 ! l)" using l by (simp_all add: y2(3) live_def)
  have "Suc ?pos \<le> length (tr_sent (ln_client (sy_links y2 ! l)))" using l(1) by (simp add: y2(3))
  from read_up_to [OF inv2 codec l2 this] obtain y3 where y3: "orderly_run w y2 y3" "reads_up l y2 y3"
    "Suc ?pos \<le> length (tr_delivered (ln_server (sy_links y3 ! l)))" by blast
  from y3(2) obtain k3 hs where k3: "sy_links y3 = (sy_links y)[l := k3]" "live k3" "ln_calls k3 = ln_calls ?k @ [Some ?n]"
    and same: "sy_calls y3 = sy_calls y2" "sy_requests y3 = sy_requests y2"
    and hs: "sy_served y3 = sy_served y @ hs" "\<forall>h \<in> set hs. hd_pc h = HD_Serving"
      "\<forall>i n. length (tr_delivered (ln_server ?k)) \<le> i \<and> i < length (tr_delivered (ln_server (sy_links y3 ! l)))
         \<and> call_at (sy_links y2) l i = Some n \<longrightarrow> (l, i) \<in> origin ` set hs"
    using l(1) by (auto simp: reads_up_def y2)
  have calls: "length (ln_calls ?k) = ?pos" using list_all2_lengthD [OF old(2)] .
  then have "call_at (sy_links y2) l ?pos = Some ?n" using l(1) by (simp add: call_at_def y2(3) nth_append)
  then have "(l, ?pos) \<in> origin ` set hs" using hs(3) y3(3) delivered_le [OF old(1)] by auto
  then obtain h where h: "h \<in> set hs" "hd_link h = l" "hd_pos h = ?pos" by (auto simp: origin_def)
  then have "h \<in> set (sy_served y3)" by (simp add: hs(1))
  then obtain j where j: "j < length (sy_served y3)" "sy_served y3 ! j = h" by (auto simp: in_set_conv_nth)
  obtain n' payload where n': "call_at (sy_links y3) l ?pos = Some n'"
    "pb_marshal (ep_pb w) (rc_args (sy_requests y3 ! n')) = Inr payload"
    "hd_req h = sent_request (iv_id (cs_invs (sy_calls y3) ! n')) (rc_method (sy_requests y3 ! n')) payload"
    using handler_call [OF orderly_inv [OF y3(1) inv2] codec \<open>h \<in> set (sy_served y3)\<close>] h(2,3) by metis
  have "n' = ?n" using n'(1) l(1) calls by (simp add: call_at_def k3 nth_append)
  have h3: "hd_pc (sy_served y3 ! j) = HD_Serving" "hd_req (sy_served y3 ! j) = sent_request callID m payload"
    "pb_marshal (ep_pb w) args = Inr payload"
    using hs(2) h(1) n'(2,3) waiting(2) unfolding j(2) \<open>n' = ?n\<close> same y2(2) by (simp_all add: nth_append)
  from runs_within_trans [OF run y3(1)] show ?thesis
    by (rule that [OF _ _ _ same(2) [unfolded y2(2)] _ _ j(1) h3]) (use k3 l(1) same(1) waiting in simp_all)
qed

lemma handler_replies:
  assumes inv: "rpc_inv w y" and l: "l < length (sy_links y)" "live (sy_links y ! l)"
    and j: "j < length (sy_served y)" "hd_pc (sy_served y ! j) = HD_Serving"
    and b: "Server_handleMessageRequest (ep_uuid w) (ep_pb w) (ep_wire w) (ep_key w) (ep_server w)
        (hd_req (sy_served y ! j)) = Ret (Some b)"
    and r: "ClientConn_handleRead (ep_wire w) b = HandleResponse r"
  obtains y' i where "orderly_run w y y'" "sy_calls y' = sy_calls y" "sy_requests y' = sy_requests y"
    "i < length (sy_responses y')" "sy_responses y' ! i = r"
proof -
  let ?k = "sy_links y ! l" and ?y1 = "set_handler j (HD_Replying b) y"
  have 1: "rpc_step w (SY_Serve j) y = Some (Ret ?y1)" using j b by (simp add: sys_serve_def)
  let ?k2 = "?k\<lparr>ln_server := (ln_server ?k)\<lparr>tr_sent := tr_sent (ln_server ?k) @ [b]\<rparr>\<rparr>"
  let ?y2 = "(set_handler j (HD_Replied b) ?y1)\<lparr>sy_links := (sy_links y)[l := ?k2]\<rparr>"
  have 2: "rpc_step w (SY_Reply j l True) ?y1 = Some (Ret ?y2)"
    using j(1) l by (simp add: sys_reply_def set_handler_def at_server_def server_step_simps live_def)
  have run: "orderly_run w y ?y2"
    by (rule runs_within_trans [OF orderly_step [OF 1] orderly_step [OF 2]]) simp_all
  have inv2: "rpc_inv w ?y2" by (rule orderly_inv [OF run inv])
  have l2: "l < length (sy_links ?y2)" "live (sy_links ?y2 ! l)" using l by (simp_all add: live_def)
  let ?pos = "length (tr_sent (ln_server ?k))"
  have "Suc ?pos \<le> length (tr_sent (ln_server (sy_links ?y2 ! l)))" using l(1) by simp
  from read_down_to [OF inv2 l2 this] obtain y3 where y3: "orderly_run w ?y2 y3" "reads_down w l ?y2 y3"
    "Suc ?pos \<le> length (tr_delivered (ln_client (sy_links y3 ! l)))" by blast
  have old: "link_ok ?k" using rpc_inv_linkD [OF inv l(1)] by blast
  then have le: "length (tr_delivered (ln_client ?k)) \<le> ?pos" by (rule delivered_le)
  from y3(2) obtain rs where same: "sy_calls y3 = sy_calls y" "sy_requests y3 = sy_requests y"
    and rs: "sy_responses y3 = sy_responses y @ rs"
      "\<forall>i r. length (tr_delivered (ln_client ?k)) \<le> i \<and> i < length (tr_delivered (ln_client (sy_links y3 ! l)))
         \<and> ClientConn_handleRead (ep_wire w) (tr_sent (ln_server ?k2) ! i) = HandleResponse r \<longrightarrow> r \<in> set rs"
    using l(1) by (auto simp: reads_down_def set_handler_def)
  have "r \<in> set rs" by (rule rs(2) [rule_format, of ?pos]) (use le y3(3) r in \<open>auto simp: nth_append\<close>)
  then obtain i where "i < length (sy_responses y3)" "sy_responses y3 ! i = r"
    unfolding rs(1) by (metis Un_iff in_set_conv_nth set_append)
  with runs_within_trans [OF run y3(1)] same show ?thesis by (intro that) simp_all
qed

lemma response_returns:
  assumes inv: "rpc_inv w y" and i: "i < length (sy_responses y)" "sy_responses y ! i = r"
    and n: "pc_of (sy_calls y) n = Some IV_Waiting" "Response_GetCallId r = iv_id (cs_invs (sy_calls y) ! n)"
  obtains y' where "orderly_run w y y'" "pc_of (sy_calls y') n = Some (IV_Returned (Got r))"
    "sy_requests y' = sy_requests y"
proof -
  let ?s = "sy_calls y" and ?k = "length (cs_responders (sy_calls y))"
  have "calls_inv ?s" using inv by (simp add: rpc_inv_def calls_ok_def)
  from response_ends_call [OF this n] obtain s' where run: "run_calls [CE_Arrive r, CE_Deliver ?k, CE_Leave n] ?s = Some s'"
    and pc: "pc_of s' n = Some (IV_Returned (Got r))" by blast
  from run obtain s1 s2 where s: "call_step (CE_Arrive r) ?s = Some s1" "call_step (CE_Deliver ?k) s1 = Some s2"
    "call_step (CE_Leave n) s2 = Some s'"
    by (auto split: option.splits)
  let ?y1 = "y\<lparr>sy_calls := s1, sy_responses := take i (sy_responses y) @ drop (Suc i) (sy_responses y)\<rparr>"
  have 1: "rpc_step w (SY_Respond i) y = Some (Ret ?y1)" using i s(1) by (simp add: sys_respond_def calls_to_def)
  have 2: "rpc_step w (SY_Call (CE_Deliver ?k)) ?y1 = Some (Ret (?y1\<lparr>sy_calls := s2\<rparr>))"
    using s(2) by (simp add: calls_to_def)
  have 3: "rpc_step w (SY_Call (CE_Leave n)) (?y1\<lparr>sy_calls := s2\<rparr>) = Some (Ret (?y1\<lparr>sy_calls := s'\<rparr>))"
    using s(3) by (simp add: calls_to_def)
  have "orderly_run w y (?y1\<lparr>sy_calls := s'\<rparr>)"
    by (rule runs_within_trans [OF runs_within_trans [OF orderly_step [OF 1] orderly_step [OF 2]] orderly_step [OF 3]]) simp_all
  then show ?thesis by (rule that) (simp_all add: pc)
qed



end
