(* ===== verification/ServerEndToEnd.thy ===== *)
theory ServerEndToEnd
  imports EndToEnd ServerCalls
begin

text \<open>
  The calls of a server to its clients, in every interleaving and with hostile clients.  The server makes
  any number of calls at once (\<open>ServerCalls\<close>) to any number of clients, each known by its key; a client
  may have several connections, one after the other or overlapping.  A client whose key is honest runs
  the library; the others send whatever they like, whenever they like.  The connections are those of
  \<open>EndToEnd\<close>, with requests on the way down and replies on the way up.
\<close>

subsection \<open>State\<close>

text \<open>What does not change: the encoders, and for each key the \<open>ClientConn\<close> behind it, if it is honest.\<close>

record ('i, 'p) peers =
  pe_pb :: "'p proto"
  pe_wire :: "Message proto"
  pe_client :: "static_key \<Rightarrow> ('i, 'p) ClientConn"
  pe_honest :: "static_key \<Rightarrow> bool"

text \<open>What \<open>Invoke\<close> was called with, and the request it writes.\<close>

record 'p srv_rpc_call =
  sq_ctx :: go_ctx
  sq_method :: string
  sq_args :: 'p
  sq_request :: slice

text \<open>
  \<open>ss_keys\<close> are the keys of the connections; \<open>ln_calls\<close> of a connection says for which call the server
  wrote each of its messages.  \<open>ss_served\<close> are the goroutines \<open>handleMessageRequest\<close> of the clients,
  \<open>ss_responses\<close> the goroutines \<open>handleMessageResponse\<close> of the server that have not looked up their call.
\<close>

record 'p srv_system =
  ss_calls :: srv_calls
  ss_requests :: "'p srv_rpc_call list"
  ss_keys :: "static_key list"
  ss_links :: "rpc_link list"
  ss_served :: "served_request list"
  ss_responses :: "(static_key \<times> Response option) list"

definition quiet_server :: "'p srv_system" where
  "quiet_server = \<lparr>ss_calls = no_srv_calls, ss_requests = [], ss_keys = [], ss_links = [], ss_served = [], ss_responses = []\<rparr>"

subsection \<open>Events\<close>

datatype 'p srv_rpc_event =
    SS_Connect static_key ConnectOptions ServerConfig \<comment> \<open>a new connection of a client\<close>
  | SS_Invoke go_ctx string string 'p \<comment> \<open>\<open>Invoke\<close> encodes its request and registers the call\<close>
  | SS_Send nat nat bool \<comment> \<open>a call and a connection: \<open>Write\<close> of the request\<close>
  | SS_Call srv_call_event \<comment> \<open>another step of the calls\<close>
  | SS_Client nat pump_event \<comment> \<open>the client end of a connection\<close>
  | SS_Server nat pump_event \<comment> \<open>the server end of a connection\<close>
  | SS_ClientRead nat \<comment> \<open>\<open>handleRead\<close> of a client takes a message\<close>
  | SS_Serve nat \<comment> \<open>a handler runs\<close>
  | SS_Reply nat nat bool \<comment> \<open>a handler and a connection: \<open>Write\<close> of the reply\<close>
  | SS_NotSent nat \<comment> \<open>the reply of a handler cannot be written\<close>
  | SS_ServerRead nat \<comment> \<open>\<open>handleRead\<close> of the server takes a message\<close>
  | SS_Respond nat \<comment> \<open>\<open>handleMessageResponse\<close> takes \<open>s.mu\<close> and looks up the call\<close>
  | SS_ClientSends nat slice bool \<comment> \<open>other traffic: the calls of the clients\<close>
  | SS_ServerSends nat slice bool
  | SS_Hostile nat slice \<comment> \<open>a hostile client puts a message on its connection\<close>

definition link_client ::
  "nat \<Rightarrow> pump_event \<Rightarrow> (rpc_link \<Rightarrow> rpc_link) \<Rightarrow> 'p srv_system \<Rightarrow> 'p srv_system go option"
where
  "link_client l e f y =
     (if l < length (ss_links y)
      then map_option (\<lambda>r. go_bind r (\<lambda>t. Ret (y\<lparr>ss_links := (ss_links y)[l := f ((ss_links y ! l)\<lparr>ln_client := t\<rparr>)]\<rparr>)))
             (client_step (ln_client (ss_links y ! l)) e)
      else None)"

definition link_server ::
  "nat \<Rightarrow> pump_event \<Rightarrow> (rpc_link \<Rightarrow> rpc_link) \<Rightarrow> 'p srv_system \<Rightarrow> 'p srv_system go option"
where
  "link_server l e f y =
     (if l < length (ss_links y)
      then map_option (\<lambda>r. go_bind r (\<lambda>t. Ret (y\<lparr>ss_links := (ss_links y)[l := f ((ss_links y ! l)\<lparr>ln_server := t\<rparr>)]\<rparr>)))
             (server_step (ln_server (ss_links y ! l)) e)
      else None)"

definition srv_calls_to :: "srv_call_event \<Rightarrow> 'p srv_system \<Rightarrow> 'p srv_system option" where
  "srv_calls_to e y = map_option (\<lambda>c. y\<lparr>ss_calls := c\<rparr>) (srv_call_step e (ss_calls y))"

definition move_handler :: "nat \<Rightarrow> handler_pc \<Rightarrow> 'p srv_system \<Rightarrow> 'p srv_system" where
  "move_handler k pc y = y\<lparr>ss_served := (ss_served y)[k := (ss_served y ! k)\<lparr>hd_pc := pc\<rparr>]\<rparr>"

text \<open>The steps of the calls that need no connection.\<close>

fun srv_event_alone :: "srv_call_event \<Rightarrow> bool" where
  "srv_event_alone (SC_Register k i) = False"
| "srv_event_alone (SC_Write n r) = is_err r"
| "srv_event_alone (SC_Arrive k r) = False"
| "srv_event_alone _ = True"

subsection \<open>Steps\<close>

definition ssys_connect :: "static_key \<Rightarrow> ConnectOptions \<Rightarrow> ServerConfig \<Rightarrow> 'p srv_system \<Rightarrow> 'p srv_system" where
  "ssys_connect key opts config y = y\<lparr>ss_keys := ss_keys y @ [key], ss_links := ss_links y @
     [\<lparr>ln_client = WebsocketClient_Start (newWebsocketClientConfig opts), ln_server = NewServerTransport config,
       ln_up = 0, ln_down = 0, ln_calls = []\<rparr>]\<rparr>"

definition ssys_invoke ::
  "('i, 'p) peers \<Rightarrow> go_ctx \<Rightarrow> string \<Rightarrow> string \<Rightarrow> 'p \<Rightarrow> 'p srv_system \<Rightarrow> 'p srv_system option"
where
  "ssys_invoke w ctx callID m args y =
     (case Server_Invoke_request (pe_pb w) (pe_wire w) ctx callID m (ProtoMessage args) of
        Inl err \<Rightarrow> None
      | Inr (key, reqB) \<Rightarrow>
          map_option (\<lambda>y1. y1\<lparr>ss_requests := ss_requests y @
              [\<lparr>sq_ctx = ctx, sq_method = m, sq_args = args, sq_request = reqB\<rparr>]\<rparr>)
            (srv_calls_to (SC_Register key callID) y))"

text \<open>The request goes to a connection of the key that \<open>sendMsg\<close> looked up.\<close>

definition ssys_send :: "nat \<Rightarrow> nat \<Rightarrow> bool \<Rightarrow> 'p srv_system \<Rightarrow> 'p srv_system go option" where
  "ssys_send n l ok y =
     (case srv_calls_to (SC_Write n (Inr ())) y of
        None \<Rightarrow> None
      | Some y1 \<Rightarrow>
          if n < length (ss_requests y) \<and> ss_keys y ! l = si_key (sc_invs (ss_calls y) ! n)
          then link_server l (WriterGives (sq_request (ss_requests y ! n)) ok)
                 (\<lambda>k. if ok then k\<lparr>ln_calls := ln_calls k @ [Some n]\<rparr> else k) y1
          else None)"

definition ssys_client_read :: "('i, 'p) peers \<Rightarrow> nat \<Rightarrow> 'p srv_system \<Rightarrow> 'p srv_system go option" where
  "ssys_client_read w l y =
     map_option (\<lambda>r. go_bind r (\<lambda>y1. Ret (
         case ClientConn_handleRead (pe_wire w) (in_hand_msg (ln_client (ss_links y ! l))) of
           HandleRequest q \<Rightarrow> y1\<lparr>ss_served := ss_served y @
             [\<lparr>hd_link = l, hd_pos = length (tr_delivered (ln_client (ss_links y ! l))), hd_req = q, hd_pc = HD_Serving\<rparr>]\<rparr>
         | _ \<Rightarrow> y1)))
       (link_client l ReaderTakes id y)"

definition ssys_server_read :: "('i, 'p) peers \<Rightarrow> nat \<Rightarrow> 'p srv_system \<Rightarrow> 'p srv_system go option" where
  "ssys_server_read w l y =
     map_option (\<lambda>r. go_bind r (\<lambda>y1. Ret (
         case Server_handleRead (pe_wire w) (in_hand_msg (ln_server (ss_links y ! l))) of
           SrvHandleResponse q \<Rightarrow> y1\<lparr>ss_responses := ss_responses y @ [(ss_keys y ! l, q)]\<rparr>
         | _ \<Rightarrow> y1)))
       (link_server l ReaderTakes id y)"

definition ssys_serve :: "('i, 'p) peers \<Rightarrow> nat \<Rightarrow> 'p srv_system \<Rightarrow> 'p srv_system go option" where
  "ssys_serve w k y =
     (if k < length (ss_served y) \<and> hd_pc (ss_served y ! k) = HD_Serving
      then Some (go_bind (ClientConn_handleMessageRequest (pe_pb w) (pe_wire w)
                   (pe_client w (ss_keys y ! hd_link (ss_served y ! k))) (hd_req (ss_served y ! k))) (\<lambda>r.
             Ret (move_handler k (case r of None \<Rightarrow> HD_NoReply | Some b \<Rightarrow> HD_Replying b) y)))
      else None)"

text \<open>A client replies over any connection it has.\<close>

definition ssys_reply :: "nat \<Rightarrow> nat \<Rightarrow> bool \<Rightarrow> 'p srv_system \<Rightarrow> 'p srv_system go option" where
  "ssys_reply k l ok y =
     (if k < length (ss_served y) \<and> ss_keys y ! l = ss_keys y ! hd_link (ss_served y ! k)
      then case hd_pc (ss_served y ! k) of
             HD_Replying b \<Rightarrow> link_client l (WriterGives b ok) id (move_handler k (HD_Replied b) y)
           | _ \<Rightarrow> None
      else None)"

definition ssys_not_sent :: "nat \<Rightarrow> 'p srv_system \<Rightarrow> 'p srv_system option" where
  "ssys_not_sent k y =
     (if k < length (ss_served y)
      then case hd_pc (ss_served y ! k) of HD_Replying b \<Rightarrow> Some (move_handler k HD_NoReply y) | _ \<Rightarrow> None
      else None)"

definition ssys_respond :: "nat \<Rightarrow> 'p srv_system \<Rightarrow> 'p srv_system option" where
  "ssys_respond j y =
     (if j < length (ss_responses y)
      then case ss_responses y ! j of (key, r) \<Rightarrow>
             map_option (\<lambda>y1. y1\<lparr>ss_responses := take j (ss_responses y) @ drop (Suc j) (ss_responses y)\<rparr>)
               (srv_calls_to (SC_Arrive key r) y)
      else None)"

definition ssys_hostile :: "('i, 'p) peers \<Rightarrow> nat \<Rightarrow> slice \<Rightarrow> 'p srv_system \<Rightarrow> 'p srv_system option" where
  "ssys_hostile w l b y =
     (if l < length (ss_links y) \<and> \<not> pe_honest w (ss_keys y ! l)
      then Some (y\<lparr>ss_links := (ss_links y)[l := (ss_links y ! l)
             \<lparr>ln_client := (ln_client (ss_links y ! l))\<lparr>tr_sent := tr_sent (ln_client (ss_links y ! l)) @ [b]\<rparr>\<rparr>]\<rparr>)
      else None)"

text \<open>Other traffic: requests of the clients and the replies to them.\<close>

definition no_response :: "('i, 'p) peers \<Rightarrow> slice \<Rightarrow> bool" where
  "no_response w b = (case Server_handleRead (pe_wire w) b of SrvHandleResponse q \<Rightarrow> False | _ \<Rightarrow> True)"

definition no_request :: "('i, 'p) peers \<Rightarrow> slice \<Rightarrow> bool" where
  "no_request w b = (case ClientConn_handleRead (pe_wire w) b of HandleRequest q \<Rightarrow> False | _ \<Rightarrow> True)"

primrec srv_rpc_step :: "('i, 'p) peers \<Rightarrow> 'p srv_rpc_event \<Rightarrow> 'p srv_system \<Rightarrow> 'p srv_system go option" where
  "srv_rpc_step w (SS_Connect key opts config) y = Some (Ret (ssys_connect key opts config y))"
| "srv_rpc_step w (SS_Invoke ctx callID m args) y = map_option Ret (ssys_invoke w ctx callID m args y)"
| "srv_rpc_step w (SS_Send n l ok) y = ssys_send n l ok y"
| "srv_rpc_step w (SS_Call e) y = (if srv_event_alone e then map_option Ret (srv_calls_to e y) else None)"
| "srv_rpc_step w (SS_Client l e) y =
     (if by_itself e (ln_down (ss_links y ! l)) (tr_sent (ln_server (ss_links y ! l)))
      then link_client l e (\<lambda>k. if is_read e then k\<lparr>ln_down := Suc (ln_down k)\<rparr> else k) y else None)"
| "srv_rpc_step w (SS_Server l e) y =
     (if by_itself e (ln_up (ss_links y ! l)) (tr_sent (ln_client (ss_links y ! l)))
      then link_server l e (\<lambda>k. if is_read e then k\<lparr>ln_up := Suc (ln_up k)\<rparr> else k) y else None)"
| "srv_rpc_step w (SS_ClientRead l) y = ssys_client_read w l y"
| "srv_rpc_step w (SS_Serve k) y = ssys_serve w k y"
| "srv_rpc_step w (SS_Reply k l ok) y = ssys_reply k l ok y"
| "srv_rpc_step w (SS_NotSent k) y = map_option Ret (ssys_not_sent k y)"
| "srv_rpc_step w (SS_ServerRead l) y = ssys_server_read w l y"
| "srv_rpc_step w (SS_Respond j) y = map_option Ret (ssys_respond j y)"
| "srv_rpc_step w (SS_ClientSends l b ok) y =
     (if no_response w b then link_client l (WriterGives b ok) id y else None)"
| "srv_rpc_step w (SS_ServerSends l b ok) y =
     (if no_request w b then link_server l (WriterGives b ok) (\<lambda>k. if ok then k\<lparr>ln_calls := ln_calls k @ [None]\<rparr> else k) y
      else None)"
| "srv_rpc_step w (SS_Hostile l b) y = map_option Ret (ssys_hostile w l b y)"

inductive srv_rpc_reachable :: "('i, 'p) peers \<Rightarrow> 'p srv_system \<Rightarrow> bool" for w where
  srv_rpc_init: "srv_rpc_reachable w quiet_server"
| srv_rpc_next: "srv_rpc_reachable w y \<Longrightarrow> srv_rpc_step w e y = Some (Ret y') \<Longrightarrow> srv_rpc_reachable w y'"

abbreviation run_srv_rpc :: "('i, 'p) peers \<Rightarrow> 'p srv_rpc_event list \<Rightarrow> 'p srv_system \<Rightarrow> 'p srv_system go option" where
  "run_srv_rpc w \<equiv> run_steps (srv_rpc_step w)"

lemma run_srv_rpc_reachable:
  "srv_rpc_reachable w y \<Longrightarrow> run_srv_rpc w es y = Some (Ret y') \<Longrightarrow> srv_rpc_reachable w y'"
  by (erule run_steps_keeps [where P = "srv_rpc_reachable w"]) (auto intro: srv_rpc_next)

subsection \<open>What the calls keep\<close>

text \<open>The responses that have reached the calls, with the key of their sender.\<close>

definition srv_responses_in :: "srv_calls \<Rightarrow> (static_key \<times> Response option) set" where
  "srv_responses_in s = {(sr_key h, sr_resp h) | h. sc_mu s = Some h}
     \<union> {(si_key iv, r) | iv r. iv \<in> set (sc_invs s) \<and> si_pc iv = SI_Returned (SGot r)}"

fun srv_arriving :: "srv_call_event \<Rightarrow> (static_key \<times> Response option) set" where
  "srv_arriving (SC_Arrive k r) = {(k, r)}"
| "srv_arriving _ = {}"

fun srv_registering :: "srv_call_event \<Rightarrow> (static_key \<times> string) list" where
  "srv_registering (SC_Register k i) = [(k, i)]"
| "srv_registering _ = []"

definition si_name :: "srv_invocation \<Rightarrow> static_key \<times> string" where
  "si_name iv = (si_key iv, si_id iv)"

lemma map_si_name_update:
  "si_name iv = si_name (ivs ! n) \<Longrightarrow> map si_name (ivs[n := iv]) = map si_name ivs"
  by (metis list_update_id map_update)

lemma srv_call_step_names:
  assumes "srv_call_step e s = Some s'"
  shows "map si_name (sc_invs s') = map si_name (sc_invs s) @ srv_registering e"
  using assms
  by (cases e)
    (auto simp: Server_Invoke_register_def sendMsg_lookup_def sendMsg_write_def Server_handleMessageResponse_def
      Server_deliver_def Server_Invoke_timeout_def Server_Invoke_remove_def set_si_pc_def map_si_name_update si_name_def
      split: if_splits option.splits sum.splits)

text \<open>A call that has left \<open>sendMsg\<close> does not come back to it.\<close>

abbreviation unsent :: "srv_calls \<Rightarrow> nat \<Rightarrow> bool" where
  "unsent s n \<equiv> si_pc_of s n \<in> {Some SI_Registered, Some SI_Writing}"

lemma srv_call_step_sent:
  assumes "srv_call_step e s = Some s'" "n < length (sc_invs s)" "\<not> unsent s n"
  shows "\<not> unsent s' n"
  using assms
  by (cases e)
    (auto simp: Server_Invoke_register_def sendMsg_lookup_def sendMsg_write_def Server_handleMessageResponse_def
      Server_deliver_def Server_Invoke_timeout_def Server_Invoke_remove_def set_si_pc_def si_pc_of_def nth_append
      nth_list_update split: if_splits option.splits sum.splits)

lemma srv_responses_set_pc:
  assumes "n < length (sc_invs s)" "\<And>r. pc = SI_Returned (SGot r) \<Longrightarrow> (si_key (sc_invs s ! n), r) \<in> R"
    and "srv_responses_in s \<subseteq> R"
  shows "srv_responses_in (set_si_pc n pc s) \<subseteq> R"
proof -
  have "set (sc_invs (set_si_pc n pc s)) \<subseteq> insert ((sc_invs s ! n)\<lparr>si_pc := pc\<rparr>) (set (sc_invs s))"
    by (simp add: set_si_pc_def set_update_subset_insert)
  then have "(si_key iv, r) \<in> R" if "iv \<in> set (sc_invs (set_si_pc n pc s))" "si_pc iv = SI_Returned (SGot r)" for iv r
  proof (cases "iv \<in> set (sc_invs s)")
    case True
    with that(2) have "(si_key iv, r) \<in> srv_responses_in s" unfolding srv_responses_in_def by blast
    with assms(3) show ?thesis by blast
  next
    case False
    with that(1) \<open>set (sc_invs (set_si_pc n pc s)) \<subseteq> _\<close> have "iv = (sc_invs s ! n)\<lparr>si_pc := pc\<rparr>" by blast
    with that(2) assms(2) show ?thesis by simp
  qed
  moreover have "(sr_key h, sr_resp h) \<in> R" if "sc_mu (set_si_pc n pc s) = Some h" for h
  proof -
    from that have "(sr_key h, sr_resp h) \<in> srv_responses_in s" unfolding srv_responses_in_def set_si_pc_def by auto
    with assms(3) show ?thesis by blast
  qed
  ultimately show ?thesis unfolding srv_responses_in_def by blast
qed

lemma srv_responses_unlock:
  "srv_responses_in (s\<lparr>sc_calls := c, sc_mu := None\<rparr>) \<subseteq> srv_responses_in s"
  "srv_responses_in (s\<lparr>sc_calls := c\<rparr>) = srv_responses_in s"
  by (auto simp: srv_responses_in_def)

lemma srv_responses_no_got:
  assumes "si_pc_of s n = Some pc0" "\<And>r. pc \<noteq> SI_Returned (SGot r)"
  shows "srv_responses_in (set_si_pc n pc s) \<subseteq> srv_responses_in s"
  using assms by (intro srv_responses_set_pc) (auto simp: si_pc_of_Some)

lemma srv_call_step_responses:
  assumes "srv_call_step e s = Some s'" "srv_calls_inv s"
  shows "srv_responses_in s' \<subseteq> srv_responses_in s \<union> srv_arriving e"
proof (cases e)
  case (SC_Register k i)
  with assms show ?thesis by (auto simp: Server_Invoke_register_def srv_responses_in_def split: if_splits)
next
  case (SC_Lookup n r)
  with assms have pc: "si_pc_of s n = Some SI_Registered"
    and s': "s' = set_si_pc n (case r of Inl err \<Rightarrow> SI_Returned (SGaveUp err) | Inr _ \<Rightarrow> SI_Writing) s"
    by (auto simp: sendMsg_lookup_def split: if_splits)
  have "srv_responses_in s' \<subseteq> srv_responses_in s" unfolding s' by (rule srv_responses_no_got [OF pc]) (simp split: sum.split)
  then show ?thesis by blast
next
  case (SC_Write n r)
  with assms have pc: "si_pc_of s n = Some SI_Writing"
    and s': "s' = set_si_pc n (case r of Inl err \<Rightarrow> SI_Returned (SGaveUp err) | Inr _ \<Rightarrow> SI_Waiting) s"
    by (auto simp: sendMsg_write_def split: if_splits)
  have "srv_responses_in s' \<subseteq> srv_responses_in s" unfolding s' by (rule srv_responses_no_got [OF pc]) (simp split: sum.split)
  then show ?thesis by blast
next
  case (SC_Arrive k r)
  with assms show ?thesis
    by (auto simp: Server_handleMessageResponse_def srv_responses_in_def split: if_splits sum.splits)
next
  case SC_Deliver
  from assms(1) SC_Deliver obtain h where h: "sc_mu s = Some h" "si_pc_of s (sr_call h) = Some SI_Waiting"
    and s': "s' = (set_si_pc (sr_call h) (SI_Returned (SGot (sr_resp h))) s)
       \<lparr>sc_calls := Server_removeMethodCall (sr_key h) (Response_GetCallId (sr_resp h)) (sc_calls s), sc_mu := None\<rparr>"
    by (auto simp: Server_deliver_def split: option.splits if_splits)
  have "(si_key (sc_invs s ! sr_call h), sr_resp h) \<in> srv_responses_in s"
    using assms(2) h(1) by (auto simp: srv_responses_in_def srv_calls_inv_def)
  then have "srv_responses_in (set_si_pc (sr_call h) (SI_Returned (SGot (sr_resp h))) s) \<subseteq> srv_responses_in s"
    using h(2) by (intro srv_responses_set_pc) (auto simp: si_pc_of_Some)
  then show ?thesis unfolding s' using srv_responses_unlock(1) by fast
next
  case (SC_CtxDone n)
  with assms have n: "n < length (sc_invs s)"
    and s': "s' = s\<lparr>sc_invs := (sc_invs s)[n := (sc_invs s ! n)\<lparr>si_ctx_done := True\<rparr>]\<rparr>"
    by (auto split: if_splits)
  have "set (sc_invs s') \<subseteq> insert ((sc_invs s ! n)\<lparr>si_ctx_done := True\<rparr>) (set (sc_invs s))"
    by (simp add: s' set_update_subset_insert)
  then show ?thesis using nth_mem [OF n] by (fastforce simp: srv_responses_in_def s')
next
  case (SC_Timeout n)
  with assms have pc: "si_pc_of s n = Some SI_Waiting" and s': "s' = set_si_pc n SI_Removing s"
    by (auto simp: Server_Invoke_timeout_def split: if_splits)
  have "srv_responses_in s' \<subseteq> srv_responses_in s" unfolding s' by (rule srv_responses_no_got [OF pc]) simp
  then show ?thesis by blast
next
  case (SC_Remove n)
  with assms have pc: "si_pc_of s n = Some SI_Removing"
    and s': "s' = (set_si_pc n (SI_Returned STimedOut) s)
       \<lparr>sc_calls := Server_removeMethodCall (si_key (sc_invs s ! n)) (si_id (sc_invs s ! n)) (sc_calls s)\<rparr>"
    by (auto simp: Server_Invoke_remove_def split: if_splits)
  have "srv_responses_in (set_si_pc n (SI_Returned STimedOut) s) \<subseteq> srv_responses_in s"
    by (rule srv_responses_no_got [OF pc]) simp
  then show ?thesis unfolding s' srv_responses_unlock(2) by blast
next
  case SC_Other
  with assms show ?thesis by (auto split: if_splits)
qed

subsection \<open>The invariant\<close>

text \<open>A reply that a handler of the client with this key has sent, as the reader of the server sees it.\<close>

definition replied ::
  "('i, 'p) peers \<Rightarrow> static_key list \<Rightarrow> served_request list \<Rightarrow> static_key \<Rightarrow> Response option \<Rightarrow> bool"
where
  "replied w ks hs key r \<longleftrightarrow> (\<exists>h \<in> set hs. ks ! hd_link h = key
     \<and> (\<exists>b. hd_pc h = HD_Replied b \<and> Server_handleRead (pe_wire w) b = SrvHandleResponse r))"

definition srv_requests_ok :: "('i, 'p) peers \<Rightarrow> srv_calls \<Rightarrow> 'p srv_rpc_call list \<Rightarrow> bool" where
  "srv_requests_ok w s cs \<longleftrightarrow> srv_calls_inv s \<and> length cs = length (sc_invs s)
     \<and> (\<forall>n < length cs. Server_Invoke_request (pe_pb w) (pe_wire w) (sq_ctx (cs ! n)) (si_id (sc_invs s ! n))
          (sq_method (cs ! n)) (ProtoMessage (sq_args (cs ! n))) = Inr (si_key (sc_invs s ! n), sq_request (cs ! n)))"

definition down_ok ::
  "('i, 'p) peers \<Rightarrow> srv_calls \<Rightarrow> 'p srv_rpc_call list \<Rightarrow> static_key \<Rightarrow> nat option \<Rightarrow> slice \<Rightarrow> bool"
where
  "down_ok w s cs key t b \<longleftrightarrow>
     (case t of
        None \<Rightarrow> no_request w b
      | Some n \<Rightarrow> n < length cs \<and> b = sq_request (cs ! n) \<and> key = si_key (sc_invs s ! n) \<and> \<not> unsent s n)"

definition srv_links_ok :: "('i, 'p) peers \<Rightarrow> 'p srv_system \<Rightarrow> bool" where
  "srv_links_ok w y \<longleftrightarrow> length (ss_keys y) = length (ss_links y)
     \<and> (\<forall>l < length (ss_links y). link_ok (ss_links y ! l)
          \<and> list_all2 (down_ok w (ss_calls y) (ss_requests y) (ss_keys y ! l)) (ln_calls (ss_links y ! l))
               (tr_sent (ln_server (ss_links y ! l))))
     \<and> (\<forall>l i l' i' n. call_at (ss_links y) l i = Some n \<and> call_at (ss_links y) l' i' = Some n \<longrightarrow> l = l' \<and> i = i')"

definition srv_handler_ok :: "('i, 'p) peers \<Rightarrow> 'p srv_system \<Rightarrow> served_request \<Rightarrow> bool" where
  "srv_handler_ok w y h \<longleftrightarrow>
     (\<exists>n. call_at (ss_links y) (hd_link h) (hd_pos h) = Some n \<and> n < length (ss_requests y)
        \<and> ss_keys y ! hd_link h = si_key (sc_invs (ss_calls y) ! n)
        \<and> ClientConn_handleRead (pe_wire w) (sq_request (ss_requests y ! n)) = HandleRequest (hd_req h))
     \<and> hd_pos h < length (tr_delivered (ln_client (ss_links y ! hd_link h)))
     \<and> (\<forall>b. hd_pc h = HD_Replying b \<or> hd_pc h = HD_Replied b \<longrightarrow>
          ClientConn_handleMessageRequest (pe_pb w) (pe_wire w) (pe_client w (ss_keys y ! hd_link h)) (hd_req h) = Ret (Some b))"

definition srv_served_ok :: "('i, 'p) peers \<Rightarrow> 'p srv_system \<Rightarrow> bool" where
  "srv_served_ok w y \<longleftrightarrow> distinct (map origin (ss_served y)) \<and> (\<forall>h \<in> set (ss_served y). srv_handler_ok w y h)"

definition srv_replies_ok :: "('i, 'p) peers \<Rightarrow> 'p srv_system \<Rightarrow> bool" where
  "srv_replies_ok w y \<longleftrightarrow>
     (\<forall>l < length (ss_links y). pe_honest w (ss_keys y ! l) \<longrightarrow>
        (\<forall>b \<in> set (tr_sent (ln_client (ss_links y ! l))). \<forall>r. Server_handleRead (pe_wire w) b = SrvHandleResponse r \<longrightarrow>
           replied w (ss_keys y) (ss_served y) (ss_keys y ! l) r))
     \<and> (\<forall>key r. (key, r) \<in> set (ss_responses y) \<union> srv_responses_in (ss_calls y) \<longrightarrow> pe_honest w key \<longrightarrow>
           replied w (ss_keys y) (ss_served y) key r)"

definition srv_rpc_inv :: "('i, 'p) peers \<Rightarrow> 'p srv_system \<Rightarrow> bool" where
  "srv_rpc_inv w y \<longleftrightarrow> srv_requests_ok w (ss_calls y) (ss_requests y) \<and> srv_links_ok w y \<and> srv_served_ok w y
     \<and> srv_replies_ok w y"

lemma srv_rpc_inv_init: "srv_rpc_inv w quiet_server"
  using srv_calls_inv_init
  by (simp add: srv_rpc_inv_def srv_requests_ok_def srv_links_ok_def srv_served_ok_def srv_replies_ok_def quiet_server_def
      no_srv_calls_def call_at_def srv_responses_in_def)

subsection \<open>Steps of the calls\<close>

lemma srv_names_nth:
  assumes "srv_call_step e s = Some s'" "n < length (sc_invs s)"
  shows "n < length (sc_invs s')" "si_id (sc_invs s' ! n) = si_id (sc_invs s ! n)" "si_key (sc_invs s' ! n) = si_key (sc_invs s ! n)"
proof -
  from srv_call_step_names [OF assms(1)] have m: "map si_name (sc_invs s') = map si_name (sc_invs s) @ srv_registering e" .
  then have "length (sc_invs s') = length (sc_invs s) + length (srv_registering e)"
    by (metis length_append length_map)
  with assms(2) show n: "n < length (sc_invs s')" by simp
  have "map si_name (sc_invs s') ! n = map si_name (sc_invs s) ! n"
    using assms(2) by (simp add: m nth_append)
  with assms(2) n show "si_id (sc_invs s' ! n) = si_id (sc_invs s ! n)" "si_key (sc_invs s' ! n) = si_key (sc_invs s ! n)"
    by (simp_all add: si_name_def)
qed

lemma srv_requests_ok_step:
  assumes "srv_requests_ok w s cs" "srv_call_step e s = Some s'" "srv_registering e = []"
  shows "srv_requests_ok w s' cs"
proof -
  have "length (sc_invs s') = length (sc_invs s)"
    using arg_cong [OF srv_call_step_names [OF assms(2)], of length] assms(3) by simp
  with assms srv_names_nth [OF assms(2)] srv_call_step_inv [OF _ assms(2)] show ?thesis
    by (auto simp: srv_requests_ok_def)
qed

lemma down_ok_step:
  assumes "down_ok w s cs key t b" "srv_call_step e s = Some s'" "length cs = length (sc_invs s)"
  shows "down_ok w s' cs key t b"
proof (cases t)
  case (Some n)
  with assms(1,3) have "n < length (sc_invs s)" "\<not> unsent s n" by (simp_all add: down_ok_def)
  from srv_call_step_sent [OF assms(2) this] srv_names_nth [OF assms(2) this(1)] assms(1) Some show ?thesis
    by (simp add: down_ok_def)
qed (use assms(1) in \<open>simp add: down_ok_def\<close>)

lemma down_ok_mono:
  "down_ok w s cs key t b \<Longrightarrow> down_ok w s (cs @ ds) key t b"
  by (auto simp: down_ok_def nth_append split: option.splits)

lemma srv_handler_ok_calls:
  assumes "srv_handler_ok w y h" "srv_call_step e (ss_calls y) = Some c" "length (ss_requests y) = length (sc_invs (ss_calls y))"
  shows "srv_handler_ok w (y\<lparr>ss_calls := c\<rparr>) h"
  using assms(1,3) srv_names_nth(3) [OF assms(2)] by (auto simp: srv_handler_ok_def)

text \<open>What a step of the calls that registers nothing keeps.\<close>

lemma srv_rpc_inv_calls:
  assumes "srv_rpc_inv w y" "srv_call_step e (ss_calls y) = Some c" "srv_registering e = []"
    and "\<And>key r. (key, r) \<in> srv_arriving e \<Longrightarrow> pe_honest w key \<Longrightarrow> replied w (ss_keys y) (ss_served y) key r"
  shows "srv_rpc_inv w (y\<lparr>ss_calls := c\<rparr>)"
proof -
  from assms(1) have ok: "srv_requests_ok w (ss_calls y) (ss_requests y)" by (simp add: srv_rpc_inv_def)
  then have len: "length (ss_requests y) = length (sc_invs (ss_calls y))" and inv: "srv_calls_inv (ss_calls y)"
    by (simp_all add: srv_requests_ok_def)
  have "list_all2 (down_ok w c (ss_requests y) key) ts bs"
    if "list_all2 (down_ok w (ss_calls y) (ss_requests y) key) ts bs" for key ts bs
    using that by (rule list_all2_mono) (rule down_ok_step [OF _ assms(2) len])
  with assms(1) have "srv_links_ok w (y\<lparr>ss_calls := c\<rparr>)" by (simp add: srv_rpc_inv_def srv_links_ok_def)
  moreover have "srv_served_ok w (y\<lparr>ss_calls := c\<rparr>)"
    using assms(1) srv_handler_ok_calls [OF _ assms(2) len] by (auto simp: srv_rpc_inv_def srv_served_ok_def)
  moreover have "srv_replies_ok w (y\<lparr>ss_calls := c\<rparr>)"
  proof -
    have "replied w (ss_keys y) (ss_served y) key r"
      if "(key, r) \<in> set (ss_responses y) \<union> srv_responses_in c" "pe_honest w key" for key r
    proof (cases "(key, r) \<in> srv_arriving e")
      case False
      with that(1) srv_call_step_responses [OF assms(2) inv]
      have "(key, r) \<in> set (ss_responses y) \<union> srv_responses_in (ss_calls y)" by blast
      with assms(1) that(2) show ?thesis unfolding srv_rpc_inv_def srv_replies_ok_def by blast
    qed (use assms(4) that(2) in blast)
    with assms(1) show ?thesis by (auto simp: srv_rpc_inv_def srv_replies_ok_def)
  qed
  ultimately show ?thesis using srv_requests_ok_step [OF ok assms(2,3)] by (simp add: srv_rpc_inv_def)
qed

lemma srv_rpc_inv_invoke:
  assumes "srv_rpc_inv w y" "ssys_invoke w ctx callID m args y = Some y'"
  shows "srv_rpc_inv w y'"
proof -
  from assms(2) obtain key reqB c where
    req: "Server_Invoke_request (pe_pb w) (pe_wire w) ctx callID m (ProtoMessage args) = Inr (key, reqB)"
    and c: "srv_call_step (SC_Register key callID) (ss_calls y) = Some c"
    and y': "y' = y\<lparr>ss_calls := c, ss_requests := ss_requests y @ [\<lparr>sq_ctx = ctx, sq_method = m, sq_args = args, sq_request = reqB\<rparr>]\<rparr>"
    by (auto simp: ssys_invoke_def srv_calls_to_def split: sum.splits)
  let ?cs = "ss_requests y @ [\<lparr>sq_ctx = ctx, sq_method = m, sq_args = args, sq_request = reqB\<rparr>]"
  from assms(1) have ok: "srv_requests_ok w (ss_calls y) (ss_requests y)" by (simp add: srv_rpc_inv_def)
  then have len: "length (ss_requests y) = length (sc_invs (ss_calls y))" and inv: "srv_calls_inv (ss_calls y)"
    by (simp_all add: srv_requests_ok_def)
  have names: "map si_name (sc_invs c) = map si_name (sc_invs (ss_calls y)) @ [(key, callID)]"
    using srv_call_step_names [OF c] by simp
  then have lenc: "length (sc_invs c) = Suc (length (sc_invs (ss_calls y)))"
    by (metis length_append_singleton length_map)
  have last: "si_id (sc_invs c ! length (sc_invs (ss_calls y))) = callID"
    "si_key (sc_invs c ! length (sc_invs (ss_calls y))) = key"
    using arg_cong [OF names, of "\<lambda>xs. xs ! length (sc_invs (ss_calls y))"] lenc by (simp_all add: nth_append si_name_def)
  have "srv_requests_ok w c ?cs"
    using ok req len lenc last srv_names_nth(2,3) [OF c] srv_call_step_inv [OF _ c]
    by (auto simp: srv_requests_ok_def nth_append less_Suc_eq)
  moreover have "list_all2 (down_ok w c ?cs key') ts bs"
    if "list_all2 (down_ok w (ss_calls y) (ss_requests y) key') ts bs" for key' ts bs
    using that by (rule list_all2_mono) (rule down_ok_mono [OF down_ok_step [OF _ c len]])
  moreover have "srv_handler_ok w y' h" if "srv_handler_ok w y h" for h
    using that len srv_names_nth(3) [OF c] by (auto simp: srv_handler_ok_def y' nth_append)
  moreover have "srv_replies_ok w y'"
  proof -
    have "srv_responses_in c \<subseteq> srv_responses_in (ss_calls y)"
      using srv_call_step_responses [OF c inv] by simp
    moreover have "srv_replies_ok w y" using assms(1) by (simp add: srv_rpc_inv_def)
    ultimately show ?thesis unfolding srv_replies_ok_def by (auto simp: y')
  qed
  moreover from assms(1) have "srv_links_ok w y" "srv_served_ok w y" by (simp_all add: srv_rpc_inv_def)
  ultimately show ?thesis unfolding srv_rpc_inv_def srv_links_ok_def srv_served_ok_def by (simp add: y')
qed

subsection \<open>Steps of the connections\<close>

lemma srv_rpc_inv_linkD:
  assumes "srv_rpc_inv w y" "l < length (ss_links y)"
  shows "link_ok (ss_links y ! l)"
    "list_all2 (down_ok w (ss_calls y) (ss_requests y) (ss_keys y ! l)) (ln_calls (ss_links y ! l)) (tr_sent (ln_server (ss_links y ! l)))"
    "\<And>b r. pe_honest w (ss_keys y ! l) \<Longrightarrow> b \<in> set (tr_sent (ln_client (ss_links y ! l)))
       \<Longrightarrow> Server_handleRead (pe_wire w) b = SrvHandleResponse r
       \<Longrightarrow> replied w (ss_keys y) (ss_served y) (ss_keys y ! l) r"
  using assms unfolding srv_rpc_inv_def srv_links_ok_def srv_replies_ok_def by blast+

lemma srv_rpc_inv_responsesD:
  assumes "srv_rpc_inv w y" "(key, r) \<in> set (ss_responses y) \<union> srv_responses_in (ss_calls y)" "pe_honest w key"
  shows "replied w (ss_keys y) (ss_served y) key r"
  using assms unfolding srv_rpc_inv_def srv_replies_ok_def by blast

lemma srv_rpc_inv_link:
  assumes inv: "srv_rpc_inv w y" and l: "l < length (ss_links y)" and ok: "link_ok k"
    and msgs: "list_all2 (down_ok w (ss_calls y) (ss_requests y) (ss_keys y ! l)) (ln_calls k) (tr_sent (ln_server k))"
    and calls: "ln_calls k = ln_calls (ss_links y ! l) @ ts" "length ts \<le> 1"
      "\<And>n l i. Some n \<in> set ts \<Longrightarrow> call_at (ss_links y) l i \<noteq> Some n"
    and deliv: "length (tr_delivered (ln_client (ss_links y ! l))) \<le> length (tr_delivered (ln_client k))"
    and sent: "\<And>b r. \<lbrakk>pe_honest w (ss_keys y ! l); b \<in> set (tr_sent (ln_client k));
        b \<notin> set (tr_sent (ln_client (ss_links y ! l))); Server_handleRead (pe_wire w) b = SrvHandleResponse r\<rbrakk>
        \<Longrightarrow> replied w (ss_keys y) (ss_served y) (ss_keys y ! l) r"
  shows "srv_rpc_inv w (y\<lparr>ss_links := (ss_links y)[l := k]\<rparr>)"
proof -
  have uniq: "\<forall>l i l' i' n. call_at (ss_links y) l i = Some n \<and> call_at (ss_links y) l' i' = Some n \<longrightarrow> l = l' \<and> i = i'"
    using inv by (simp add: srv_rpc_inv_def srv_links_ok_def)
  have "srv_links_ok w (y\<lparr>ss_links := (ss_links y)[l := k]\<rparr>)"
    using inv ok msgs l call_at_unique [OF l calls(1,2) uniq calls(3)]
    by (auto simp: srv_rpc_inv_def srv_links_ok_def nth_list_update)
  moreover have "srv_handler_ok w (y\<lparr>ss_links := (ss_links y)[l := k]\<rparr>) h" if "srv_handler_ok w y h" for h
  proof -
    from that obtain n where n: "call_at (ss_links y) (hd_link h) (hd_pos h) = Some n" by (auto simp: srv_handler_ok_def)
    have "call_at ((ss_links y)[l := k]) (hd_link h) (hd_pos h) = call_at (ss_links y) (hd_link h) (hd_pos h)"
      using n unfolding call_at_update [OF l calls(1)] by (auto simp: call_at_def split: if_splits)
    with that deliv l show ?thesis by (auto simp: srv_handler_ok_def nth_list_update)
  qed
  moreover have "replied w (ss_keys y) (ss_served y) (ss_keys y ! l') r"
    if "l' < length (ss_links y)" "pe_honest w (ss_keys y ! l')" "b \<in> set (tr_sent (ln_client ((ss_links y)[l := k] ! l')))"
      "Server_handleRead (pe_wire w) b = SrvHandleResponse r" for l' b r
  proof (cases "b \<in> set (tr_sent (ln_client (ss_links y ! l')))")
    case True
    then show ?thesis using srv_rpc_inv_linkD(3) [OF inv that(1,2)] that(4) by blast
  next
    case False
    with that(3) l have "l' = l" "b \<in> set (tr_sent (ln_client k))" by (auto simp: nth_list_update split: if_splits)
    with False sent that(2,4) show ?thesis by blast
  qed
  then have "srv_replies_ok w (y\<lparr>ss_links := (ss_links y)[l := k]\<rparr>)"
    using inv by (simp add: srv_rpc_inv_def srv_replies_ok_def)
  ultimately show ?thesis using inv by (simp add: srv_rpc_inv_def srv_served_ok_def)
qed

lemma srv_rpc_inv_link_server:
  assumes inv: "srv_rpc_inv w y" and step: "link_server l e f y = Some (Ret y')"
    and f: "\<And>k. ln_client (f k) = ln_client k" "\<And>k. ln_server (f k) = ln_server k" "\<And>k. ln_down (f k) = ln_down k"
      "\<And>k. ln_up (f k) = ln_up k + (if is_read e then 1 else 0)" "\<And>k. ln_calls (f k) = ln_calls k @ ts"
    and read: "\<And>m. e = ReadReturns m \<Longrightarrow> ln_up (ss_links y ! l) < length (tr_sent (ln_client (ss_links y ! l)))
        \<and> m = tr_sent (ln_client (ss_links y ! l)) ! ln_up (ss_links y ! l)"
    and msgs: "list_all2 (down_ok w (ss_calls y) (ss_requests y) (ss_keys y ! l)) ts (written_by e)"
    and new: "\<And>n l i. Some n \<in> set ts \<Longrightarrow> call_at (ss_links y) l i \<noteq> Some n"
  shows "srv_rpc_inv w y'"
proof -
  let ?k = "ss_links y ! l"
  from step obtain s where l: "l < length (ss_links y)" and s: "server_step (ln_server ?k) e = Some (Ret s)"
    and y': "y' = y\<lparr>ss_links := (ss_links y)[l := f (?k\<lparr>ln_server := s\<rparr>)]\<rparr>"
    by (auto simp: link_server_def split: if_splits)
  note old = srv_rpc_inv_linkD [OF inv l]
  note k' = link_ok_server [OF old(1) s read, where k' = "f (?k\<lparr>ln_server := s\<rparr>)"]
  have ok: "link_ok (f (?k\<lparr>ln_server := s\<rparr>))" by (rule k'(1)) (simp_all add: f)
  have sent: "tr_sent (ln_server (f (?k\<lparr>ln_server := s\<rparr>))) = tr_sent (ln_server ?k) @ written_by e"
    by (rule k'(2)) (simp_all add: f)
  have "list_all2 (down_ok w (ss_calls y) (ss_requests y) (ss_keys y ! l)) (ln_calls (f (?k\<lparr>ln_server := s\<rparr>)))
      (tr_sent (ln_server (f (?k\<lparr>ln_server := s\<rparr>))))"
    unfolding sent using old(2) msgs by (simp add: f list_all2_appendI)
  moreover have "length ts \<le> 1"
    using list_all2_lengthD [OF msgs] by (cases e rule: written_by.cases) auto
  ultimately show ?thesis unfolding y'
    by (intro srv_rpc_inv_link [OF inv l ok, where ts = ts]) (auto simp: f dest: new)
qed

lemma srv_rpc_inv_link_client:
  assumes inv: "srv_rpc_inv w y" and step: "link_client l e f y = Some (Ret y')"
    and f: "\<And>k. ln_client (f k) = ln_client k" "\<And>k. ln_server (f k) = ln_server k" "\<And>k. ln_up (f k) = ln_up k"
      "\<And>k. ln_down (f k) = ln_down k + (if is_read e then 1 else 0)" "\<And>k. ln_calls (f k) = ln_calls k"
    and read: "\<And>m. e = ReadReturns m \<Longrightarrow> ln_down (ss_links y ! l) < length (tr_sent (ln_server (ss_links y ! l)))
        \<and> m = tr_sent (ln_server (ss_links y ! l)) ! ln_down (ss_links y ! l)"
    and replies: "\<And>b r. pe_honest w (ss_keys y ! l) \<Longrightarrow> b \<in> set (written_by e)
        \<Longrightarrow> Server_handleRead (pe_wire w) b = SrvHandleResponse r
        \<Longrightarrow> replied w (ss_keys y) (ss_served y) (ss_keys y ! l) r"
  shows "srv_rpc_inv w y'"
proof -
  let ?k = "ss_links y ! l"
  from step obtain c where l: "l < length (ss_links y)" and c: "client_step (ln_client ?k) e = Some (Ret c)"
    and y': "y' = y\<lparr>ss_links := (ss_links y)[l := f (?k\<lparr>ln_client := c\<rparr>)]\<rparr>"
    by (auto simp: link_client_def split: if_splits)
  note old = srv_rpc_inv_linkD [OF inv l]
  note k' = link_ok_client [OF old(1) c read, where k' = "f (?k\<lparr>ln_client := c\<rparr>)"]
  have ok: "link_ok (f (?k\<lparr>ln_client := c\<rparr>))" by (rule k'(1)) (simp_all add: f)
  have sent: "tr_sent (ln_client (f (?k\<lparr>ln_client := c\<rparr>))) = tr_sent (ln_client ?k) @ written_by e"
    by (rule k'(2)) (simp_all add: f)
  have deliv: "length (tr_delivered (ln_client ?k)) \<le> length (tr_delivered (ln_client (f (?k\<lparr>ln_client := c\<rparr>))))"
    by (rule k'(3)) (simp_all add: f)
  show ?thesis unfolding y'
    by (rule srv_rpc_inv_link [OF inv l ok, where ts = "[]"])
      (use old(2) deliv replies sent in \<open>auto simp: f\<close>)
qed

text \<open>A request of a call that is still in \<open>sendMsg\<close> is on no connection.\<close>

lemma unsent_not_sent:
  assumes "srv_rpc_inv w y" "unsent (ss_calls y) n"
  shows "call_at (ss_links y) l i \<noteq> Some n"
proof
  assume c: "call_at (ss_links y) l i = Some n"
  then have l: "l < length (ss_links y)" "i < length (ln_calls (ss_links y ! l))" "ln_calls (ss_links y ! l) ! i = Some n"
    by (auto simp: call_at_def split: if_splits)
  from list_all2_nthD [OF srv_rpc_inv_linkD(2) [OF assms(1) l(1)] l(2)] l(3) assms(2) show False
    by (simp add: down_ok_def)
qed

lemma srv_rpc_inv_send:
  assumes "srv_rpc_inv w y" "ssys_send n l ok y = Some (Ret y')"
  shows "srv_rpc_inv w y'"
proof -
  from assms(2) obtain c where n: "n < length (ss_requests y)" "ss_keys y ! l = si_key (sc_invs (ss_calls y) ! n)"
    and c: "srv_call_step (SC_Write n (Inr ())) (ss_calls y) = Some c"
    and at: "link_server l (WriterGives (sq_request (ss_requests y ! n)) ok)
      (\<lambda>k. if ok then k\<lparr>ln_calls := ln_calls k @ [Some n]\<rparr> else k) (y\<lparr>ss_calls := c\<rparr>) = Some (Ret y')"
    by (auto simp: ssys_send_def srv_calls_to_def split: option.splits if_splits)
  have inv: "srv_rpc_inv w (y\<lparr>ss_calls := c\<rparr>)" by (rule srv_rpc_inv_calls [OF assms(1) c]) simp_all
  from c have pc: "si_pc_of (ss_calls y) n = Some SI_Writing" and c': "c = set_si_pc n SI_Waiting (ss_calls y)"
    by (auto simp: sendMsg_write_def split: if_splits)
  then have m: "n < length (sc_invs (ss_calls y))" by (simp add: si_pc_of_Some)
  then have "si_pc_of c n = Some SI_Waiting" "si_key (sc_invs c ! n) = si_key (sc_invs (ss_calls y) ! n)"
    by (simp_all add: c' si_pc_of_Some set_si_pc_def)
  with n have "down_ok w c (ss_requests y) (ss_keys y ! l) (Some n) (sq_request (ss_requests y ! n))"
    by (simp add: down_ok_def)
  then show ?thesis
    by (intro srv_rpc_inv_link_server [OF inv at, where ts = "if ok then [Some n] else []"])
      (auto simp: is_read_def unsent_not_sent [OF assms(1)] pc split: if_splits)
qed

lemma replied_mono:
  assumes "replied w ks hs key r" "\<forall>h \<in> set hs. hd_link h < length ks"
  shows "replied w (ks @ ks') (hs @ hs') key r"
  using assms by (auto simp: replied_def nth_append)

lemma handler_link:
  assumes "srv_rpc_inv w y" "h \<in> set (ss_served y)"
  shows "hd_link h < length (ss_links y)" "hd_link h < length (ss_keys y)"
proof -
  from assms have "srv_handler_ok w y h" by (simp add: srv_rpc_inv_def srv_served_ok_def)
  then obtain n where "call_at (ss_links y) (hd_link h) (hd_pos h) = Some n" by (auto simp: srv_handler_ok_def)
  then show "hd_link h < length (ss_links y)" by (auto simp: call_at_def split: if_splits)
  then show "hd_link h < length (ss_keys y)" using assms(1) by (simp add: srv_rpc_inv_def srv_links_ok_def)
qed

lemma srv_rpc_inv_connect:
  assumes inv: "srv_rpc_inv w y"
  shows "srv_rpc_inv w (ssys_connect key opts config y)"
proof -
  let ?k = "\<lparr>ln_client = WebsocketClient_Start (newWebsocketClientConfig opts), ln_server = NewServerTransport config,
    ln_up = 0, ln_down = 0, ln_calls = []\<rparr>"
  let ?y = "ssys_connect key opts config y"
  note k = new_link [where opts = opts and config = config]
  have len: "length (ss_keys y) = length (ss_links y)" using inv by (simp add: srv_rpc_inv_def srv_links_ok_def)
  have "srv_handler_ok w ?y h" if h: "h \<in> set (ss_served y)" for h
  proof -
    have "srv_handler_ok w y h" using inv h by (simp add: srv_rpc_inv_def srv_served_ok_def)
    with handler_link [OF inv h] show ?thesis by (auto simp: srv_handler_ok_def ssys_connect_def k(5) nth_append)
  qed
  then have "srv_served_ok w ?y" using inv by (simp add: srv_rpc_inv_def srv_served_ok_def ssys_connect_def)
  moreover have "srv_links_ok w ?y"
    using inv len k(1,2,4) unfolding srv_rpc_inv_def srv_links_ok_def
    by (auto simp: ssys_connect_def k(5) nth_append less_Suc_eq)
  moreover have mono: "replied w (ss_keys ?y) (ss_served ?y) key' r" if "replied w (ss_keys y) (ss_served y) key' r" for key' r
    using replied_mono [OF that, of "[key]" "[]"] handler_link(2) [OF inv] by (auto simp: ssys_connect_def)
  have "srv_replies_ok w ?y"
    unfolding srv_replies_ok_def
  proof (intro conjI allI impI ballI)
    fix l b r
    assume *: "l < length (ss_links ?y)" "pe_honest w (ss_keys ?y ! l)" "b \<in> set (tr_sent (ln_client (ss_links ?y ! l)))"
      "Server_handleRead (pe_wire w) b = SrvHandleResponse r"
    have "l < length (ss_links y)" using *(1,3) k(3) by (auto simp: ssys_connect_def nth_append less_Suc_eq split: if_splits)
    with * srv_rpc_inv_linkD(3) [OF inv this] len mono
    show "replied w (ss_keys ?y) (ss_served ?y) (ss_keys ?y ! l) r"
      by (auto simp: ssys_connect_def nth_append)
  next
    fix key' r
    assume "(key', r) \<in> set (ss_responses ?y) \<union> srv_responses_in (ss_calls ?y)" "pe_honest w key'"
    then have "replied w (ss_keys y) (ss_served y) key' r"
      by (intro srv_rpc_inv_responsesD [OF inv]) (simp_all add: ssys_connect_def)
    then show "replied w (ss_keys ?y) (ss_served ?y) key' r" by (rule mono)
  qed
  ultimately show ?thesis using inv by (simp add: srv_rpc_inv_def ssys_connect_def)
qed

lemma srv_rpc_inv_hostile:
  assumes inv: "srv_rpc_inv w y" and "ssys_hostile w l b y = Some y'"
  shows "srv_rpc_inv w y'"
proof -
  let ?k = "ss_links y ! l"
  let ?k' = "?k\<lparr>ln_client := (ln_client ?k)\<lparr>tr_sent := tr_sent (ln_client ?k) @ [b]\<rparr>\<rparr>"
  from assms(2) have l: "l < length (ss_links y)" "\<not> pe_honest w (ss_keys y ! l)"
    and y': "y' = y\<lparr>ss_links := (ss_links y)[l := ?k']\<rparr>"
    by (auto simp: ssys_hostile_def split: if_splits)
  note old = srv_rpc_inv_linkD [OF inv l(1)]
  have "link_ok ?k'" using old(1) by (auto simp: link_ok_def in_hand_def)
  then show ?thesis unfolding y'
    by (intro srv_rpc_inv_link [OF inv l(1), where ts = "[]"]) (use old(2) l(2) in auto)
qed

lemma srv_rpc_inv_client_read:
  assumes "srv_rpc_inv w y" "ssys_client_read w l y = Some (Ret y')"
  shows "srv_rpc_inv w y'"
proof -
  let ?k = "ss_links y ! l" and ?m = "in_hand_msg (ln_client (ss_links y ! l))"
  let ?pos = "length (tr_delivered (ln_client (ss_links y ! l)))"
  from assms(2) obtain y1 where at: "link_client l ReaderTakes id y = Some (Ret y1)"
    and y': "y' = (case ClientConn_handleRead (pe_wire w) ?m of
        HandleRequest q \<Rightarrow> y1\<lparr>ss_served := ss_served y @ [\<lparr>hd_link = l, hd_pos = ?pos, hd_req = q, hd_pc = HD_Serving\<rparr>]\<rparr>
      | _ \<Rightarrow> y1)"
    by (auto simp: ssys_client_read_def)
  have inv: "srv_rpc_inv w y1"
    by (rule srv_rpc_inv_link_client [OF assms(1) at]) (auto simp: is_read_def)
  from at obtain s where l: "l < length (ss_links y)" and s: "client_step (ln_client ?k) ReaderTakes = Some (Ret s)"
    and y1: "y1 = y\<lparr>ss_links := (ss_links y)[l := ?k\<lparr>ln_client := s\<rparr>]\<rparr>"
    by (auto simp: link_client_def split: if_splits)
  from s have hand: "tr_readPump (ln_client ?k) = RP_Sending ?m" and s': "tr_delivered s = tr_delivered (ln_client ?k) @ [?m]"
    by (auto simp: client_step_simps in_hand_msg_def split: pump_splits)
  note old = srv_rpc_inv_linkD [OF assms(1) l]
  have "tr_delivered (ln_client ?k) @ [?m] = take (ln_down ?k) (tr_sent (ln_server ?k))"
    using old(1) hand by (simp add: link_ok_def in_hand_def)
  note m = snoc_prefix [OF this]
  show ?thesis
  proof (cases "ClientConn_handleRead (pe_wire w) ?m")
    case (HandleRequest q)
    let ?h = "\<lparr>hd_link = l, hd_pos = ?pos, hd_req = q, hd_pc = HD_Serving\<rparr>"
    from old(2) m(1) have i: "?pos < length (ln_calls ?k)"
      "down_ok w (ss_calls y) (ss_requests y) (ss_keys y ! l) (ln_calls ?k ! ?pos) ?m"
      using list_all2_lengthD [OF old(2)] list_all2_nthD2 [OF old(2), of ?pos] by (simp_all add: m(2))
    with HandleRequest obtain n where n: "ln_calls ?k ! ?pos = Some n" "n < length (ss_requests y)"
      "?m = sq_request (ss_requests y ! n)" "ss_keys y ! l = si_key (sc_invs (ss_calls y) ! n)"
      by (auto simp: down_ok_def no_request_def split: option.splits)
    have "call_at (ss_links y1) l ?pos = Some n" using i n l by (simp add: y1 call_at_def)
    with HandleRequest n s' l have h: "srv_handler_ok w y1 ?h" by (simp add: srv_handler_ok_def y1)
    have "origin ?h \<notin> origin ` set (ss_served y)"
      using assms(1) by (auto simp: srv_rpc_inv_def srv_served_ok_def srv_handler_ok_def origin_def)
    then have "srv_served_ok w (y1\<lparr>ss_served := ss_served y @ [?h]\<rparr>)"
      using inv h by (auto simp: srv_rpc_inv_def srv_served_ok_def y1 srv_handler_ok_def)
    moreover have "replied w (ss_keys y1) (ss_served y @ [?h]) key r" if "replied w (ss_keys y1) (ss_served y1) key r" for key r
      using that by (auto simp: replied_def y1)
    then have "srv_replies_ok w (y1\<lparr>ss_served := ss_served y @ [?h]\<rparr>)"
      using inv unfolding srv_rpc_inv_def srv_replies_ok_def by simp
    ultimately show ?thesis
      using inv unfolding y' HandleRequest dispatch.case srv_rpc_inv_def srv_links_ok_def by simp
  qed (use inv in \<open>simp_all add: y'\<close>)
qed

lemma srv_rpc_inv_server_read:
  assumes "srv_rpc_inv w y" "ssys_server_read w l y = Some (Ret y')"
  shows "srv_rpc_inv w y'"
proof -
  let ?k = "ss_links y ! l" and ?m = "in_hand_msg (ln_server (ss_links y ! l))"
  from assms(2) obtain y1 where at: "link_server l ReaderTakes id y = Some (Ret y1)"
    and y': "y' = (case Server_handleRead (pe_wire w) ?m of
        SrvHandleResponse q \<Rightarrow> y1\<lparr>ss_responses := ss_responses y @ [(ss_keys y ! l, q)]\<rparr> | _ \<Rightarrow> y1)"
    by (auto simp: ssys_server_read_def)
  have inv: "srv_rpc_inv w y1"
    by (rule srv_rpc_inv_link_server [OF assms(1) at, where ts = "[]"]) (auto simp: is_read_def)
  from at obtain c where l: "l < length (ss_links y)" and c: "server_step (ln_server ?k) ReaderTakes = Some (Ret c)"
    and y1: "y1 = y\<lparr>ss_links := (ss_links y)[l := ?k\<lparr>ln_server := c\<rparr>]\<rparr>"
    by (auto simp: link_server_def split: if_splits)
  from c have hand: "tr_readPump (ln_server ?k) = RP_Sending ?m"
    by (auto simp: server_step_simps in_hand_msg_def split: pump_splits)
  note old = srv_rpc_inv_linkD [OF assms(1) l]
  have "tr_delivered (ln_server ?k) @ [?m] = take (ln_up ?k) (tr_sent (ln_client ?k))"
    using old(1) hand by (simp add: link_ok_def in_hand_def)
  note m = snoc_prefix [OF this]
  have r: "replied w (ss_keys y) (ss_served y) (ss_keys y ! l) q"
    if "Server_handleRead (pe_wire w) ?m = SrvHandleResponse q" "pe_honest w (ss_keys y ! l)" for q
    by (rule old(3) [OF that(2) _ that(1)]) (use m nth_mem [OF m(1)] in simp)
  show ?thesis
  proof (cases "Server_handleRead (pe_wire w) ?m")
    case (SrvHandleResponse q)
    with inv r [OF SrvHandleResponse] show ?thesis
      by (auto simp: y' y1 srv_rpc_inv_def srv_links_ok_def srv_served_ok_def srv_handler_ok_def srv_replies_ok_def)
  qed (use inv in \<open>simp_all add: y'\<close>)
qed

subsection \<open>Steps of the handlers\<close>

lemma origin_move_handler: "map origin (ss_served (move_handler k pc y)) = map origin (ss_served y)"
  by (cases "k < length (ss_served y)")
    (auto simp: move_handler_def origin_def map_update list_update_beyond intro!: nth_equalityI simp: nth_list_update)

text \<open>A handler that has not replied yet moves on.\<close>

lemma srv_rpc_inv_move_handler:
  assumes inv: "srv_rpc_inv w y" and k: "k < length (ss_served y)" "\<And>b. hd_pc (ss_served y ! k) \<noteq> HD_Replied b"
    and pc: "\<And>b. pc = HD_Replying b \<or> pc = HD_Replied b \<Longrightarrow>
      ClientConn_handleMessageRequest (pe_pb w) (pe_wire w) (pe_client w (ss_keys y ! hd_link (ss_served y ! k)))
        (hd_req (ss_served y ! k)) = Ret (Some b)"
  shows "srv_rpc_inv w (move_handler k pc y)"
proof -
  let ?h = "(ss_served y ! k)\<lparr>hd_pc := pc\<rparr>"
  have sub: "set ((ss_served y)[k := ?h]) \<subseteq> insert ?h (set (ss_served y))" by (rule set_update_subset_insert)
  have "srv_handler_ok w y (ss_served y ! k)" using inv nth_mem [OF k(1)] by (simp add: srv_rpc_inv_def srv_served_ok_def)
  then have "srv_handler_ok w y ?h" using pc by (simp add: srv_handler_ok_def)
  then have "\<forall>h \<in> set ((ss_served y)[k := ?h]). srv_handler_ok w y h"
    using inv sub by (auto simp: srv_rpc_inv_def srv_served_ok_def)
  then have served: "srv_served_ok w (move_handler k pc y)"
    using inv origin_move_handler [of k pc y]
    by (simp add: srv_rpc_inv_def srv_served_ok_def) (simp add: move_handler_def srv_handler_ok_def)
  have "h \<in> set ((ss_served y)[k := ?h])" if "h \<in> set (ss_served y)" "hd_pc h = HD_Replied b" for h b
    using that k by (metis in_set_conv_nth length_list_update nth_list_update_neq)
  then have mono: "replied w (ss_keys y) ((ss_served y)[k := ?h]) key r" if "replied w (ss_keys y) (ss_served y) key r" for key r
    using that unfolding replied_def by blast
  have "srv_replies_ok w y" using inv by (simp add: srv_rpc_inv_def)
  then have "srv_replies_ok w (move_handler k pc y)"
    using mono unfolding srv_replies_ok_def by (auto simp: move_handler_def)
  with inv served show ?thesis by (simp add: srv_rpc_inv_def) (simp add: move_handler_def srv_links_ok_def)
qed

lemma srv_rpc_inv_serve:
  assumes "srv_rpc_inv w y" "ssys_serve w k y = Some (Ret y')"
  shows "srv_rpc_inv w y'"
proof -
  from assms(2) obtain r where k: "k < length (ss_served y)" "hd_pc (ss_served y ! k) = HD_Serving"
    and r: "ClientConn_handleMessageRequest (pe_pb w) (pe_wire w) (pe_client w (ss_keys y ! hd_link (ss_served y ! k)))
        (hd_req (ss_served y ! k)) = Ret r"
    and y': "y' = move_handler k (case r of None \<Rightarrow> HD_NoReply | Some b \<Rightarrow> HD_Replying b) y"
    by (auto simp: ssys_serve_def split: if_splits)
  show ?thesis unfolding y'
    by (rule srv_rpc_inv_move_handler [OF assms(1) k(1)]) (use k r in \<open>auto split: option.splits\<close>)
qed

lemma srv_rpc_inv_reply:
  assumes "srv_rpc_inv w y" "ssys_reply k l ok y = Some (Ret y')"
  shows "srv_rpc_inv w y'"
proof -
  from assms(2) obtain b where k: "k < length (ss_served y)" "hd_pc (ss_served y ! k) = HD_Replying b"
    "ss_keys y ! l = ss_keys y ! hd_link (ss_served y ! k)"
    and at: "link_client l (WriterGives b ok) id (move_handler k (HD_Replied b) y) = Some (Ret y')"
    by (auto simp: ssys_reply_def split: if_splits handler_pc.splits)
  let ?y = "move_handler k (HD_Replied b) y" and ?h = "(ss_served y ! k)\<lparr>hd_pc := HD_Replied b\<rparr>"
  have "srv_handler_ok w y (ss_served y ! k)" using assms(1) nth_mem [OF k(1)] by (simp add: srv_rpc_inv_def srv_served_ok_def)
  then have inv: "srv_rpc_inv w ?y"
    using k by (intro srv_rpc_inv_move_handler [OF assms(1)]) (auto simp: srv_handler_ok_def)
  have "?h \<in> set (ss_served ?y)"
    using k(1) by (simp add: move_handler_def set_update_memI)
  moreover have "ss_keys ?y ! hd_link ?h = ss_keys ?y ! l" using k(3) by (simp add: move_handler_def)
  ultimately have "replied w (ss_keys ?y) (ss_served ?y) (ss_keys ?y ! l) r"
    if "Server_handleRead (pe_wire w) b = SrvHandleResponse r" for r
    using that unfolding replied_def by (intro bexI [of _ ?h]) simp_all
  then show ?thesis
    by (intro srv_rpc_inv_link_client [OF inv at]) (cases ok; auto simp: is_read_def)+
qed

lemma srv_rpc_inv_respond:
  assumes "srv_rpc_inv w y" "ssys_respond j y = Some y'"
  shows "srv_rpc_inv w y'"
proof -
  from assms(2) obtain key r c where j: "j < length (ss_responses y)" "ss_responses y ! j = (key, r)"
    and c: "srv_call_step (SC_Arrive key r) (ss_calls y) = Some c"
    and y': "y' = y\<lparr>ss_calls := c, ss_responses := take j (ss_responses y) @ drop (Suc j) (ss_responses y)\<rparr>"
    by (auto simp: ssys_respond_def srv_calls_to_def split: if_splits prod.splits)
  have "(key, r) \<in> set (ss_responses y)" using nth_mem [OF j(1)] j(2) by simp
  then have "replied w (ss_keys y) (ss_served y) key r" if "pe_honest w key"
    using srv_rpc_inv_responsesD [OF assms(1) _ that] by blast
  then have inv: "srv_rpc_inv w (y\<lparr>ss_calls := c\<rparr>)"
    by (intro srv_rpc_inv_calls [OF assms(1) c]) simp_all
  have sub: "set (take j (ss_responses y) @ drop (Suc j) (ss_responses y)) \<subseteq> set (ss_responses y)"
    by (auto dest: in_set_takeD in_set_dropD)
  have "srv_replies_ok w (y\<lparr>ss_calls := c\<rparr>)" using inv by (simp add: srv_rpc_inv_def)
  then have "srv_replies_ok w y'" using sub unfolding srv_replies_ok_def by (simp add: y') blast
  with inv show ?thesis
    by (simp add: y' srv_rpc_inv_def srv_links_ok_def srv_served_ok_def srv_handler_ok_def)
qed

lemma srv_rpc_inv_step:
  assumes inv: "srv_rpc_inv w y" and step: "srv_rpc_step w e y = Some (Ret y')"
  shows "srv_rpc_inv w y'"
proof (cases e)
  case (SS_Connect key opts config)
  with step srv_rpc_inv_connect [OF inv] show ?thesis by auto
next
  case (SS_Invoke ctx callID m args)
  with step srv_rpc_inv_invoke [OF inv] show ?thesis by auto
next
  case (SS_Send n l ok)
  with step srv_rpc_inv_send [OF inv] show ?thesis by simp
next
  case (SS_Call ev)
  with step obtain c where "srv_event_alone ev" and c: "srv_call_step ev (ss_calls y) = Some c" and "y' = y\<lparr>ss_calls := c\<rparr>"
    by (auto simp: srv_calls_to_def split: if_splits)
  then show ?thesis using srv_rpc_inv_calls [OF inv c] by (cases ev) auto
next
  case (SS_Client l ev)
  with step have "by_itself ev (ln_down (ss_links y ! l)) (tr_sent (ln_server (ss_links y ! l)))"
    and at: "link_client l ev (\<lambda>k. if is_read ev then k\<lparr>ln_down := Suc (ln_down k)\<rparr> else k) y = Some (Ret y')"
    by (auto split: if_splits)
  then show ?thesis
    by (intro srv_rpc_inv_link_client [OF inv at]) (cases ev; auto simp: by_itself_def is_read_def)+
next
  case (SS_Server l ev)
  with step have "by_itself ev (ln_up (ss_links y ! l)) (tr_sent (ln_client (ss_links y ! l)))"
    and at: "link_server l ev (\<lambda>k. if is_read ev then k\<lparr>ln_up := Suc (ln_up k)\<rparr> else k) y = Some (Ret y')"
    by (auto split: if_splits)
  then show ?thesis
    by (intro srv_rpc_inv_link_server [OF inv at, where ts = "[]"]) (cases ev; auto simp: by_itself_def is_read_def)+
next
  case (SS_ClientRead l)
  with step srv_rpc_inv_client_read [OF inv] show ?thesis by simp
next
  case (SS_Serve k)
  with step srv_rpc_inv_serve [OF inv] show ?thesis by simp
next
  case (SS_Reply k l ok)
  with step srv_rpc_inv_reply [OF inv] show ?thesis by simp
next
  case (SS_NotSent k)
  with step obtain b where "k < length (ss_served y)" "hd_pc (ss_served y ! k) = HD_Replying b" "y' = move_handler k HD_NoReply y"
    by (auto simp: ssys_not_sent_def split: if_splits handler_pc.splits)
  with srv_rpc_inv_move_handler [OF inv, of k HD_NoReply] show ?thesis by simp
next
  case (SS_ServerRead l)
  with step srv_rpc_inv_server_read [OF inv] show ?thesis by simp
next
  case (SS_Respond j)
  with step srv_rpc_inv_respond [OF inv] show ?thesis by auto
next
  case (SS_ClientSends l b ok)
  with step have "no_response w b" and at: "link_client l (WriterGives b ok) id y = Some (Ret y')"
    by (auto split: if_splits)
  then show ?thesis
    by (intro srv_rpc_inv_link_client [OF inv at]) (cases ok; auto simp: is_read_def no_response_def)+
next
  case (SS_ServerSends l b ok)
  with step have "no_request w b" and at: "link_server l (WriterGives b ok) (\<lambda>k. if ok then k\<lparr>ln_calls := ln_calls k @ [None]\<rparr> else k) y = Some (Ret y')"
    by (auto split: if_splits)
  then show ?thesis
    by (intro srv_rpc_inv_link_server [OF inv at, where ts = "if ok then [None] else []"])
      (auto simp: is_read_def down_ok_def split: if_splits)
next
  case (SS_Hostile l b)
  with step srv_rpc_inv_hostile [OF inv] show ?thesis by auto
qed

lemma srv_rpc_reachable_inv: "srv_rpc_reachable w y \<Longrightarrow> srv_rpc_inv w y"
proof (induction rule: srv_rpc_reachable.induct)
  case srv_rpc_init
  show ?case by (rule srv_rpc_inv_init)
next
  case (srv_rpc_next y e y')
  then show ?case by (blast intro: srv_rpc_inv_step)
qed

subsection \<open>Safety\<close>

text \<open>The goroutines \<open>handleMessageRequest\<close> of the clients that carry the id of call \<open>n\<close>.\<close>

definition srv_served_for :: "'p srv_system \<Rightarrow> nat \<Rightarrow> served_request list" where
  "srv_served_for y n = filter (\<lambda>h. Request_GetCallId (hd_req h) = si_id (sc_invs (ss_calls y) ! n)) (ss_served y)"

lemma request_of_srv_call:
  assumes "srv_requests_ok w s cs" "n < length cs" "decodes (pe_wire w) norm_message"
  obtains payload where "pb_marshal (pe_pb w) (sq_args (cs ! n)) = Inr payload"
    "ClientConn_handleRead (pe_wire w) (sq_request (cs ! n))
       = HandleRequest (sent_request (si_id (sc_invs s ! n)) (sq_method (cs ! n)) payload)"
    "peer_FromContext (sq_ctx (cs ! n)) = Some \<lparr>peer_PublicKey = si_key (sc_invs s ! n)\<rparr>"
proof -
  have "Server_Invoke_request (pe_pb w) (pe_wire w) (sq_ctx (cs ! n)) (si_id (sc_invs s ! n)) (sq_method (cs ! n))
      (ProtoMessage (sq_args (cs ! n))) = Inr (si_key (sc_invs s ! n), sq_request (cs ! n))"
    using assms(1,2) by (simp add: srv_requests_ok_def)
  then obtain q p where q: "NewRequest (pe_pb w) (si_id (sc_invs s ! n)) (sq_method (cs ! n))
      (ProtoMessage (sq_args (cs ! n))) = Inr q" "pb_marshal (pe_wire w) q = Inr (sq_request (cs ! n))"
    and p: "peer_FromContext (sq_ctx (cs ! n)) = Some p" "peer_PublicKey p = si_key (sc_invs s ! n)"
    by (auto simp: Server_Invoke_request_def MarshalProtoMessage_def split: sum.splits option.splits)
  have p': "peer_FromContext (sq_ctx (cs ! n)) = Some \<lparr>peer_PublicKey = si_key (sc_invs s ! n)\<rparr>"
    using p by (cases p) simp
  from request_arrives [OF assms(3) q] obtain payload where "pb_marshal (pe_pb w) (sq_args (cs ! n)) = Inr payload"
    "ClientConn_handleRead (pe_wire w) (sq_request (cs ! n))
       = HandleRequest (sent_request (si_id (sc_invs s ! n)) (sq_method (cs ! n)) payload)"
    by blast
  from that [OF this p'] show ?thesis .
qed

text \<open>A handler works on the request of a call to its own client, and which call this is its id says.\<close>

lemma srv_handler_call:
  assumes "srv_rpc_inv w y" "decodes (pe_wire w) norm_message" "h \<in> set (ss_served y)"
  obtains n payload where "call_at (ss_links y) (hd_link h) (hd_pos h) = Some n" "n < length (ss_requests y)"
    "ss_keys y ! hd_link h = si_key (sc_invs (ss_calls y) ! n)"
    "pb_marshal (pe_pb w) (sq_args (ss_requests y ! n)) = Inr payload"
    "hd_req h = sent_request (si_id (sc_invs (ss_calls y) ! n)) (sq_method (ss_requests y ! n)) payload"
proof -
  from assms obtain n where n: "call_at (ss_links y) (hd_link h) (hd_pos h) = Some n" "n < length (ss_requests y)"
    "ss_keys y ! hd_link h = si_key (sc_invs (ss_calls y) ! n)"
    "ClientConn_handleRead (pe_wire w) (sq_request (ss_requests y ! n)) = HandleRequest (hd_req h)"
    by (auto simp: srv_rpc_inv_def srv_served_ok_def srv_handler_ok_def)
  have "srv_requests_ok w (ss_calls y) (ss_requests y)" using assms(1) by (simp add: srv_rpc_inv_def)
  then obtain payload where p: "pb_marshal (pe_pb w) (sq_args (ss_requests y ! n)) = Inr payload"
    "ClientConn_handleRead (pe_wire w) (sq_request (ss_requests y ! n))
       = HandleRequest (sent_request (si_id (sc_invs (ss_calls y) ! n)) (sq_method (ss_requests y ! n)) payload)"
    by (rule request_of_srv_call [OF _ n(2) assms(2)])
  have "hd_req h = sent_request (si_id (sc_invs (ss_calls y) ! n)) (sq_method (ss_requests y ! n)) payload"
    using p(2) n(4) by auto
  then show ?thesis by (rule that [OF n(1-3) p(1)])
qed

lemma same_srv_id_same_call:
  assumes "srv_rpc_inv w y" "n < length (ss_requests y)" "m < length (ss_requests y)"
    and "si_id (sc_invs (ss_calls y) ! n) = si_id (sc_invs (ss_calls y) ! m)"
  shows "n = m"
  using assms nth_eq_iff_index_eq [of "map si_id (sc_invs (ss_calls y))" n m]
  by (auto simp: srv_rpc_inv_def srv_requests_ok_def srv_calls_inv_def)

lemma srv_served_call:
  assumes inv: "srv_rpc_inv w y" "decodes (pe_wire w) norm_message" and n: "n < length (ss_requests y)"
    and h: "h \<in> set (srv_served_for y n)"
  shows "call_at (ss_links y) (hd_link h) (hd_pos h) = Some n" "ss_keys y ! hd_link h = si_key (sc_invs (ss_calls y) ! n)"
proof -
  from h have "h \<in> set (ss_served y)" by (simp add: srv_served_for_def)
  then obtain m payload where m: "call_at (ss_links y) (hd_link h) (hd_pos h) = Some m" "m < length (ss_requests y)"
    "ss_keys y ! hd_link h = si_key (sc_invs (ss_calls y) ! m)"
    "hd_req h = sent_request (si_id (sc_invs (ss_calls y) ! m)) (sq_method (ss_requests y ! m)) payload"
    by (rule srv_handler_call [OF inv])
  with h have "m = n" by (intro same_srv_id_same_call [OF inv(1) m(2) n]) (simp add: srv_served_for_def)
  with m show "call_at (ss_links y) (hd_link h) (hd_pos h) = Some n" "ss_keys y ! hd_link h = si_key (sc_invs (ss_calls y) ! n)"
    by simp_all
qed

lemma srv_served_at_most_once:
  assumes "srv_rpc_inv w y" "decodes (pe_wire w) norm_message" "n < length (ss_requests y)"
  shows "length (srv_served_for y n) \<le> 1"
proof (rule length_distinct_image [where f = origin])
  show "distinct (map origin (srv_served_for y n))"
    using assms(1) by (simp add: srv_served_for_def srv_rpc_inv_def srv_served_ok_def distinct_map_filter)
  have uniq: "\<forall>l i l' i' n. call_at (ss_links y) l i = Some n \<and> call_at (ss_links y) l' i' = Some n \<longrightarrow> l = l' \<and> i = i'"
    using assms(1) by (simp add: srv_rpc_inv_def srv_links_ok_def)
  show "origin h = origin h'" if "h \<in> set (srv_served_for y n)" "h' \<in> set (srv_served_for y n)" for h h'
    using uniq srv_served_call(1) [OF assms that(1)] srv_served_call(1) [OF assms that(2)] unfolding origin_def by blast
qed

text \<open>A reply of a generated handler of a client, from the request it served.\<close>

lemma client_reply_of_generated:
  assumes "ClientConn_handleMessageRequest pb wire cc (sent_request callID m payload) = Ret (Some b)"
    and "decodes pb nrm" "decodes wire norm_message" "pb_marshal pb args = Inr payload" "cc_service cc = Some si"
    and gen: "\<And>name d. si_methods si name = Some d \<Longrightarrow> \<exists>new_in meth. md_Handler d = generated_handler new_in meth"
  obtains d new_in meth out herr rp where "si_methods si m = Some d" "md_Handler d = generated_handler new_in meth"
    "meth (si_serviceImpl si) Background (nrm args) = (ProtoMessage out, herr)"
    "pb_marshal pb out = Inr rp" "Server_handleRead wire b = SrvHandleResponse (sent_response callID rp herr)"
proof -
  from assms(1,5) obtain d where d: "si_methods si m = Some d"
    by (cases "si_methods si m") (auto simp: ClientConn_handleMessageRequest_def)
  with gen obtain new_in meth where g: "md_Handler d = generated_handler new_in meth" by blast
  obtain v herr where run: "meth (si_serviceImpl si) Background (nrm args) = (v, herr)" by fastforce
  have h: "md_Handler d (si_serviceImpl si) Background (UnmarshalProtoMessage pb (norm_slice payload)) = (v, herr)"
    unfolding g generated_handler_runs [OF assms(2,4)] by (rule run)
  from assms(1,5) d h obtain msg where msg: "NewResponse pb callID v herr = Inr msg" "MarshalProtoMessage wire (ProtoMessage msg) = Inr b"
    by (auto simp: ClientConn_handleMessageRequest_def Let_def split: sum.splits)
  then obtain out rp where out: "v = ProtoMessage out" "pb_marshal pb out = Inr rp" by (auto simp: NewResponse_Inr)
  from response_arrives_at_reader [OF assms(3) msg(1) [unfolded out(1)] msg(2) out(2)] d g run out that show ?thesis by blast
qed

text \<open>
  C3.  Calls of a server to its clients are safe in every interleaving, whatever hostile clients do.  Any
  number of calls to any number of clients run at once, connections break and are replaced, and a client
  without an honest key sends any messages at any time, responses with the ids of other calls included.
  Then each call reaches at most one handler, and only one of the client with the key in the context
  of the call.  A call to an honest client that returns with a response has been served exactly once,
  with its own arguments, and returns the reply of this run of the method, or an error with the text of
  its error: no other client can answer it.
\<close>

theorem server_calls_isolated:
  assumes "srv_rpc_reachable w y" "decodes (pe_wire w) norm_message" "decodes (pe_pb w) nrm"
    and "n < length (ss_requests y)" "peer_FromContext (sq_ctx (ss_requests y ! n)) = Some \<lparr>peer_PublicKey = key\<rparr>"
    and "pe_honest w key" "cc_service (pe_client w key) = Some si"
    and "\<And>name d. si_methods si name = Some d \<Longrightarrow> \<exists>new_in meth. md_Handler d = generated_handler new_in meth"
  shows "length (srv_served_for y n) \<le> 1 \<and> (\<forall>h \<in> set (srv_served_for y n). ss_keys y ! hd_link h = key)
    \<and> (\<forall>r. si_pc_of (ss_calls y) n = Some (SI_Returned (SGot r)) \<longrightarrow>
         length (srv_served_for y n) = 1
         \<and> (\<exists>d new_in meth out herr. si_methods si (sq_method (ss_requests y ! n)) = Some d
              \<and> md_Handler d = generated_handler new_in meth
              \<and> meth (si_serviceImpl si) Background (nrm (sq_args (ss_requests y ! n))) = (ProtoMessage out, herr)
              \<and> Server_Invoke_result (pe_pb w) r (ProtoMessage t) = Ret (call_result (nrm out) herr)))"
proof (intro conjI allI impI ballI)
  have inv: "srv_rpc_inv w y" by (rule srv_rpc_reachable_inv [OF assms(1)])
  have reqs: "srv_requests_ok w (ss_calls y) (ss_requests y)" using inv by (simp add: srv_rpc_inv_def)
  have key: "si_key (sc_invs (ss_calls y) ! n) = key"
    using request_of_srv_call [OF reqs assms(4,2)] assms(5) by fastforce
  show once: "length (srv_served_for y n) \<le> 1" by (rule srv_served_at_most_once [OF inv assms(2,4)])
  show "ss_keys y ! hd_link h = key" if "h \<in> set (srv_served_for y n)" for h
    using srv_served_call(2) [OF inv assms(2,4) that] by (simp add: key)
  fix r
  assume pc: "si_pc_of (ss_calls y) n = Some (SI_Returned (SGot r))"
  then have iv: "n < length (sc_invs (ss_calls y))" "si_pc (sc_invs (ss_calls y) ! n) = SI_Returned (SGot r)"
    by (auto simp: si_pc_of_Some)
  have "(key, r) \<in> srv_responses_in (ss_calls y)"
    using iv nth_mem [OF iv(1)] key unfolding srv_responses_in_def by blast
  then have "replied w (ss_keys y) (ss_served y) key r"
    by (intro srv_rpc_inv_responsesD [OF inv _ assms(6)]) simp
  then obtain h b where h: "h \<in> set (ss_served y)" "ss_keys y ! hd_link h = key" "hd_pc h = HD_Replied b"
    and b: "Server_handleRead (pe_wire w) b = SrvHandleResponse r"
    by (auto simp: replied_def)
  obtain m payload where m: "m < length (ss_requests y)" "pb_marshal (pe_pb w) (sq_args (ss_requests y ! m)) = Inr payload"
    and q: "hd_req h = sent_request (si_id (sc_invs (ss_calls y) ! m)) (sq_method (ss_requests y ! m)) payload"
    by (rule srv_handler_call [OF inv assms(2) h(1)])
  have "ClientConn_handleMessageRequest (pe_pb w) (pe_wire w) (pe_client w key)
      (sent_request (si_id (sc_invs (ss_calls y) ! m)) (sq_method (ss_requests y ! m)) payload) = Ret (Some b)"
    using inv h q by (auto simp: srv_rpc_inv_def srv_served_ok_def srv_handler_ok_def)
  then obtain d new_in meth out herr rp where d: "si_methods si (sq_method (ss_requests y ! m)) = Some d"
    "md_Handler d = generated_handler new_in meth"
    and run: "meth (si_serviceImpl si) Background (nrm (sq_args (ss_requests y ! m))) = (ProtoMessage out, herr)"
    and rp: "pb_marshal (pe_pb w) out = Inr rp"
    and resp: "Server_handleRead (pe_wire w) b = SrvHandleResponse (sent_response (si_id (sc_invs (ss_calls y) ! m)) rp herr)"
    by (rule client_reply_of_generated [OF _ assms(3,2) m(2) assms(7,8)]) blast
  from b resp have r: "r = sent_response (si_id (sc_invs (ss_calls y) ! m)) rp herr" by simp
  have "sgot_id (si_pc (sc_invs (ss_calls y) ! n)) \<in> {None, Some (si_id (sc_invs (ss_calls y) ! n))}"
    using reqs nth_mem [OF iv(1)] by (simp add: srv_requests_ok_def srv_calls_inv_def)
  then have "m = n" using iv by (intro same_srv_id_same_call [OF inv m(1) assms(4)]) (simp add: r)
  with h(1) q have "h \<in> set (srv_served_for y n)" by (simp add: srv_served_for_def)
  with once show "length (srv_served_for y n) = 1" by (cases "srv_served_for y n") auto
  have "Server_Invoke_result (pe_pb w) r (ProtoMessage t) = Ret (call_result (nrm out) herr)"
    unfolding r using result_of_response [OF assms(3) rp] by blast
  with d run \<open>m = n\<close> show "\<exists>d new_in meth out herr. si_methods si (sq_method (ss_requests y ! n)) = Some d
      \<and> md_Handler d = generated_handler new_in meth
      \<and> meth (si_serviceImpl si) Background (nrm (sq_args (ss_requests y ! n))) = (ProtoMessage out, herr)
      \<and> Server_Invoke_result (pe_pb w) r (ProtoMessage t) = Ret (call_result (nrm out) herr)"
    by blast
qed

subsection \<open>Concrete runs\<close>

text \<open>
  Two clients, of which only the first is honest.  In \<open>forged_run\<close> the server calls the first one; the
  second one answers with the id of this call before the first one does; the server finds no call with
  this id for the key of the second client and drops the answer.
\<close>

definition demo_peers :: "(unit, bytes) peers" where
  "demo_peers = \<lparr>pe_pb = sample_payload, pe_wire = sample_wire, pe_client = (\<lambda>_. ClientConn_register echo_service () demo_client),
     pe_honest = (\<lambda>key. key = key_of 1)\<rparr>"

definition demo_ctx :: go_ctx where
  "demo_ctx = peer_NewCallContext Background (key_of 1)"

definition forged_reply :: slice where
  "forged_reply = (case NewResponse sample_payload ''a'' (ProtoMessage [6]) None of
     Inr m \<Rightarrow> (case MarshalProtoMessage sample_wire (ProtoMessage m) of Inr b \<Rightarrow> b | Inl e \<Rightarrow> None) | Inl e \<Rightarrow> None)"

definition forged_run :: "bytes srv_rpc_event list" where
  "forged_run = [SS_Connect (key_of 1) demo_options example_config, SS_Connect (key_of 2) demo_options example_config,
     SS_Invoke demo_ctx ''a'' ''Echo'' [5], SS_Call (SC_Lookup 0 (Inr 0)), SS_Send 0 0 True,
     SS_Hostile 1 forged_reply, SS_Server 1 (ReadReturns forged_reply), SS_ServerRead 1, SS_Respond 0,
     SS_Client 0 (ReadReturns demo_request), SS_ClientRead 0, SS_Serve 0, SS_Reply 0 0 True,
     SS_Server 0 (ReadReturns demo_reply), SS_ServerRead 0, SS_Respond 0, SS_Call SC_Deliver]"

lemma forged_run_result:
  "case run_srv_rpc demo_peers forged_run quiet_server of
     Some (Ret y) \<Rightarrow> map sq_ctx (ss_requests y) = [demo_ctx]
       \<and> si_pc_of (ss_calls y) 0 = Some (SI_Returned (SGot (sent_response ''a'' (Some [5, 5]) None)))
   | _ \<Rightarrow> False"
  by code_simp

lemma demo_peers_simps [simp]:
  "pe_pb demo_peers = sample_payload" "pe_wire demo_peers = sample_wire" "pe_honest demo_peers key \<longleftrightarrow> key = key_of 1"
  "cc_service (pe_client demo_peers key) = Some (new_serviceInfo echo_service ())"
  by (simp_all add: demo_peers_def ClientConn_register_def)

lemma demo_peers_codec: "decodes (pe_wire demo_peers) norm_message" "decodes (pe_pb demo_peers) id"
  by (simp_all only: demo_peers_simps decodes_sample_wire decodes_sample_payload)

theorem server_calls_isolated_witness:
  "\<exists>y. run_srv_rpc demo_peers forged_run quiet_server = Some (Ret y) \<and> length (srv_served_for y 0) = 1
     \<and> (\<exists>r. si_pc_of (ss_calls y) 0 = Some (SI_Returned (SGot r)))"
proof -
  from forged_run_result obtain y r where y: "run_srv_rpc demo_peers forged_run quiet_server = Some (Ret y)"
    "map sq_ctx (ss_requests y) = [demo_ctx]" "si_pc_of (ss_calls y) 0 = Some (SI_Returned (SGot r))"
    by (auto split: option.splits go.splits)
  have n: "0 < length (ss_requests y)" using y(2) by auto
  have ctx: "peer_FromContext (sq_ctx (ss_requests y ! 0)) = Some \<lparr>peer_PublicKey = key_of 1\<rparr>"
    using y(2) n by (cases "ss_requests y") (simp_all add: demo_ctx_def go_simps)
  have honest: "pe_honest demo_peers (key_of 1)" by simp
  have "length (srv_served_for y 0) = 1"
    using server_calls_isolated [OF run_srv_rpc_reachable [OF srv_rpc_init y(1)] demo_peers_codec n ctx honest demo_peers_simps(4)
        demo_generated] y(3)
    by simp
  with y show ?thesis by blast
qed

end
