(* ===== verification/ServerEndToEndLive.thy ===== *)
theory ServerEndToEndLive
  imports ServerEndToEnd EndToEndLive
begin

text \<open>
  A call of a server can be completed whenever \<open>s.mu\<close> is free: the runs of \<open>ServerEndToEnd\<close> in which nothing
  fails, and how they take a new call to the client and its reply back.
\<close>

subsection \<open>Progress\<close>

text \<open>Events in which nothing fails, nobody gives up and no hostile client acts.\<close>

fun srv_orderly :: "'p srv_rpc_event \<Rightarrow> bool" where
  "srv_orderly (SS_Invoke ctx callID m args) = True"
| "srv_orderly (SS_Send n l ok) = ok"
| "srv_orderly (SS_Call e) = (case e of SC_Lookup n r \<Rightarrow> \<not> is_err r | SC_Deliver \<Rightarrow> True | _ \<Rightarrow> False)"
| "srv_orderly (SS_Client l e) = is_read e"
| "srv_orderly (SS_Server l e) = is_read e"
| "srv_orderly (SS_ClientRead l) = True"
| "srv_orderly (SS_Serve k) = True"
| "srv_orderly (SS_Reply k l ok) = ok"
| "srv_orderly (SS_ServerRead l) = True"
| "srv_orderly (SS_Respond j) = True"
| "srv_orderly _ = False"

abbreviation srv_orderly_run :: "('i, 'p) peers \<Rightarrow> 'p srv_system \<Rightarrow> 'p srv_system \<Rightarrow> bool" where
  "srv_orderly_run w \<equiv> runs_within (srv_rpc_step w) srv_orderly"

lemmas srv_orderly_step = runs_within_step [where step = "srv_rpc_step w" and good = srv_orderly] for w

lemma srv_orderly_inv: "srv_orderly_run w y y' \<Longrightarrow> srv_rpc_inv w y \<Longrightarrow> srv_rpc_inv w y'"
  by (erule runs_within_keeps [where P = "srv_rpc_inv w"]) (auto dest: srv_rpc_inv_step)
text \<open>
  What a client's reading from connection \<open>l\<close> does: the rest of the system stays, and each request
  taken gets a new handler.
\<close>

definition client_reads :: "nat \<Rightarrow> 'p srv_system \<Rightarrow> 'p srv_system \<Rightarrow> bool" where
  "client_reads l y y' \<longleftrightarrow>
     ss_calls y' = ss_calls y \<and> ss_requests y' = ss_requests y \<and> ss_keys y' = ss_keys y \<and> ss_responses y' = ss_responses y
     \<and> (\<exists>k. ss_links y' = (ss_links y)[l := k] \<and> live k \<and> ln_server k = ln_server (ss_links y ! l)
          \<and> ln_calls k = ln_calls (ss_links y ! l) \<and> tr_sent (ln_client k) = tr_sent (ln_client (ss_links y ! l))
          \<and> length (tr_delivered (ln_client (ss_links y ! l))) \<le> length (tr_delivered (ln_client k)))
     \<and> (\<exists>hs. ss_served y' = ss_served y @ hs \<and> (\<forall>h \<in> set hs. hd_pc h = HD_Serving)
          \<and> (\<forall>i n. length (tr_delivered (ln_client (ss_links y ! l))) \<le> i
               \<and> i < length (tr_delivered (ln_client (ss_links y' ! l))) \<and> call_at (ss_links y) l i = Some n
               \<longrightarrow> (l, i) \<in> origin ` set hs))"

lemma client_reads_trans:
  assumes "client_reads l y y1" "client_reads l y1 y2" "l < length (ss_links y)"
  shows "client_reads l y y2"
proof -
  from assms(1) obtain k hs where 1: "ss_links y1 = (ss_links y)[l := k]" "ln_calls k = ln_calls (ss_links y ! l)"
    "ln_server k = ln_server (ss_links y ! l)" "tr_sent (ln_client k) = tr_sent (ln_client (ss_links y ! l))"
    "length (tr_delivered (ln_client (ss_links y ! l))) \<le> length (tr_delivered (ln_client k))"
    "ss_served y1 = ss_served y @ hs" "\<forall>h \<in> set hs. hd_pc h = HD_Serving"
    "\<forall>i n. length (tr_delivered (ln_client (ss_links y ! l))) \<le> i
       \<and> i < length (tr_delivered (ln_client k)) \<and> call_at (ss_links y) l i = Some n \<longrightarrow> (l, i) \<in> origin ` set hs"
    by (auto simp: client_reads_def assms(3))
  from assms(2) obtain k' hs' where 2: "ss_links y2 = (ss_links y)[l := k']" "ln_calls k' = ln_calls k"
    "ln_server k' = ln_server k" "tr_sent (ln_client k') = tr_sent (ln_client k)" "live k'"
    "length (tr_delivered (ln_client k)) \<le> length (tr_delivered (ln_client k'))"
    "ss_served y2 = ss_served y1 @ hs'" "\<forall>h \<in> set hs'. hd_pc h = HD_Serving"
    "\<forall>i n. length (tr_delivered (ln_client k)) \<le> i
       \<and> i < length (tr_delivered (ln_client k')) \<and> call_at (ss_links y1) l i = Some n \<longrightarrow> (l, i) \<in> origin ` set hs'"
    by (auto simp: client_reads_def assms(3) 1(1))
  have at: "call_at (ss_links y1) l i = call_at (ss_links y) l i" for i
    using assms(3) by (simp add: 1(1,2) call_at_def)
  have "(l, i) \<in> origin ` set (hs @ hs')" if "length (tr_delivered (ln_client (ss_links y ! l))) \<le> i"
    "i < length (tr_delivered (ln_client k'))" "call_at (ss_links y) l i = Some n" for i n
    using that 1(8) 2(9) unfolding set_append image_Un
    by (cases "i < length (tr_delivered (ln_client k))") (simp_all add: at not_less del: image_iff)
  with 1 2 assms show ?thesis
    unfolding client_reads_def by (intro conjI exI [of _ k'] exI [of _ "hs @ hs'"]) (auto simp: client_reads_def)
qed

lemma client_read_once:
  assumes inv: "srv_rpc_inv w y" and codec: "decodes (pe_wire w) norm_message"
    and l: "l < length (ss_links y)" "live (ss_links y ! l)"
    and more: "length (tr_delivered (ln_client (ss_links y ! l))) < length (tr_sent (ln_server (ss_links y ! l)))"
  obtains y' where "srv_orderly_run w y y'" "client_reads l y y'"
    "ln_down (ss_links y' ! l) + length (tr_delivered (ln_client (ss_links y' ! l)))
       = Suc (ln_down (ss_links y ! l) + length (tr_delivered (ln_client (ss_links y ! l))))"
proof (cases "tr_readPump (ln_client (ss_links y ! l))")
  case RP_Reading
  let ?k = "ss_links y ! l"
  note old = srv_rpc_inv_linkD [OF inv l(1)]
  have "tr_delivered (ln_client ?k) = take (ln_down ?k) (tr_sent (ln_server ?k))"
    using old(1) RP_Reading by (simp add: link_ok_def in_hand_def)
  from arg_cong [OF this, of length] more have down: "ln_down ?k < length (tr_sent (ln_server ?k))" by simp
  let ?m = "tr_sent (ln_server ?k) ! ln_down ?k"
  let ?k' = "?k\<lparr>ln_client := (ln_client ?k)\<lparr>tr_readPump := RP_Sending ?m\<rparr>, ln_down := Suc (ln_down ?k)\<rparr>"
  let ?y = "y\<lparr>ss_links := (ss_links y)[l := ?k']\<rparr>"
  have "srv_rpc_step w (SS_Client l (ReadReturns ?m)) y = Some (Ret ?y)"
    using l(1) down RP_Reading by (simp add: by_itself_def link_client_def client_step_simps is_read_def)
  then have "srv_orderly_run w y ?y" by (rule srv_orderly_step) (simp add: is_read_def)
  moreover have "client_reads l y ?y"
    using l by (auto simp: client_reads_def live_def)
  ultimately show ?thesis using l(1) by (intro that [of ?y]) simp_all
next
  case (RP_Sending m)
  let ?k = "ss_links y ! l" and ?pos = "length (tr_delivered (ln_client (ss_links y ! l)))"
  note old = srv_rpc_inv_linkD [OF inv l(1)]
  let ?k' = "?k\<lparr>ln_client := (ln_client ?k)\<lparr>tr_readPump := RP_Reading, tr_delivered := tr_delivered (ln_client ?k) @ [m]\<rparr>\<rparr>"
  let ?y1 = "y\<lparr>ss_links := (ss_links y)[l := ?k']\<rparr>"
  have at: "link_client l ReaderTakes id y = Some (Ret ?y1)"
    using l(1) RP_Sending by (simp add: link_client_def client_step_simps)
  have m: "in_hand_msg (ln_client ?k) = m" using RP_Sending by (simp add: in_hand_msg_def)
  define hs where "hs = (case ClientConn_handleRead (pe_wire w) m of
      HandleRequest q \<Rightarrow> [\<lparr>hd_link = l, hd_pos = ?pos, hd_req = q, hd_pc = HD_Serving\<rparr>] | _ \<Rightarrow> [])"
  let ?y = "?y1\<lparr>ss_served := ss_served y @ hs\<rparr>"
  have "ssys_client_read w l y = Some (Ret ?y)"
    by (simp add: ssys_client_read_def at m hs_def split: dispatch.split)
  then have run: "srv_orderly_run w y ?y" by (intro srv_orderly_step [where e = "SS_ClientRead l"]) simp_all
  have prefix: "tr_delivered (ln_client ?k) @ [m] = take (ln_down ?k) (tr_sent (ln_server ?k))"
    using old(1) RP_Sending by (simp add: link_ok_def in_hand_def)
  have "(l, ?pos) \<in> origin ` set hs" if n: "call_at (ss_links y) l ?pos = Some n" for n
  proof -
    from n have i: "?pos < length (ln_calls ?k)" "ln_calls ?k ! ?pos = Some n" by (auto simp: call_at_def split: if_splits)
    from list_all2_nthD [OF old(2) i(1)] i(2) snoc_prefix(2) [OF prefix]
    have n: "n < length (ss_requests y)" "m = sq_request (ss_requests y ! n)" by (simp_all add: down_ok_def)
    have "srv_requests_ok w (ss_calls y) (ss_requests y)" using inv by (simp add: srv_rpc_inv_def)
    then obtain q where "ClientConn_handleRead (pe_wire w) m = HandleRequest q"
      unfolding n(2) by (rule request_of_srv_call [OF _ n(1) codec]) blast
    then show ?thesis by (simp add: hs_def origin_def)
  qed
  moreover have "\<forall>h \<in> set hs. hd_pc h = HD_Serving" by (auto simp: hs_def split: dispatch.splits)
  ultimately have "client_reads l y ?y"
    using l by (auto simp: client_reads_def live_def less_Suc_eq)
  with run l(1) show ?thesis by (intro that [of ?y]) simp_all
qed (use l(2) in \<open>simp_all add: live_def\<close>)

lemma client_read_to:
  assumes "srv_rpc_inv w y" "decodes (pe_wire w) norm_message" "l < length (ss_links y)" "live (ss_links y ! l)"
    and "p \<le> length (tr_sent (ln_server (ss_links y ! l)))"
  shows "\<exists>y'. srv_orderly_run w y y' \<and> client_reads l y y' \<and> p \<le> length (tr_delivered (ln_client (ss_links y' ! l)))"
  using assms
proof (induction "2 * length (tr_sent (ln_server (ss_links y ! l)))
    - (ln_down (ss_links y ! l) + length (tr_delivered (ln_client (ss_links y ! l))))" arbitrary: y rule: less_induct)
  case (less y)
  let ?k = "ss_links y ! l"
  show ?case
  proof (cases "p \<le> length (tr_delivered (ln_client ?k))")
    case True
    have "client_reads l y y"
      using less.prems(3,4) unfolding client_reads_def by (intro conjI exI [of _ ?k] exI [of _ "[]"]) auto
    with True show ?thesis by (intro exI [of _ y]) simp
  next
    case False
    then have "length (tr_delivered (ln_client ?k)) < length (tr_sent (ln_server ?k))" using less.prems(5) by simp
    then obtain y1 where y1: "srv_orderly_run w y y1" "client_reads l y y1"
      "ln_down (ss_links y1 ! l) + length (tr_delivered (ln_client (ss_links y1 ! l)))
         = Suc (ln_down ?k + length (tr_delivered (ln_client ?k)))"
      by (rule client_read_once [OF less.prems(1-4)])
    have inv: "srv_rpc_inv w y1" by (rule srv_orderly_inv [OF y1(1) less.prems(1)])
    from y1(2) less.prems(3) have l: "l < length (ss_links y1)" "live (ss_links y1 ! l)"
      "ln_server (ss_links y1 ! l) = ln_server ?k" by (auto simp: client_reads_def)
    have "link_ok ?k" using srv_rpc_inv_linkD [OF less.prems(1,3)] by blast
    then have "ln_down ?k + length (tr_delivered (ln_client ?k)) < 2 * length (tr_sent (ln_server ?k))"
      using False less.prems(5) by (simp add: link_ok_def)
    then have "2 * length (tr_sent (ln_server (ss_links y1 ! l))) - (ln_down (ss_links y1 ! l) + length (tr_delivered (ln_client (ss_links y1 ! l))))
        < 2 * length (tr_sent (ln_server ?k)) - (ln_down ?k + length (tr_delivered (ln_client ?k)))"
      unfolding l(3) y1(3) by (rule diff_less_mono2 [OF lessI])
    from less.hyps [OF this inv less.prems(2) l(1,2)] less.prems(5) obtain y2 where y2: "srv_orderly_run w y1 y2" "client_reads l y1 y2"
      "p \<le> length (tr_delivered (ln_client (ss_links y2 ! l)))" by (auto simp: l(3))
    from client_reads_trans [OF y1(2) y2(2) less.prems(3)] runs_within_trans [OF y1(1) y2(1)] y2(3) show ?thesis by blast
  qed
qed

text \<open>The same for the server's reading.\<close>

definition server_reads :: "('i, 'p) peers \<Rightarrow> nat \<Rightarrow> 'p srv_system \<Rightarrow> 'p srv_system \<Rightarrow> bool" where
  "server_reads w l y y' \<longleftrightarrow>
     ss_calls y' = ss_calls y \<and> ss_requests y' = ss_requests y \<and> ss_keys y' = ss_keys y \<and> ss_served y' = ss_served y
     \<and> (\<exists>k. ss_links y' = (ss_links y)[l := k] \<and> live k \<and> ln_client k = ln_client (ss_links y ! l)
          \<and> length (tr_delivered (ln_server (ss_links y ! l))) \<le> length (tr_delivered (ln_server k)))
     \<and> (\<exists>rs. ss_responses y' = ss_responses y @ rs
          \<and> (\<forall>i r. length (tr_delivered (ln_server (ss_links y ! l))) \<le> i
               \<and> i < length (tr_delivered (ln_server (ss_links y' ! l)))
               \<and> Server_handleRead (pe_wire w) (tr_sent (ln_client (ss_links y ! l)) ! i) = SrvHandleResponse r
               \<longrightarrow> (ss_keys y ! l, r) \<in> set rs))"

lemma server_reads_trans:
  assumes "server_reads w l y y1" "server_reads w l y1 y2" "l < length (ss_links y)"
  shows "server_reads w l y y2"
proof -
  from assms(1) obtain k rs where 1: "ss_links y1 = (ss_links y)[l := k]" "ln_client k = ln_client (ss_links y ! l)"
    "length (tr_delivered (ln_server (ss_links y ! l))) \<le> length (tr_delivered (ln_server k))"
    "ss_responses y1 = ss_responses y @ rs" "ss_keys y1 = ss_keys y"
    "\<forall>i r. length (tr_delivered (ln_server (ss_links y ! l))) \<le> i \<and> i < length (tr_delivered (ln_server k))
       \<and> Server_handleRead (pe_wire w) (tr_sent (ln_client (ss_links y ! l)) ! i) = SrvHandleResponse r \<longrightarrow> (ss_keys y ! l, r) \<in> set rs"
    by (auto simp: server_reads_def assms(3))
  from assms(2) obtain k' rs' where 2: "ss_links y2 = (ss_links y)[l := k']" "ln_client k' = ln_client k" "live k'"
    "length (tr_delivered (ln_server k)) \<le> length (tr_delivered (ln_server k'))"
    "ss_responses y2 = ss_responses y1 @ rs'"
    "\<forall>i r. length (tr_delivered (ln_server k)) \<le> i \<and> i < length (tr_delivered (ln_server k'))
       \<and> Server_handleRead (pe_wire w) (tr_sent (ln_client k) ! i) = SrvHandleResponse r \<longrightarrow> (ss_keys y ! l, r) \<in> set rs'"
    by (auto simp: server_reads_def assms(3) 1(1,5))
  have k2: "ss_links y2 ! l = k'" using assms(3) by (simp add: 2(1))
  have "(ss_keys y ! l, r) \<in> set (rs @ rs')" if "length (tr_delivered (ln_server (ss_links y ! l))) \<le> i"
    "i < length (tr_delivered (ln_server k'))"
    "Server_handleRead (pe_wire w) (tr_sent (ln_client (ss_links y ! l)) ! i) = SrvHandleResponse r" for i r
    using that 1(6) 2(6) by (cases "i < length (tr_delivered (ln_server k))") (simp_all add: 1(2) not_less)
  then have new: "\<forall>i r. length (tr_delivered (ln_server (ss_links y ! l))) \<le> i
      \<and> i < length (tr_delivered (ln_server (ss_links y2 ! l)))
      \<and> Server_handleRead (pe_wire w) (tr_sent (ln_client (ss_links y ! l)) ! i) = SrvHandleResponse r
      \<longrightarrow> (ss_keys y ! l, r) \<in> set (rs @ rs')"
    unfolding k2 by blast
  have same: "ss_calls y2 = ss_calls y" "ss_requests y2 = ss_requests y" "ss_keys y2 = ss_keys y" "ss_served y2 = ss_served y"
    using assms(1,2) by (simp_all add: server_reads_def)
  have "\<exists>k. ss_links y2 = (ss_links y)[l := k] \<and> live k \<and> ln_client k = ln_client (ss_links y ! l)
      \<and> length (tr_delivered (ln_server (ss_links y ! l))) \<le> length (tr_delivered (ln_server k))"
    using 1 2 by (intro exI [of _ k']) simp
  moreover have "ss_responses y2 = ss_responses y @ rs @ rs'" using 1(4) 2(5) by simp
  ultimately show ?thesis using new same unfolding server_reads_def by (intro conjI exI [of _ "rs @ rs'"]) simp_all
qed

lemma server_read_once:
  assumes inv: "srv_rpc_inv w y" and l: "l < length (ss_links y)" "live (ss_links y ! l)"
    and more: "length (tr_delivered (ln_server (ss_links y ! l))) < length (tr_sent (ln_client (ss_links y ! l)))"
  obtains y' where "srv_orderly_run w y y'" "server_reads w l y y'"
    "ln_up (ss_links y' ! l) + length (tr_delivered (ln_server (ss_links y' ! l)))
       = Suc (ln_up (ss_links y ! l) + length (tr_delivered (ln_server (ss_links y ! l))))"
proof (cases "tr_readPump (ln_server (ss_links y ! l))")
  case RP_Reading
  let ?k = "ss_links y ! l"
  note old = srv_rpc_inv_linkD [OF inv l(1)]
  have "tr_delivered (ln_server ?k) = take (ln_up ?k) (tr_sent (ln_client ?k))"
    using old(1) RP_Reading by (simp add: link_ok_def in_hand_def)
  from arg_cong [OF this, of length] more have up: "ln_up ?k < length (tr_sent (ln_client ?k))" by simp
  let ?m = "tr_sent (ln_client ?k) ! ln_up ?k"
  let ?k' = "?k\<lparr>ln_server := (ln_server ?k)\<lparr>tr_readPump := RP_Sending ?m\<rparr>, ln_up := Suc (ln_up ?k)\<rparr>"
  let ?y = "y\<lparr>ss_links := (ss_links y)[l := ?k']\<rparr>"
  have "srv_rpc_step w (SS_Server l (ReadReturns ?m)) y = Some (Ret ?y)"
    using l(1) up RP_Reading by (simp add: by_itself_def link_server_def server_step_simps is_read_def)
  then have "srv_orderly_run w y ?y" by (rule srv_orderly_step) (simp add: is_read_def)
  moreover have "server_reads w l y ?y"
    using l by (auto simp: server_reads_def live_def)
  ultimately show ?thesis using l(1) by (intro that [of ?y]) simp_all
next
  case (RP_Sending m)
  let ?k = "ss_links y ! l" and ?pos = "length (tr_delivered (ln_server (ss_links y ! l)))"
  note old = srv_rpc_inv_linkD [OF inv l(1)]
  let ?k' = "?k\<lparr>ln_server := (ln_server ?k)\<lparr>tr_readPump := RP_Reading, tr_delivered := tr_delivered (ln_server ?k) @ [m]\<rparr>\<rparr>"
  let ?y1 = "y\<lparr>ss_links := (ss_links y)[l := ?k']\<rparr>"
  have at: "link_server l ReaderTakes id y = Some (Ret ?y1)"
    using l(1) RP_Sending by (simp add: link_server_def server_step_simps)
  have m: "in_hand_msg (ln_server ?k) = m" using RP_Sending by (simp add: in_hand_msg_def)
  define rs where "rs = (case Server_handleRead (pe_wire w) m of SrvHandleResponse r \<Rightarrow> [(ss_keys y ! l, r)] | _ \<Rightarrow> [])"
  let ?y = "?y1\<lparr>ss_responses := ss_responses y @ rs\<rparr>"
  have "ssys_server_read w l y = Some (Ret ?y)"
    by (simp add: ssys_server_read_def at m rs_def split: srv_dispatch.split)
  then have run: "srv_orderly_run w y ?y" by (intro srv_orderly_step [where e = "SS_ServerRead l"]) simp_all
  have prefix: "tr_delivered (ln_server ?k) @ [m] = take (ln_up ?k) (tr_sent (ln_client ?k))"
    using old(1) RP_Sending by (simp add: link_ok_def in_hand_def)
  have "(ss_keys y ! l, r) \<in> set rs" if "Server_handleRead (pe_wire w) (tr_sent (ln_client ?k) ! ?pos) = SrvHandleResponse r" for r
    using that snoc_prefix(2) [OF prefix] by (simp add: rs_def)
  then have "server_reads w l y ?y"
    using l by (auto simp: server_reads_def live_def less_Suc_eq)
  with run l(1) show ?thesis by (intro that [of ?y]) simp_all
qed (use l(2) in \<open>simp_all add: live_def\<close>)

lemma server_read_to:
  assumes "srv_rpc_inv w y" "l < length (ss_links y)" "live (ss_links y ! l)"
    and "p \<le> length (tr_sent (ln_client (ss_links y ! l)))"
  shows "\<exists>y'. srv_orderly_run w y y' \<and> server_reads w l y y' \<and> p \<le> length (tr_delivered (ln_server (ss_links y' ! l)))"
  using assms
proof (induction "2 * length (tr_sent (ln_client (ss_links y ! l)))
    - (ln_up (ss_links y ! l) + length (tr_delivered (ln_server (ss_links y ! l))))" arbitrary: y rule: less_induct)
  case (less y)
  let ?k = "ss_links y ! l"
  show ?case
  proof (cases "p \<le> length (tr_delivered (ln_server ?k))")
    case True
    have "server_reads w l y y"
      using less.prems(2,3) unfolding server_reads_def by (intro conjI exI [of _ ?k] exI [of _ "[]"]) auto
    with True show ?thesis by (intro exI [of _ y]) simp
  next
    case False
    then have "length (tr_delivered (ln_server ?k)) < length (tr_sent (ln_client ?k))" using less.prems(4) by simp
    then obtain y1 where y1: "srv_orderly_run w y y1" "server_reads w l y y1"
      "ln_up (ss_links y1 ! l) + length (tr_delivered (ln_server (ss_links y1 ! l)))
         = Suc (ln_up ?k + length (tr_delivered (ln_server ?k)))"
      by (rule server_read_once [OF less.prems(1-3)])
    have inv: "srv_rpc_inv w y1" by (rule srv_orderly_inv [OF y1(1) less.prems(1)])
    from y1(2) less.prems(2) have l: "l < length (ss_links y1)" "live (ss_links y1 ! l)"
      "ln_client (ss_links y1 ! l) = ln_client ?k" by (auto simp: server_reads_def)
    have "link_ok ?k" using srv_rpc_inv_linkD [OF less.prems(1,2)] by blast
    then have "ln_up ?k + length (tr_delivered (ln_server ?k)) < 2 * length (tr_sent (ln_client ?k))"
      using False less.prems(4) by (simp add: link_ok_def)
    then have "2 * length (tr_sent (ln_client (ss_links y1 ! l))) - (ln_up (ss_links y1 ! l) + length (tr_delivered (ln_server (ss_links y1 ! l))))
        < 2 * length (tr_sent (ln_client ?k)) - (ln_up ?k + length (tr_delivered (ln_server ?k)))"
      unfolding l(3) y1(3) by (rule diff_less_mono2 [OF lessI])
    from less.hyps [OF this inv l(1,2)] less.prems(4) obtain y2 where y2: "srv_orderly_run w y1 y2" "server_reads w l y1 y2"
      "p \<le> length (tr_delivered (ln_server (ss_links y2 ! l)))" by (auto simp: l(3))
    from server_reads_trans [OF y1(2) y2(2) less.prems(2)] runs_within_trans [OF y1(1) y2(1)] y2(3) show ?thesis by blast
  qed
qed

lemma srv_request_sent:
  assumes inv: "srv_rpc_inv w y" and l: "l < length (ss_links y)" "live (ss_links y ! l)"
    and id: "callID \<notin> si_id ` set (sc_invs (ss_calls y))" and mu: "sc_mu (ss_calls y) = None"
    and req: "Server_Invoke_request (pe_pb w) (pe_wire w) ctx callID m (ProtoMessage args) = Inr (ss_keys y ! l, reqB)"
  obtains y' where "srv_orderly_run w y y'" "ss_served y' = ss_served y" "ss_keys y' = ss_keys y"
    "ss_requests y' = ss_requests y @ [\<lparr>sq_ctx = ctx, sq_method = m, sq_args = args, sq_request = reqB\<rparr>]"
    "ss_links y' = (ss_links y)[l := (ss_links y ! l)
       \<lparr>ln_server := (ln_server (ss_links y ! l))\<lparr>tr_sent := tr_sent (ln_server (ss_links y ! l)) @ [reqB]\<rparr>,
        ln_calls := ln_calls (ss_links y ! l) @ [Some (length (ss_requests y))]\<rparr>]"
    "sc_mu (ss_calls y') = None" "si_pc_of (ss_calls y') (length (ss_requests y)) = Some SI_Waiting"
    "si_id (sc_invs (ss_calls y') ! length (ss_requests y)) = callID"
    "si_key (sc_invs (ss_calls y') ! length (ss_requests y)) = ss_keys y ! l"
proof -
  let ?n = "length (ss_requests y)" and ?k = "ss_links y ! l" and ?key = "ss_keys y ! l"
  let ?rc = "\<lparr>sq_ctx = ctx, sq_method = m, sq_args = args, sq_request = reqB\<rparr>"
  have len: "length (sc_invs (ss_calls y)) = ?n" using inv by (simp add: srv_rpc_inv_def srv_requests_ok_def)
  obtain c where c: "srv_call_step (SC_Register ?key callID) (ss_calls y) = Some c" and mu1: "sc_mu c = None"
    and iv: "sc_invs c = sc_invs (ss_calls y) @ [\<lparr>si_key = ?key, si_id = callID, si_ctx_done = False, si_pc = SI_Registered\<rparr>]"
    using id mu by (auto simp: Server_Invoke_register_def)
  let ?y1 = "y\<lparr>ss_calls := c, ss_requests := ss_requests y @ [?rc]\<rparr>"
  have 1: "srv_rpc_step w (SS_Invoke ctx callID m args) y = Some (Ret ?y1)"
    using c by (simp add: ssys_invoke_def req srv_calls_to_def)
  let ?c1 = "set_si_pc ?n SI_Writing c" and ?c2 = "set_si_pc ?n SI_Waiting (set_si_pc ?n SI_Writing c)"
  have pc: "si_pc_of c ?n = Some SI_Registered" "si_pc_of ?c1 ?n = Some SI_Writing" "si_pc_of ?c2 ?n = Some SI_Waiting"
    by (simp_all add: si_pc_of_def set_si_pc_def iv len nth_append)
  have names: "si_id (sc_invs ?c2 ! ?n) = callID" "si_key (sc_invs ?c2 ! ?n) = ?key" "si_key (sc_invs ?c1 ! ?n) = ?key"
    and mu2: "sc_mu ?c2 = None"
    by (simp_all add: set_si_pc_def iv len nth_append mu1)
  have 2: "srv_rpc_step w (SS_Call (SC_Lookup ?n (Inr 0))) ?y1 = Some (Ret (?y1\<lparr>ss_calls := ?c1\<rparr>))"
    using pc(1) mu1 by (simp add: srv_calls_to_def sendMsg_lookup_def)
  let ?k2 = "?k\<lparr>ln_server := (ln_server ?k)\<lparr>tr_sent := tr_sent (ln_server ?k) @ [reqB]\<rparr>, ln_calls := ln_calls ?k @ [Some ?n]\<rparr>"
  let ?y2 = "?y1\<lparr>ss_calls := ?c2, ss_links := (ss_links y)[l := ?k2]\<rparr>"
  have 3: "srv_rpc_step w (SS_Send ?n l True) (?y1\<lparr>ss_calls := ?c1\<rparr>) = Some (Ret ?y2)"
    using pc(2) l names(3)
    by (simp add: ssys_send_def srv_calls_to_def sendMsg_write_def link_server_def server_step_simps live_def nth_append)
  have "srv_orderly_run w y ?y2"
    by (rule runs_within_trans [OF runs_within_trans [OF srv_orderly_step [OF 1] srv_orderly_step [OF 2]] srv_orderly_step [OF 3]])
      simp_all
  then show ?thesis by (rule that) (use pc(3) names mu2 in simp_all)
qed

lemma srv_request_served:
  assumes inv: "srv_rpc_inv w y" and codec: "decodes (pe_wire w) norm_message"
    and l: "l < length (ss_links y)" "live (ss_links y ! l)"
    and id: "callID \<notin> si_id ` set (sc_invs (ss_calls y))" and mu: "sc_mu (ss_calls y) = None"
    and req: "Server_Invoke_request (pe_pb w) (pe_wire w) ctx callID m (ProtoMessage args) = Inr (ss_keys y ! l, reqB)"
  obtains y' j payload where "srv_orderly_run w y y'" "l < length (ss_links y')" "live (ss_links y' ! l)"
    "ss_keys y' = ss_keys y" "sc_mu (ss_calls y') = None"
    "si_pc_of (ss_calls y') (length (ss_requests y)) = Some SI_Waiting"
    "si_id (sc_invs (ss_calls y') ! length (ss_requests y)) = callID"
    "si_key (sc_invs (ss_calls y') ! length (ss_requests y)) = ss_keys y ! l"
    "j < length (ss_served y')" "hd_pc (ss_served y' ! j) = HD_Serving" "hd_link (ss_served y' ! j) = l"
    "hd_req (ss_served y' ! j) = sent_request callID m payload" "pb_marshal (pe_pb w) args = Inr payload"
proof -
  let ?n = "length (ss_requests y)" and ?k = "ss_links y ! l"
  obtain y2 where run: "srv_orderly_run w y y2" and y2: "ss_served y2 = ss_served y" "ss_keys y2 = ss_keys y"
    "ss_requests y2 = ss_requests y @ [\<lparr>sq_ctx = ctx, sq_method = m, sq_args = args, sq_request = reqB\<rparr>]"
    "ss_links y2 = (ss_links y)[l := ?k\<lparr>ln_server := (ln_server ?k)\<lparr>tr_sent := tr_sent (ln_server ?k) @ [reqB]\<rparr>,
        ln_calls := ln_calls ?k @ [Some ?n]\<rparr>]"
    and waiting: "sc_mu (ss_calls y2) = None" "si_pc_of (ss_calls y2) ?n = Some SI_Waiting"
      "si_id (sc_invs (ss_calls y2) ! ?n) = callID" "si_key (sc_invs (ss_calls y2) ! ?n) = ss_keys y ! l"
    by (rule srv_request_sent [OF inv l id mu req])
  note old = srv_rpc_inv_linkD [OF inv l(1)]
  have inv2: "srv_rpc_inv w y2" by (rule srv_orderly_inv [OF run inv])
  let ?pos = "length (tr_sent (ln_server ?k))"
  have l2: "l < length (ss_links y2)" "live (ss_links y2 ! l)" using l by (simp_all add: y2(4) live_def)
  have "Suc ?pos \<le> length (tr_sent (ln_server (ss_links y2 ! l)))" using l(1) by (simp add: y2(4))
  from client_read_to [OF inv2 codec l2 this] obtain y3 where y3: "srv_orderly_run w y2 y3" "client_reads l y2 y3"
    "Suc ?pos \<le> length (tr_delivered (ln_client (ss_links y3 ! l)))" by blast
  from y3(2) obtain k3 hs where k3: "ss_links y3 = (ss_links y)[l := k3]" "live k3" "ln_calls k3 = ln_calls ?k @ [Some ?n]"
    and same: "ss_calls y3 = ss_calls y2" "ss_requests y3 = ss_requests y2" "ss_keys y3 = ss_keys y"
    and hs: "ss_served y3 = ss_served y @ hs" "\<forall>h \<in> set hs. hd_pc h = HD_Serving"
      "\<forall>i n. length (tr_delivered (ln_client ?k)) \<le> i \<and> i < length (tr_delivered (ln_client (ss_links y3 ! l)))
         \<and> call_at (ss_links y2) l i = Some n \<longrightarrow> (l, i) \<in> origin ` set hs"
    using l(1) by (auto simp: client_reads_def y2)
  have calls: "length (ln_calls ?k) = ?pos" using list_all2_lengthD [OF old(2)] .
  then have "call_at (ss_links y2) l ?pos = Some ?n" using l(1) by (simp add: call_at_def y2(4) nth_append)
  then have "(l, ?pos) \<in> origin ` set hs" using hs(3) y3(3) delivered_le [OF old(1)] by auto
  then obtain h where h: "h \<in> set hs" "hd_link h = l" "hd_pos h = ?pos" by (auto simp: origin_def)
  then have "h \<in> set (ss_served y3)" by (simp add: hs(1))
  then obtain j where j: "j < length (ss_served y3)" "ss_served y3 ! j = h" by (auto simp: in_set_conv_nth)
  obtain n' payload where n': "call_at (ss_links y3) l ?pos = Some n'"
    "pb_marshal (pe_pb w) (sq_args (ss_requests y3 ! n')) = Inr payload"
    "hd_req h = sent_request (si_id (sc_invs (ss_calls y3) ! n')) (sq_method (ss_requests y3 ! n')) payload"
    using srv_handler_call [OF srv_orderly_inv [OF y3(1) inv2] codec \<open>h \<in> set (ss_served y3)\<close>] h(2,3) by metis
  have "n' = ?n" using n'(1) l(1) calls by (simp add: call_at_def k3 nth_append)
  have h3: "hd_pc (ss_served y3 ! j) = HD_Serving" "hd_req (ss_served y3 ! j) = sent_request callID m payload"
    "pb_marshal (pe_pb w) args = Inr payload" "hd_link (ss_served y3 ! j) = l"
    using hs(2) h(1,2) n'(2,3) waiting(3) unfolding j(2) \<open>n' = ?n\<close> same y2(3) by (simp_all add: nth_append)
  show ?thesis
    by (rule that [OF runs_within_trans [OF run y3(1)] _ _ same(3) _ _ _ _ j(1) h3(1,4,2,3)])
      (use k3 l(1) same(1) waiting in simp_all)
qed

lemma srv_handler_replies:
  assumes inv: "srv_rpc_inv w y" and l: "l < length (ss_links y)" "live (ss_links y ! l)"
    and j: "j < length (ss_served y)" "hd_pc (ss_served y ! j) = HD_Serving" "hd_link (ss_served y ! j) = l"
    and b: "ClientConn_handleMessageRequest (pe_pb w) (pe_wire w) (pe_client w (ss_keys y ! l)) (hd_req (ss_served y ! j)) = Ret (Some b)"
    and r: "Server_handleRead (pe_wire w) b = SrvHandleResponse r"
  obtains y' i where "srv_orderly_run w y y'" "ss_calls y' = ss_calls y"
    "i < length (ss_responses y')" "ss_responses y' ! i = (ss_keys y ! l, r)"
proof -
  let ?k = "ss_links y ! l" and ?y1 = "move_handler j (HD_Replying b) y"
  have 1: "srv_rpc_step w (SS_Serve j) y = Some (Ret ?y1)" using j b by (simp add: ssys_serve_def)
  let ?k2 = "?k\<lparr>ln_client := (ln_client ?k)\<lparr>tr_sent := tr_sent (ln_client ?k) @ [b]\<rparr>\<rparr>"
  let ?y2 = "(move_handler j (HD_Replied b) ?y1)\<lparr>ss_links := (ss_links y)[l := ?k2]\<rparr>"
  have 2: "srv_rpc_step w (SS_Reply j l True) ?y1 = Some (Ret ?y2)"
    using j(1,3) l by (simp add: ssys_reply_def move_handler_def link_client_def client_step_simps live_def)
  have run: "srv_orderly_run w y ?y2"
    by (rule runs_within_trans [OF srv_orderly_step [OF 1] srv_orderly_step [OF 2]]) simp_all
  have inv2: "srv_rpc_inv w ?y2" by (rule srv_orderly_inv [OF run inv])
  have l2: "l < length (ss_links ?y2)" "live (ss_links ?y2 ! l)" using l by (simp_all add: live_def)
  let ?pos = "length (tr_sent (ln_client ?k))"
  have "Suc ?pos \<le> length (tr_sent (ln_client (ss_links ?y2 ! l)))" using l(1) by simp
  from server_read_to [OF inv2 l2 this] obtain y3 where y3: "srv_orderly_run w ?y2 y3" "server_reads w l ?y2 y3"
    "Suc ?pos \<le> length (tr_delivered (ln_server (ss_links y3 ! l)))" by blast
  have old: "link_ok ?k" using srv_rpc_inv_linkD [OF inv l(1)] by blast
  then have le: "length (tr_delivered (ln_server ?k)) \<le> ?pos" by (rule delivered_le)
  from y3(2) obtain rs where same: "ss_calls y3 = ss_calls y"
    and rs: "ss_responses y3 = ss_responses y @ rs"
      "\<forall>i r. length (tr_delivered (ln_server ?k)) \<le> i \<and> i < length (tr_delivered (ln_server (ss_links y3 ! l)))
         \<and> Server_handleRead (pe_wire w) (tr_sent (ln_client ?k2) ! i) = SrvHandleResponse r \<longrightarrow> (ss_keys y ! l, r) \<in> set rs"
    using l(1) by (auto simp: server_reads_def move_handler_def)
  have "(ss_keys y ! l, r) \<in> set rs" by (rule rs(2) [rule_format, of ?pos]) (use le y3(3) r in \<open>auto simp: nth_append\<close>)
  then obtain i where "i < length (ss_responses y3)" "ss_responses y3 ! i = (ss_keys y ! l, r)"
    unfolding rs(1) by (metis Un_iff in_set_conv_nth set_append)
  with runs_within_trans [OF run y3(1)] same show ?thesis by (intro that) simp_all
qed

lemma srv_response_returns:
  assumes inv: "srv_rpc_inv w y" and i: "i < length (ss_responses y)" "ss_responses y ! i = (si_key (sc_invs (ss_calls y) ! n), r)"
    and n: "sc_mu (ss_calls y) = None" "si_pc_of (ss_calls y) n = Some SI_Waiting"
      "Response_GetCallId r = si_id (sc_invs (ss_calls y) ! n)"
  obtains y' where "srv_orderly_run w y y'" "si_pc_of (ss_calls y') n = Some (SI_Returned (SGot r))"
proof -
  let ?s = "ss_calls y"
  have "srv_calls_inv ?s" using inv by (simp add: srv_rpc_inv_def srv_requests_ok_def)
  from server_response_ends_call [OF this n] obtain s' where
    run: "run_srv_calls [SC_Arrive (si_key (sc_invs ?s ! n)) r, SC_Deliver] ?s = Some s'"
    and pc: "si_pc_of s' n = Some (SI_Returned (SGot r))" by blast
  from run obtain s1 where s: "srv_call_step (SC_Arrive (si_key (sc_invs ?s ! n)) r) ?s = Some s1"
    "srv_call_step SC_Deliver s1 = Some s'"
    by (auto split: option.splits)
  let ?y1 = "y\<lparr>ss_calls := s1, ss_responses := take i (ss_responses y) @ drop (Suc i) (ss_responses y)\<rparr>"
  have 1: "srv_rpc_step w (SS_Respond i) y = Some (Ret ?y1)" using i s(1) by (simp add: ssys_respond_def srv_calls_to_def)
  have 2: "srv_rpc_step w (SS_Call SC_Deliver) ?y1 = Some (Ret (?y1\<lparr>ss_calls := s'\<rparr>))"
    using s(2) by (simp add: srv_calls_to_def)
  have "srv_orderly_run w y (?y1\<lparr>ss_calls := s'\<rparr>)"
    by (rule runs_within_trans [OF srv_orderly_step [OF 1] srv_orderly_step [OF 2]]) simp_all
  then show ?thesis by (rule that) (simp add: pc)
qed



end
