(* ===== verification/Keepalive.thy ===== *)
theory Keepalive
  imports Transport
begin

text \<open>
  How long a connection lives: the read deadline of \<open>readPump\<close> and \<open>handlePong\<close>, and the pings of
  \<open>writePump\<close>.  In \<open>Transport\<close> a deadline may pass at any time; here the events of a transport have
  times, in nanoseconds, and a read fails with a time-out only after its deadline.
  \<open>gorilla/websocket\<close> calls the handler of a pong from within \<open>ReadMessage\<close>, so no pong is handled
  while the read pump holds a message.
\<close>

subsection \<open>Pumps with a clock\<close>

text \<open>\<open>Pong\<close>: \<open>ReadMessage\<close> meets a pong.  \<open>ReadTimeout\<close>: it fails because the deadline has passed.\<close>

datatype timed_event = Pong | ReadTimeout | Pump pump_event

record 't timed =
  td_deadline :: int
  td_tr :: 't

definition handlePong :: "int \<Rightarrow> 't timed \<Rightarrow> 't timed" where
  "handlePong now s = s\<lparr>td_deadline := now + sint pongWait\<rparr>"

text \<open>The start of \<open>readPump\<close>.\<close>

definition readPump_deadline :: "int \<Rightarrow> 't \<Rightarrow> 't timed" where
  "readPump_deadline now tr = \<lparr>td_deadline = now + sint pongWait, td_tr = tr\<rparr>"

definition timed_step ::
  "('a transport_scheme \<Rightarrow> pump_event \<Rightarrow> 'a transport_scheme go option)
    \<Rightarrow> int \<Rightarrow> timed_event \<Rightarrow> 'a transport_scheme timed \<Rightarrow> 'a transport_scheme timed go option"
where
  "timed_step step now ev s =
     (let untimed = (\<lambda>e. map_option (\<lambda>r. go_bind r (\<lambda>tr. Ret (s\<lparr>td_tr := tr\<rparr>))) (step (td_tr s) e))
      in case ev of
           Pong \<Rightarrow> if tr_readPump (td_tr s) = RP_Reading then Some (Ret (handlePong now s)) else None
         | ReadTimeout \<Rightarrow> if td_deadline s < now then untimed ReadFails else None
         | Pump e \<Rightarrow> untimed e)"

fun run_timed ::
  "('a transport_scheme \<Rightarrow> pump_event \<Rightarrow> 'a transport_scheme go option)
    \<Rightarrow> (int \<times> timed_event) list \<Rightarrow> 'a transport_scheme timed \<Rightarrow> 'a transport_scheme timed go option"
where
  "run_timed step [] s = Some (Ret s)"
| "run_timed step ((now, ev) # es) s =
     (case timed_step step now ev s of
        None \<Rightarrow> None
      | Some (Panic p) \<Rightarrow> Some (Panic p)
      | Some (Ret s1) \<Rightarrow> run_timed step es s1)"

text \<open>The pings: the ticker of a \<open>writePump\<close> that has started at time \<open>start\<close>.\<close>

definition ping_time :: "int \<Rightarrow> nat \<Rightarrow> int" where
  "ping_time start k = start + (int k + 1) * sint pingPeriod"

lemma keepalive_constants:
  "sint pongWait = 20000000000" "sint pingPeriod = 18000000000"
  by (simp_all add: pongWait_def pingPeriod_def Second_def)

subsection \<open>Timed runs are runs\<close>

fun untimed :: "timed_event \<Rightarrow> pump_event list" where
  "untimed Pong = []"
| "untimed ReadTimeout = [ReadFails]"
| "untimed (Pump e) = [e]"

lemma timed_step_untimed:
  "timed_step step now ev s = Some (Ret s') \<Longrightarrow> run_pump step (untimed ev) (td_tr s) = Some (Ret (td_tr s'))"
  by (cases ev) (auto simp: timed_step_def Let_def handlePong_def split: if_splits)

lemma run_timed_untimed:
  "run_timed step es s = Some (Ret s') \<Longrightarrow>
     run_pump step (concat (map (untimed \<circ> snd) es)) (td_tr s) = Some (Ret (td_tr s'))"
proof (induction es arbitrary: s)
  case (Cons e es)
  obtain now ev where e: "e = (now, ev)" by (cases e)
  with Cons.prems obtain s1 where "timed_step step now ev s = Some (Ret s1)" "run_timed step es s1 = Some (Ret s')"
    by (auto split: option.splits go.splits)
  then have "run_pump step (untimed ev) (td_tr s) = Some (Ret (td_tr s1))"
    "run_pump step (concat (map (untimed \<circ> snd) es)) (td_tr s1) = Some (Ret (td_tr s'))"
    by (blast intro: timed_step_untimed, blast intro: Cons.IH)
  then show ?case by (simp add: e run_steps_append comp_def)
qed simp

subsection \<open>Answered pings keep a connection\<close>

lemma timed_step_deadline:
  "timed_step step now ev s = Some (Ret s') \<Longrightarrow>
     td_deadline s' = (if ev = Pong then now + sint pongWait else td_deadline s)"
  by (cases ev) (auto simp: timed_step_def Let_def handlePong_def split: if_splits)

text \<open>A time-out needs a gap of more than \<open>pongWait\<close> without a pong, at the start or after a pong.\<close>

lemma timeout_gap:
  assumes "run_timed step es s = Some (Ret r)" "(\<tau>, ReadTimeout) \<in> set es" "sorted (map fst es)"
  shows "\<exists>d < \<tau>. (d = td_deadline s \<or> (\<exists>p. (p, Pong) \<in> set es \<and> d = p + sint pongWait))
    \<and> (\<forall>p. (p, Pong) \<in> set es \<longrightarrow> p < \<tau> \<longrightarrow> p + sint pongWait \<le> d)"
  using assms
proof (induction es arbitrary: s)
  case (Cons e es)
  obtain now ev where e: "e = (now, ev)" by (cases e)
  from Cons.prems(1) obtain s1 where s1: "timed_step step now ev s = Some (Ret s1)" "run_timed step es s1 = Some (Ret r)"
    by (auto simp: e split: option.splits go.splits)
  have later: "now \<le> t" if "(t, x) \<in> set es" for t x using Cons.prems(3) that by (force simp: e)
  show ?case
  proof (cases "ev = ReadTimeout \<and> now = \<tau>")
    case True
    with s1(1) have "td_deadline s < \<tau>" by (auto simp: timed_step_def split: if_splits)
    moreover have "\<not> p < \<tau>" if "(p, Pong) \<in> set (e # es)" for p using that later True by (force simp: e)
    ultimately show ?thesis by blast
  next
    case False
    with Cons.prems(2) have "(\<tau>, ReadTimeout) \<in> set es" by (auto simp: e)
    from Cons.IH [OF s1(2) this] Cons.prems(3) obtain d where d: "d < \<tau>"
      "d = td_deadline s1 \<or> (\<exists>p. (p, Pong) \<in> set es \<and> d = p + sint pongWait)"
      "\<And>p. (p, Pong) \<in> set es \<Longrightarrow> p < \<tau> \<Longrightarrow> p + sint pongWait \<le> d"
      by (auto simp: e)
    show ?thesis
    proof (intro exI [of _ d] conjI allI impI)
      show "d = td_deadline s \<or> (\<exists>p. (p, Pong) \<in> set (e # es) \<and> d = p + sint pongWait)"
        using d(2) timed_step_deadline [OF s1(1)] by (auto simp: e split: if_splits)
      fix p
      assume p: "(p, Pong) \<in> set (e # es)" "p < \<tau>"
      show "p + sint pongWait \<le> d"
      proof (cases "(p, Pong) \<in> set es")
        case False
        with p(1) have "p = now" "ev = Pong" by (auto simp: e)
        with d(2) timed_step_deadline [OF s1(1)] later show ?thesis by auto
      qed (use d(3) p in blast)
    qed (rule d(1))
  qed
qed simp

lemma no_timeout:
  assumes run: "run_timed step es (readPump_deadline t0 tr) = Some (Ret r)"
    and sorted: "sorted (map fst es)" and from_t0: "\<forall>(t, ev) \<in> set es. t0 \<le> t"
    and delay: "0 \<le> delay" "delay \<le> sint pongWait - sint pingPeriod" "s0 + sint pingPeriod + delay \<le> t0 + sint pongWait"
    and answered: "\<And>k. ping_time s0 k + delay < fst (last es) \<Longrightarrow>
      \<exists>p. (p, Pong) \<in> set es \<and> ping_time s0 k \<le> p \<and> p \<le> ping_time s0 k + delay"
  shows "ReadTimeout \<notin> snd ` set es"
proof
  assume "ReadTimeout \<in> snd ` set es"
  then obtain \<tau> where \<tau>: "(\<tau>, ReadTimeout) \<in> set es" by force
  then have upto: "\<tau> \<le> fst (last es)" 
    using sorted by (cases es rule: rev_cases) (auto simp: sorted_append)
  from timeout_gap [OF run \<tau> sorted] obtain d where d: "d < \<tau>"
    "d = t0 + sint pongWait \<or> (\<exists>p. (p, Pong) \<in> set es \<and> d = p + sint pongWait)"
    "\<And>p. (p, Pong) \<in> set es \<Longrightarrow> p < \<tau> \<Longrightarrow> p + sint pongWait \<le> d"
    by (auto simp: readPump_deadline_def)
  define L where "L = d - sint pongWait"
  have "t0 \<le> L" using d(2) from_t0 by (auto simp: L_def)
  define k where "k = nat ((L - s0) div sint pingPeriod)"
  have next_ping: "L < ping_time s0 k" "ping_time s0 k + delay \<le> d"
  proof -
    have "L - s0 < (int k + 1) * sint pingPeriod"
      unfolding k_def keepalive_constants by (cases "L < s0") auto
    then show "L < ping_time s0 k" by (simp add: ping_time_def)
    have "int k * sint pingPeriod \<le> L - s0 \<or> k = 0 \<and> L < s0"
      unfolding k_def keepalive_constants by (cases "L < s0") auto
    with delay \<open>t0 \<le> L\<close> show "ping_time s0 k + delay \<le> d"
      by (auto simp: ping_time_def L_def algebra_simps)
  qed
  with answered [of k] d(1) upto obtain p where p: "(p, Pong) \<in> set es" "ping_time s0 k \<le> p" "p \<le> ping_time s0 k + delay"
    by auto
  with d(1,3) next_ping show False by (force simp: L_def)
qed

subsection \<open>Properties\<close>

text \<open>
  When a held message blocks the pump: no pong is handled, so its deadline can pass although the peer
  answers every ping, and the read after it may fail.
\<close>

lemma held_message_blocks_pongs:
  "tr_readPump (td_tr s) = RP_Sending msg \<Longrightarrow> timed_step step now Pong s = None"
  by (simp add: timed_step_def Let_def)

definition slow_reader_run :: "(int \<times> timed_event) list" where
  "slow_reader_run = [(18000000001, Pong), (18000000002, Pump (ReadReturns (Some [1]))),
     (38000000003, Pump ReaderTakes), (38000000004, ReadTimeout)]"

lemma slow_reader_disconnects:
  "case run_timed client_step slow_reader_run (readPump_deadline 0 example_client) of
     Some (Ret s) \<Rightarrow> tr_readPump (td_tr s) = RP_Done \<and> tr_closeWritePump (td_tr s)
   | _ \<Rightarrow> False"
  by (simp add: slow_reader_run_def timed_step_def handlePong_def readPump_deadline_def keepalive_constants
      example_transport_defs Let_def)

text \<open>
  C12.  Answered pings keep a connection.  Let the read pump of a client or server transport start at
  time \<open>t0\<close> and its write pump at \<open>s0\<close>, and let each ping be answered by a pong that is handled
  within some delay.  If the delay is at most \<open>pongWait - pingPeriod\<close>, two seconds, less the time by
  which the write pump started later, then no read fails with a time-out, however long the
  connection lives.  The bound is sharp: when the first pong takes longer, the read can fail before it.
\<close>

theorem keepalive:
  assumes "sorted (map fst es)" "\<forall>(t, ev) \<in> set es. t0 \<le> t"
    and "0 \<le> delay" "delay \<le> sint pongWait - sint pingPeriod" "s0 + sint pingPeriod + delay \<le> t0 + sint pongWait"
    and "\<And>k. ping_time s0 k + delay < fst (last es) \<Longrightarrow>
      \<exists>p. (p, Pong) \<in> set es \<and> ping_time s0 k \<le> p \<and> p \<le> ping_time s0 k + delay"
    and "s0 + sint pingPeriod + late > t0 + sint pongWait"
  shows "(run_timed client_step es (readPump_deadline t0 c) = Some (Ret c') \<longrightarrow> ReadTimeout \<notin> snd ` set es)
    \<and> (run_timed server_step es (readPump_deadline t0 s) = Some (Ret s') \<longrightarrow> ReadTimeout \<notin> snd ` set es)
    \<and> (\<exists>t c'. t < ping_time s0 0 + late + 1
         \<and> run_timed client_step [(t, ReadTimeout)] (readPump_deadline t0 example_client) = Some (Ret c')
         \<and> tr_readPump (td_tr c') = RP_Done)"
proof (intro conjI impI)
  show "ReadTimeout \<notin> snd ` set es" if "run_timed client_step es (readPump_deadline t0 c) = Some (Ret c')"
    by (rule no_timeout [OF that assms(1-6)])
  show "ReadTimeout \<notin> snd ` set es" if "run_timed server_step es (readPump_deadline t0 s) = Some (Ret s')"
    by (rule no_timeout [OF that assms(1-6)])
  show "\<exists>t c'. t < ping_time s0 0 + late + 1
      \<and> run_timed client_step [(t, ReadTimeout)] (readPump_deadline t0 example_client) = Some (Ret c')
      \<and> tr_readPump (td_tr c') = RP_Done"
    using assms(7)
    by (intro exI [of _ "t0 + sint pongWait + 1"])
      (simp add: ping_time_def timed_step_def readPump_deadline_def example_transport_defs Let_def)
qed

definition answered_run :: "(int \<times> timed_event) list" where
  "answered_run = [(19000000000, Pong), (20000000000, Pump (ReadReturns (Some [1]))), (20000000001, Pump ReaderTakes),
     (37000000000, Pong), (54000000000, Pump (TickerFires True))]"

theorem keepalive_witness:
  "\<exists>c'. run_timed client_step answered_run (readPump_deadline 0 example_client) = Some (Ret c')
     \<and> ReadTimeout \<notin> snd ` set answered_run"
proof -
  obtain c' where c': "run_timed client_step answered_run (readPump_deadline 0 example_client) = Some (Ret c')"
    by (simp add: answered_run_def timed_step_def handlePong_def readPump_deadline_def keepalive_constants
      example_transport_defs Let_def)
  have pongs: "\<exists>p. (p, Pong) \<in> set answered_run \<and> ping_time 0 k \<le> p \<and> p \<le> ping_time 0 k + 1000000000"
    if "ping_time 0 k + 1000000000 < fst (last answered_run)" for k
  proof -
    from that have "k = 0 \<or> k = 1" by (auto simp: answered_run_def ping_time_def keepalive_constants)
    then show ?thesis by (auto simp: answered_run_def ping_time_def keepalive_constants)
  qed
  from c' have "ReadTimeout \<notin> snd ` set answered_run"
    using keepalive [of answered_run 0 1000000000 0 2000000001 example_client c'] pongs
    by (simp add: answered_run_def keepalive_constants)
  with c' show ?thesis by blast
qed

end
