(* ===== verification/UniClient.thy ===== *)
theory UniClient
  imports Wire
begin

text \<open>
  \<open>uni_client.go\<close>: a client that sends one request and reads one response at a time on one
  websocket, reconnecting when a write or a read fails.

  \<open>gorilla/websocket\<close> is not part of the repository.  A connection is a value of type \<open>'c\<close>;
  dialling is the parameter \<open>dial\<close>; what each network call returns, and what \<open>ctx.Err()\<close> or
  the \<open>select\<close> says next, is a script the loops consume.  A loop that has used up its script is
  still running, so its result is \<open>None\<close>.  \<open>Invoke\<close> records the calls it makes on connections.
\<close>

subsection \<open>Connecting\<close>

definition connect ::
  "(string \<Rightarrow> tls_config \<Rightarrow> 'c res) \<Rightarrow> string \<Rightarrow> tls_config \<Rightarrow> 'c res"
where
  "connect dial target tlsConfig =
     (case dial (''wss://'' @ target) tlsConfig of
        Inl e \<Rightarrow> Inl (Wrap ''error while dialing '' e)
      | Inr conn \<Rightarrow> Inr conn)"

text \<open>\<open>max\<close> on \<open>time.Duration\<close>: the comparison is signed.\<close>

definition max_duration :: "duration \<Rightarrow> duration \<Rightarrow> duration" where
  "max_duration d1 d2 = (if sint d2 < sint d1 then d1 else d2)"

text \<open>
  One turn of the retry loop: \<open>connect\<close> succeeds, or fails and then the context is done
  (with its error) or the wait is over.
\<close>

datatype 'c attempt = Connected 'c | FailedCtxDone go_error go_error | FailedWaited go_error

text \<open>
  The loop of \<open>retryConnectWithBackoff\<close> from the current \<open>reconnectWait\<close>: the waits it
  completed, its result, and the rest of the script.
\<close>

definition next_wait :: "duration \<Rightarrow> duration" where
  "next_wait reconnectWait = max_duration (reconnectWait * 2) (1 * Minute)"

fun retry_loop :: "duration \<Rightarrow> 'c attempt list \<Rightarrow> duration list \<times> ('c res \<times> 'c attempt list) option" where
  "retry_loop reconnectWait [] = ([], None)"
| "retry_loop reconnectWait (Connected freshConn # as) = ([], Some (Inr freshConn, as))"
| "retry_loop reconnectWait (FailedCtxDone err ctx_err # as) = ([], Some (Inl ctx_err, as))"
| "retry_loop reconnectWait (FailedWaited err # as) =
     (case retry_loop (next_wait reconnectWait) as of (ws, r) \<Rightarrow> (reconnectWait # ws, r))"

definition retryConnectWithBackoff ::
  "'c attempt list \<Rightarrow> duration list \<times> ('c res \<times> 'c attempt list) option"
where
  "retryConnectWithBackoff as = retry_loop Second as"

record 'c UniClientConn =
  uc_conn :: "'c option"

text \<open>\<open>Dial\<close>: \<open>uc.conn, err = uc.connectFn(ctx)\<close>, given what \<open>connectFn\<close> returned.\<close>

definition UniClientConn_Dial :: "'c res \<Rightarrow> 'c UniClientConn \<Rightarrow> 'c UniClientConn \<times> go_error option" where
  "UniClientConn_Dial r uc =
     (case r of
        Inl e \<Rightarrow> (uc\<lparr>uc_conn := None\<rparr>, Some e)
      | Inr c \<Rightarrow> (uc\<lparr>uc_conn := Some c\<rparr>, None))"

definition NewTLSUniClientConn :: "'c UniClientConn" where
  "NewTLSUniClientConn = \<lparr>uc_conn = None\<rparr>"

text \<open>
  \<open>DialUniWithContext\<close>: \<open>connected\<close> gives what \<open>connectFn\<close> returns for the TLS
  configuration.  A validation error returns no client; otherwise the client is returned
  together with the error of \<open>Dial\<close>, if any.
\<close>

definition DialUniWithContext ::
  "(int \<Rightarrow> Signer \<Rightarrow> bytes res) \<Rightarrow> (tls_config \<Rightarrow> 'c res) \<Rightarrow> bytes \<Rightarrow> bytes \<Rightarrow> pk_store
    \<Rightarrow> ('c UniClientConn \<times> go_error option \<times> pk_store) res"
where
  "DialUniWithContext create connected ed25519PrivKey serverPubKey st =
     (case ValidPrivateKeyFromEd25519 ed25519PrivKey of
        Inl e \<Rightarrow> Inl e
      | Inr privKey \<Rightarrow>
          (case ValidPublicKeysFromEd25519 [serverPubKey] st of
             Inl e \<Rightarrow> Inl e
           | Inr (pubs, st') \<Rightarrow>
               (case NewClientTLSConfig create privKey pubs of
                  Inl e \<Rightarrow> Inl e
                | Inr tlsConfig \<Rightarrow>
                    (case UniClientConn_Dial (connected tlsConfig) NewTLSUniClientConn of
                       (u, err) \<Rightarrow> Inr (u, err, st')))))"

subsection \<open>Calls\<close>

text \<open>
  What one turn of the loop of \<open>Invoke\<close> meets: the write or the read fails, with
  \<open>ctx.Err()\<close> and, when that is nil, what \<open>connectFn\<close> returns; or both succeed.
\<close>

datatype 'c turn =
    WriteFails go_error "go_error option" "'c res"
  | ReadFails go_error "go_error option" "'c res"
  | Reads slice

datatype conn_call = SetWriteDeadline int | WriteMessage slice | SetReadDeadline int | ReadMessage

text \<open>The calls of one turn up to the write and up to the read.\<close>

definition write_calls :: "go_ctx \<Rightarrow> slice \<Rightarrow> conn_call list" where
  "write_calls ctx reqBytes =
     (case ctx_Deadline ctx of Some deadline \<Rightarrow> [SetWriteDeadline deadline] | None \<Rightarrow> []) @ [WriteMessage reqBytes]"

definition read_calls :: "go_ctx \<Rightarrow> conn_call list" where
  "read_calls ctx =
     (case ctx_Deadline ctx of Some deadline \<Rightarrow> [SetReadDeadline deadline] | None \<Rightarrow> []) @ [ReadMessage]"

abbreviation on_conn :: "'c \<Rightarrow> conn_call list \<Rightarrow> ('c \<times> conn_call) list" where
  "on_conn c calls \<equiv> map (Pair c) calls"

text \<open>The loop of \<open>Invoke\<close>: the calls made, then the connection in use and the result.\<close>

fun invoke_loop ::
  "go_ctx \<Rightarrow> slice \<Rightarrow> 'c turn list \<Rightarrow> 'c \<Rightarrow> ('c \<times> conn_call) list \<times> ('c \<times> slice res) option"
where
  "invoke_loop ctx reqBytes [] conn = ([], None)"
| "invoke_loop ctx reqBytes (WriteFails err ctx_err fresh # ts) conn =
     (let calls = on_conn conn (write_calls ctx reqBytes)
      in case ctx_err of
           Some e \<Rightarrow> (calls, Some (conn, Inl e))
         | None \<Rightarrow>
             (case fresh of
                Inl err2 \<Rightarrow> (calls, Some (conn, Inl err2))
              | Inr freshConn \<Rightarrow>
                  (case invoke_loop ctx reqBytes ts freshConn of (cs, r) \<Rightarrow> (calls @ cs, r))))"
| "invoke_loop ctx reqBytes (ReadFails err ctx_err fresh # ts) conn =
     (let calls = on_conn conn (write_calls ctx reqBytes @ read_calls ctx)
      in case ctx_err of
           Some e \<Rightarrow> (calls, Some (conn, Inl e))
         | None \<Rightarrow>
             (case fresh of
                Inl err2 \<Rightarrow> (calls, Some (conn, Inl err2))
              | Inr freshConn \<Rightarrow>
                  (case invoke_loop ctx reqBytes ts freshConn of (cs, r) \<Rightarrow> (calls @ cs, r))))"
| "invoke_loop ctx reqBytes (Reads resBytes # ts) conn =
     (on_conn conn (write_calls ctx reqBytes @ read_calls ctx), Some (conn, Inr resBytes))"

text \<open>What \<open>Invoke\<close> does with the bytes it read.\<close>

definition handle_response :: "Message proto \<Rightarrow> 'p proto \<Rightarrow> slice \<Rightarrow> 'p go_value \<Rightarrow> 'p res go" where
  "handle_response wire pb resBytes reply =
     (case UnmarshalProtoMessage wire resBytes (ProtoMessage empty_message) of
        Inl err \<Rightarrow> Ret (Inl err)
      | Inr msg \<Rightarrow>
          (case msg_Exchange msg of
             Some (Message_Response r) \<Rightarrow>
               go_bind (deref r) (\<lambda>resp.
                 if resp_Payload resp = None then Ret (Inl (New ''response payload is nil''))
                 else Ret (UnmarshalProtoMessage pb (resp_Payload resp) reply))
           | _ \<Rightarrow> Ret (Inl (New ''unexpected message type''))))"

text \<open>
  \<open>UniClientConn.Invoke\<close>: the calls made on connections, the connection kept in \<open>uc\<close> and,
  when it returns, its result (the new contents of \<open>reply\<close>).
\<close>

definition UniClientConn_Invoke ::
  "Message proto \<Rightarrow> 'p proto \<Rightarrow> string \<Rightarrow> go_ctx \<Rightarrow> 'c turn list \<Rightarrow> string \<Rightarrow> 'p go_value \<Rightarrow> 'p go_value
    \<Rightarrow> 'c UniClientConn \<Rightarrow> (('c \<times> conn_call) list \<times> 'c UniClientConn \<times> 'p res option) go"
where
  "UniClientConn_Invoke wire pb callID ctx turns method args reply uc =
     (case NewRequest pb callID method args of
        Inl err \<Rightarrow> Ret ([], uc, Some (Inl err))
      | Inr req \<Rightarrow>
          (case MarshalProtoMessage wire (ProtoMessage req) of
             Inl err \<Rightarrow> Ret ([], uc, Some (Inl err))
           | Inr reqBytes \<Rightarrow>
               go_bind (deref (uc_conn uc)) (\<lambda>conn.
                 case invoke_loop ctx reqBytes turns conn of
                   (calls, None) \<Rightarrow> Ret (calls, uc, None)
                 | (calls, Some (conn', Inl err)) \<Rightarrow> Ret (calls, uc\<lparr>uc_conn := Some conn'\<rparr>, Some (Inl err))
                 | (calls, Some (conn', Inr resBytes)) \<Rightarrow>
                     go_bind (handle_response wire pb resBytes reply)
                       (\<lambda>r. Ret (calls, uc\<lparr>uc_conn := Some conn'\<rparr>, Some r)))))"

text \<open>\<open>Close\<close> on the connection, whose own result is \<open>close_err\<close>.\<close>

definition UniClientConn_Close :: "('c \<Rightarrow> go_error option) \<Rightarrow> 'c UniClientConn \<Rightarrow> go_error option go" where
  "UniClientConn_Close close_err uc = go_bind (deref (uc_conn uc)) (\<lambda>conn. Ret (close_err conn))"

subsection \<open>The waits of the retry loop\<close>

lemma less_28_cases:
  "(k::nat) < 28 \<Longrightarrow> k \<in> {0, 1, 2, 3, 4, 5, 6, 7, 8, 9, 10, 11, 12, 13, 14, 15, 16, 17, 18, 19, 20, 21, 22,
     23, 24, 25, 26, 27}"
  by (simp only: insert_iff empty_iff) arith

lemma next_wait_power: "k < 28 \<Longrightarrow> next_wait (Minute * 2 ^ k) = Minute * 2 ^ (Suc k mod 28)"
  by (drule less_28_cases)
    (elim insertE emptyE; simp add: next_wait_def max_duration_def Minute_def Second_def)

lemma sint_Minute_power: "k < 28 \<Longrightarrow> sint (Minute * 2 ^ k) = 60000000000 * 2 ^ k"
  by (drule less_28_cases) (elim insertE emptyE; simp add: Minute_def Second_def)

lemma retry_loop_waits:
  assumes "k < 28"
  shows "fst (retry_loop (Minute * 2 ^ k) (map FailedWaited errs))
    = map (\<lambda>i. Minute * 2 ^ ((k + i) mod 28)) [0..<length errs]"
  using assms
proof (induction errs arbitrary: k)
  case Nil
  then show ?case by simp
next
  case (Cons e errs)
  have "next_wait (Minute * 2 ^ k) = Minute * 2 ^ (Suc k mod 28)"
    by (rule next_wait_power [OF Cons.prems])
  with Cons.IH [of "Suc k mod 28"] Cons.prems show ?case
    by (simp add: split_beta upt_conv_Cons map_Suc_upt [symmetric] mod_add_left_eq comp_def del: upt_Suc)
qed

text \<open>
  The waits of \<open>retryConnectWithBackoff\<close> while every attempt fails, in nanoseconds: one
  second, then one minute, two, four and so on.  There is no upper limit but the width of
  \<open>time.Duration\<close>: the 29th wait is over 255 years, doubling it overflows, and the sequence
  starts again at one minute.
\<close>

lemma retry_waits:
  "map sint (fst (retryConnectWithBackoff (map FailedWaited errs :: 'c attempt list)))
    = map (\<lambda>i. if i = 0 then 1000000000 else 60000000000 * 2 ^ ((i - 1) mod 28)) [0..<length errs]"
proof (cases errs)
  case Nil
  then show ?thesis by (simp add: retryConnectWithBackoff_def)
next
  case (Cons e es)
  have "next_wait Second = Minute * 2 ^ 0"
    by (simp add: next_wait_def max_duration_def Minute_def Second_def)
  then have "fst (retryConnectWithBackoff (map FailedWaited errs :: 'c attempt list))
      = Second # map (\<lambda>i. Minute * 2 ^ (i mod 28)) [0..<length es]"
    using retry_loop_waits [of 0 es] by (simp add: Cons retryConnectWithBackoff_def split_beta)
  then show ?thesis
    by (simp add: Cons upt_conv_Cons map_Suc_upt [symmetric] comp_def sint_Minute_power Second_def del: upt_Suc)
qed

subsection \<open>What a call returns\<close>

text \<open>A turn that ends in a reconnection, and the connection in use after such turns.\<close>

fun reconnects :: "'c turn \<Rightarrow> 'c option" where
  "reconnects (WriteFails _ None (Inr c)) = Some c"
| "reconnects (ReadFails _ None (Inr c)) = Some c"
| "reconnects _ = None"

fun conn_after :: "'c \<Rightarrow> 'c turn list \<Rightarrow> 'c" where
  "conn_after c [] = c"
| "conn_after c (t # ts) = conn_after (case reconnects t of Some c' \<Rightarrow> c' | None \<Rightarrow> c) ts"

lemma invoke_loop_reconnect:
  assumes "reconnects t = Some c'"
  shows "snd (invoke_loop ctx b (t # ts) c) = snd (invoke_loop ctx b ts c')"
proof (cases t)
  case (WriteFails e ce f)
  with assms show ?thesis by (cases ce; cases f) (simp_all add: split_beta Let_def)
next
  case (ReadFails e ce f)
  with assms show ?thesis by (cases ce; cases f) (simp_all add: split_beta Let_def)
next
  case (Reads r)
  with assms show ?thesis by simp
qed

lemma invoke_loop_reconnects:
  assumes "\<forall>t \<in> set rs. reconnects t \<noteq> None"
  shows "snd (invoke_loop ctx b (rs @ ts) c) = snd (invoke_loop ctx b ts (conn_after c rs))"
  using assms
proof (induction rs arbitrary: c)
  case Nil
  then show ?case by simp
next
  case (Cons t rs)
  then obtain c' where t: "reconnects t = Some c'" by auto
  with Cons show ?case by (simp only: append_Cons invoke_loop_reconnect [OF t]) simp
qed

text \<open>All writes of a call carry the same bytes, and there is one per turn of the loop.\<close>

lemma invoke_loop_writes:
  "(c', WriteMessage b') \<in> set (fst (invoke_loop ctx b ts c)) \<Longrightarrow> b' = b"
  by (induction ctx b ts c rule: invoke_loop.induct)
    (auto simp: Let_def write_calls_def read_calls_def split: option.splits sum.splits prod.splits)

lemma handle_response_decoded:
  assumes "decodes wire norm_message"
    and "pb_marshal wire \<lparr>msg_Exchange = Some (Message_Response (Some r))\<rparr> = Inr b"
  shows "handle_response wire pb b reply =
    (if norm_slice (resp_Payload r) = None then Ret (Inl (New ''response payload is nil''))
     else Ret (UnmarshalProtoMessage pb (resp_Payload r) reply))"
proof -
  have "UnmarshalProtoMessage wire b (ProtoMessage empty_message) =
      Inr (norm_message \<lparr>msg_Exchange = Some (Message_Response (Some r))\<rparr>)"
    using assms by (auto simp: decodes_def UnmarshalProtoMessage_def)
  then show ?thesis
    by (auto simp: handle_response_def norm_message_def norm_response_def norm_slice_def)
qed

lemma UniClientConn_Invoke_read:
  assumes "NewRequest pb callID method args = Inr req"
    and "MarshalProtoMessage wire (ProtoMessage req) = Inr reqBytes"
    and "uc_conn uc = Some c" and "\<forall>t \<in> set rs. reconnects t \<noteq> None"
  shows "UniClientConn_Invoke wire pb callID ctx (rs @ Reads b # ts) method args reply uc =
    go_bind (handle_response wire pb b reply)
      (\<lambda>r. Ret (fst (invoke_loop ctx reqBytes (rs @ Reads b # ts) c),
                uc\<lparr>uc_conn := Some (conn_after c rs)\<rparr>, Some r))"
proof -
  obtain calls where "invoke_loop ctx reqBytes (rs @ Reads b # ts) c = (calls, Some (conn_after c rs, Inr b))"
    using invoke_loop_reconnects [OF assms(4), of ctx reqBytes "Reads b # ts" c]
    by (cases "invoke_loop ctx reqBytes (rs @ Reads b # ts) c") simp
  with assms show ?thesis by (simp add: UniClientConn_Invoke_def)
qed


abbreviation example_request :: "slice \<Rightarrow> bool" where
  "example_request b \<equiv> (\<exists>req. NewRequest sample_payload ''id'' ''Ping'' (ProtoMessage [1]) = Inr req
     \<and> MarshalProtoMessage sample_wire (ProtoMessage req) = Inr b)"

lemma example_request_exists: "\<exists>b. example_request b"
  by (simp add: NewRequest_def marshalProtoMessage_def sample_payload_def MarshalProtoMessage_def
      sample_wire_def sample_encode_def)

lemma sample_wire_encodes: "\<exists>b. pb_marshal sample_wire m = Inr b"
  by (simp add: sample_wire_def sample_encode_def)


text \<open>
  \<open>UniClientConn.Invoke\<close> never looks at the error or the call id of a response: two
  responses with the same payload give the same result, so a call the server answered with an
  error and a payload succeeds.
\<close>

lemma uni_invoke_ignores_error_and_id:
  assumes "decodes wire norm_message"
    and "pb_marshal wire \<lparr>msg_Exchange = Some (Message_Response (Some r))\<rparr> = Inr b"
    and "pb_marshal wire \<lparr>msg_Exchange = Some (Message_Response (Some
           (r\<lparr>resp_CallId := i, resp_Error := e\<rparr>)))\<rparr> = Inr b'"
  shows "UniClientConn_Invoke wire pb callID ctx [Reads b] meth args reply uc
    = UniClientConn_Invoke wire pb callID ctx [Reads b'] meth args reply uc"
proof -
  have "handle_response wire pb b reply = handle_response wire pb b' reply"
    by (simp add: handle_response_decoded [OF assms(1,2)] handle_response_decoded [OF assms(1,3)])
  then show ?thesis by (simp add: UniClientConn_Invoke_def split: sum.split)
qed

text \<open>
  A successful reply that encodes to no bytes at all (a message with only default values)
  is reported to the caller of \<open>UniClientConn.Invoke\<close> as the error that its payload is nil.
\<close>

lemma uni_invoke_rejects_empty_reply:
  assumes "decodes wire norm_message"
    and "pb_marshal pb v = Inr payload" and "norm_slice payload = None"
    and "NewResponse pb callID (ProtoMessage v) None = Inr m" and "pb_marshal wire m = Inr b"
    and "NewRequest pb callID method args = Inr req"
    and "MarshalProtoMessage wire (ProtoMessage req) = Inr reqBytes" and "uc_conn uc = Some c"
  shows "\<exists>calls. UniClientConn_Invoke wire pb callID ctx [Reads b] method args reply uc
    = Ret (calls, uc\<lparr>uc_conn := Some c\<rparr>, Some (Inl (New ''response payload is nil'')))"
proof -
  from assms(2,4) have "m = \<lparr>msg_Exchange = Some (Message_Response (Some
      \<lparr>resp_CallId = callID, resp_Payload = payload, resp_Error = []\<rparr>))\<rparr>"
    by (auto simp: NewResponse_Inr)
  with assms(3,5) handle_response_decoded [OF assms(1), of "\<lparr>resp_CallId = callID, resp_Payload = payload, resp_Error = []\<rparr>" b]
  have "handle_response wire pb b reply = Ret (Inl (New ''response payload is nil''))" by simp
  with UniClientConn_Invoke_read [OF assms(6-8), of "[]" ctx b "[]" reply] show ?thesis by simp
qed

end
