(* ===== verification/Logging.thy ===== *)
theory Logging
  imports Prelude
begin

text \<open>
  \<open>logger/logger.go\<close> and \<open>wsrpclog/logger.go\<close>.  \<open>go.uber.org/zap\<close> is not part of the repository:
  \<open>zap_lib\<close> is what the code calls of it, on loggers of any type.  \<open>With\<close> and \<open>Named\<close> also take
  loggers of the caller's own types and find their methods by reflection: a value of such a type is
  opaque, and \<open>meths\<close> is what \<open>reflect\<close> finds on it.
\<close>

subsection \<open>The loggers of the package\<close>

record ('s, 'c) zap_lib =
  zap_With :: "'s \<Rightarrow> string list \<Rightarrow> 's"
  zap_Named :: "'s \<Rightarrow> string \<Rightarrow> 's"
  zap_Nop :: 's
  zap_ProductionConfig :: 'c
  zap_SetLevel :: "int \<Rightarrow> 'c \<Rightarrow> 'c"
  zap_Build :: "'c \<Rightarrow> 's res"

record logger_Config =
  lc_Level :: int

record 's logger =
  lg_SugaredLogger :: 's
  lg_name :: string

text \<open>The zero level of \<open>zapcore\<close> is Info.\<close>

definition logger_defaultConfig :: logger_Config where
  "logger_defaultConfig = \<lparr>lc_Level = 0\<rparr>"

definition Config_New :: "('s, 'c) zap_lib \<Rightarrow> logger_Config \<Rightarrow> 's logger res" where
  "Config_New zap c =
     (let cfg = zap_SetLevel zap (lc_Level c) (zap_ProductionConfig zap)
      in case zap_Build zap cfg of
           Inl err \<Rightarrow> Inl err
         | Inr core \<Rightarrow> Inr \<lparr>lg_SugaredLogger = core, lg_name = ''''\<rparr>)"

definition New_logger :: "('s, 'c) zap_lib \<Rightarrow> 's logger res" where
  "New_logger zap = Config_New zap logger_defaultConfig"

text \<open>The \<open>init\<close> function of the package: the value of \<open>DefaultLogger\<close>.\<close>

definition logger_init :: "('s, 'c) zap_lib \<Rightarrow> 's logger go" where
  "logger_init zap = (case New_logger zap of Inl err \<Rightarrow> Panic (PanicWith err) | Inr l \<Rightarrow> Ret l)"

definition Nop_logger :: "('s, 'c) zap_lib \<Rightarrow> 's logger" where
  "Nop_logger zap = \<lparr>lg_SugaredLogger = zap_Nop zap, lg_name = ''''\<rparr>"

text \<open>
  The loggers for tests.  \<open>zaptest_lib\<close> is what is called of \<open>zaptest\<close> and \<open>observer\<close>: a logger for a test,
  whose core is passed through the given wrappers, an observing core with its logs, and a core that
  writes to two.
\<close>

record ('s, 'tb, 'k, 'logs) zaptest_lib =
  zt_NewLogger :: "'tb \<Rightarrow> ('k \<Rightarrow> 'k) list \<Rightarrow> 's"
  zt_Observer :: "int \<Rightarrow> 'k \<times> 'logs"
  zt_NewTee :: "'k \<Rightarrow> 'k \<Rightarrow> 'k"

definition Test_logger :: "('s, 'tb, 'k, 'logs) zaptest_lib \<Rightarrow> 'tb \<Rightarrow> 's logger" where
  "Test_logger zt tb = \<lparr>lg_SugaredLogger = zt_NewLogger zt tb [], lg_name = ''''\<rparr>"

definition TestObserved :: "('s, 'tb, 'k, 'logs) zaptest_lib \<Rightarrow> 'tb \<Rightarrow> int \<Rightarrow> 's logger \<times> 'logs" where
  "TestObserved zt tb lvl =
     (case zt_Observer zt lvl of (oCore, logs) \<Rightarrow>
        let observe = (\<lambda>c. zt_NewTee zt c oCore)
        in (\<lparr>lg_SugaredLogger = zt_NewLogger zt tb [observe], lg_name = ''''\<rparr>, logs))"

definition logger_with :: "('s, 'c) zap_lib \<Rightarrow> string list \<Rightarrow> 's logger \<Rightarrow> 's logger" where
  "logger_with zap args l = \<lparr>lg_SugaredLogger = zap_With zap (lg_SugaredLogger l) args, lg_name = ''''\<rparr>"

definition joinName :: "string \<Rightarrow> string \<Rightarrow> string" where
  "joinName old new = (if old = '''' then new else old @ ''.'' @ new)"

definition logger_named :: "('s, 'c) zap_lib \<Rightarrow> string \<Rightarrow> 's logger \<Rightarrow> 's logger" where
  "logger_named zap name l =
     l\<lparr>lg_name := joinName (lg_name l) name, lg_SugaredLogger := zap_Named zap (lg_SugaredLogger l) name\<rparr>"

definition logger_Name :: "'s logger \<Rightarrow> string" where
  "logger_Name l = lg_name l"

subsection \<open>With and Named of the package\<close>

text \<open>
  A value of the interface \<open>Logger\<close>.  A method found by reflection: whether its last parameter is
  variadic, whether the arguments can be passed, and what a call returns, for every result whether
  its static type implements \<open>Logger\<close> and the \<open>Logger\<close> its value is (\<open>None\<close>: it is not one, or nil).
\<close>

datatype ('s, 'u) any_logger = ZapLogger "'s logger" | UserLogger 'u

datatype refl_args = KeyVals "string list" | NameArg string

record 'l refl_result =
  rr_static_Logger :: bool
  rr_Logger :: "'l option"

record 'l refl_method =
  rm_variadic :: bool
  rm_accepts :: "refl_args \<Rightarrow> bool"
  rm_call :: "refl_args \<Rightarrow> 'l refl_result list"

type_synonym ('s, 'u) user_methods = "'u \<Rightarrow> string \<Rightarrow> ('s, 'u) any_logger refl_method option"

text \<open>\<open>CallSlice\<close> panics on a method that is not variadic or takes other arguments.\<close>

definition logger_With ::
  "('s, 'c) zap_lib \<Rightarrow> ('s, 'u) user_methods \<Rightarrow> ('s, 'u) any_logger \<Rightarrow> string list
    \<Rightarrow> ('s, 'u) any_logger option go"
where
  "logger_With zap meths l keyvals =
     (case l of
        ZapLogger t \<Rightarrow> Ret (Some (ZapLogger (logger_with zap keyvals t)))
      | UserLogger v \<Rightarrow>
          (case meths v ''With'' of
             None \<Rightarrow> Ret (Some l)
           | Some m \<Rightarrow>
               if \<not> rm_variadic m \<or> \<not> rm_accepts m (KeyVals keyvals) then Panic ReflectPanic
               else (let r = rm_call m (KeyVals keyvals)
                     in if length r \<noteq> 1 then Ret (Some l)
                        else if \<not> rr_static_Logger (r ! 0) then Ret (Some l)
                        else Ret (rr_Logger (r ! 0)))))"

text \<open>\<open>Call\<close> panics on a method that takes other arguments.\<close>

definition logger_Named ::
  "('s, 'c) zap_lib \<Rightarrow> ('s, 'u) user_methods \<Rightarrow> ('s, 'u) any_logger \<Rightarrow> string \<Rightarrow> ('s, 'u) any_logger go"
where
  "logger_Named zap meths l n =
     (case l of
        ZapLogger t \<Rightarrow> Ret (ZapLogger (logger_named zap n t))
      | UserLogger v \<Rightarrow>
          (case meths v ''Named'' of
             None \<Rightarrow> Ret l
           | Some m \<Rightarrow>
               if \<not> rm_accepts m (NameArg n) then Panic ReflectPanic
               else (let r = rm_call m (NameArg n)
                     in if length r \<noteq> 1 then Ret l
                        else case rr_Logger (r ! 0) of None \<Rightarrow> Ret l | Some ret \<Rightarrow> Ret ret)))"

text \<open>
  A method of another shape, for example a \<open>With\<close> of one string, makes the call panic instead of
  returning \<open>l\<close>.
\<close>

lemma logger_With_panics:
  "logger_With zap meths l keyvals = Panic p \<longleftrightarrow> p = ReflectPanic \<and> (\<exists>v m. l = UserLogger v \<and> meths v ''With'' = Some m
     \<and> (\<not> rm_variadic m \<or> \<not> rm_accepts m (KeyVals keyvals)))"
  by (cases l) (auto simp: logger_With_def Let_def split: option.splits)

lemma logger_Named_panics:
  "logger_Named zap meths l n = Panic p \<longleftrightarrow> p = ReflectPanic \<and> (\<exists>v m. l = UserLogger v \<and> meths v ''Named'' = Some m
     \<and> \<not> rm_accepts m (NameArg n))"
  by (cases l) (auto simp: logger_Named_def Let_def split: option.splits)

subsection \<open>Verbose logging\<close>

text \<open>\<open>wsrpclog\<close>: \<open>Default\<close>, and the calls of the package \<open>log\<close> it makes.\<close>

record verbose_logger =
  Verbose :: bool

datatype log_call = LogPrintln "string list" | LogPrintf string "string list"

definition wsrpclog_init :: verbose_logger where
  "wsrpclog_init = \<lparr>Verbose = False\<rparr>"

definition SetVerboseLogger :: verbose_logger where
  "SetVerboseLogger = \<lparr>Verbose = True\<rparr>"

definition verbose_Print :: "verbose_logger \<Rightarrow> string list \<Rightarrow> log_call list" where
  "verbose_Print l v = (if Verbose l then [LogPrintln v] else [])"

definition verbose_Printf :: "verbose_logger \<Rightarrow> string \<Rightarrow> string list \<Rightarrow> log_call list" where
  "verbose_Printf l format v = (if Verbose l then [LogPrintf format v] else [])"

definition verbose_Println :: "verbose_logger \<Rightarrow> string list \<Rightarrow> log_call list" where
  "verbose_Println l v = (if Verbose l then [LogPrintln v] else [])"

text \<open>The functions of the package, on the current value of \<open>Default\<close>.\<close>

definition wsrpclog_Print :: "verbose_logger \<Rightarrow> string list \<Rightarrow> log_call list" where
  "wsrpclog_Print Default v = verbose_Print Default v"

definition wsrpclog_Printf :: "verbose_logger \<Rightarrow> string \<Rightarrow> string list \<Rightarrow> log_call list" where
  "wsrpclog_Printf Default format v = verbose_Printf Default format v"

definition wsrpclog_Println :: "verbose_logger \<Rightarrow> string list \<Rightarrow> log_call list" where
  "wsrpclog_Println Default v = verbose_Println Default v"

lemma quiet_by_default:
  "wsrpclog_Print wsrpclog_init v = []" "wsrpclog_Printf wsrpclog_init format v = []"
  "wsrpclog_Println wsrpclog_init v = []"
  by (simp_all add: wsrpclog_Print_def wsrpclog_Printf_def wsrpclog_Println_def verbose_Print_def
      verbose_Printf_def verbose_Println_def wsrpclog_init_def)

subsection \<open>Names\<close>

datatype logger_op = OpNamed string | OpWith "string list"

primrec run_logger_op :: "('s, 'c) zap_lib \<Rightarrow> logger_op \<Rightarrow> 's logger \<Rightarrow> 's logger" where
  "run_logger_op zap (OpNamed n) l = logger_named zap n l"
| "run_logger_op zap (OpWith kvs) l = logger_with zap kvs l"

text \<open>The names in a list of operations, and those after its last \<open>With\<close>.\<close>

definition names_of :: "logger_op list \<Rightarrow> string list" where
  "names_of ops = List.map_filter (\<lambda>op. case op of OpNamed n \<Rightarrow> Some n | OpWith _ \<Rightarrow> None) ops"

definition after_last_With :: "logger_op list \<Rightarrow> logger_op list" where
  "after_last_With ops = rev (takeWhile (\<lambda>op. case op of OpNamed _ \<Rightarrow> True | OpWith _ \<Rightarrow> False) (rev ops))"

text \<open>Names joined with dots, skipping the empty prefix.\<close>

definition join_names :: "string list \<Rightarrow> string" where
  "join_names ns = fold (\<lambda>n acc. joinName acc n) ns ''''"

lemma names_of_append [simp]: "names_of (xs @ ys) = names_of xs @ names_of ys"
  by (simp add: names_of_def List.map_filter_def)

lemma names_of_single [simp]: "names_of [OpNamed n] = [n]" "names_of [OpWith kvs] = []"
  by (simp_all add: names_of_def List.map_filter_def)

lemma join_names_snoc [simp]: "join_names [] = ''''" "join_names (ns @ [n]) = joinName (join_names ns) n"
  by (simp_all add: join_names_def)

lemma after_last_With_snoc [simp]:
  "after_last_With [] = []" "after_last_With (ops @ [OpNamed n]) = after_last_With ops @ [OpNamed n]"
  "after_last_With (ops @ [OpWith kvs]) = []"
  by (simp_all add: after_last_With_def)

text \<open>
  What zap documents of the name of a logger: a new one has none, \<open>Named\<close> joins with a dot, and
  \<open>With\<close> keeps it.  An empty name does not change it.
\<close>

definition zap_names :: "('s, 'c) zap_lib \<Rightarrow> ('s \<Rightarrow> string) \<Rightarrow> bool" where
  "zap_names zap zname \<longleftrightarrow> zname (zap_Nop zap) = ''''
     \<and> (\<forall>s n. n \<noteq> '''' \<longrightarrow> zname (zap_Named zap s n) = (if zname s = '''' then n else zname s @ ''.'' @ n))
     \<and> (\<forall>s. zname (zap_Named zap s '''') = zname s)
     \<and> (\<forall>s kvs. zname (zap_With zap s kvs) = zname s)"

text \<open>
  The name of a logger after any sequence of \<open>Named\<close> and \<open>With\<close>.  \<open>Name\<close> gives the names since
  the last \<open>With\<close>, because \<open>with\<close> drops the name, while the zap logger inside, which writes the log
  lines, keeps all of them; the two agree as long as \<open>With\<close> is not used and no name is empty.
\<close>

lemma logger_name_spec:
  assumes "zap_names zap zname" "'''' \<notin> set (names_of ops)"
  shows "logger_Name (fold (run_logger_op zap) ops (Nop_logger zap)) = join_names (names_of (after_last_With ops))
    \<and> zname (lg_SugaredLogger (fold (run_logger_op zap) ops (Nop_logger zap))) = join_names (names_of ops)"
  using assms(2)
proof (induction ops rule: rev_induct)
  case Nil
  then show ?case using assms(1) by (simp add: logger_Name_def Nop_logger_def zap_names_def names_of_def List.map_filter_def)
next
  case (snoc op ops)
  show ?case
  proof (cases op)
    case (OpNamed n)
    with snoc have IH: "lg_name (fold (run_logger_op zap) ops (Nop_logger zap)) = join_names (names_of (after_last_With ops))"
      "zname (lg_SugaredLogger (fold (run_logger_op zap) ops (Nop_logger zap))) = join_names (names_of ops)" and n: "n \<noteq> ''''"
      by (auto simp: logger_Name_def)
    have "zname (zap_Named zap s n) = joinName (zname s) n" for s
      using assms(1) n by (auto simp: zap_names_def joinName_def)
    with IH OpNamed show ?thesis by (simp add: logger_Name_def logger_named_def)
  next
    case (OpWith kvs)
    with snoc assms(1) show ?thesis
      by (simp add: logger_Name_def logger_with_def zap_names_def) (simp add: names_of_def List.map_filter_def)
  qed
qed

text \<open>A zap that only keeps names.\<close>

definition name_zap :: "(string, unit) zap_lib" where
  "name_zap = \<lparr>zap_With = \<lambda>s kvs. s, zap_Named = \<lambda>s n. if n = '''' then s else joinName s n, zap_Nop = '''',
     zap_ProductionConfig = (), zap_SetLevel = \<lambda>_ c. c, zap_Build = \<lambda>_. Inr ''''\<rparr>"

lemma name_zap_names: "zap_names name_zap id"
  by (simp add: zap_names_def name_zap_def joinName_def)

end
