(* ===== verification/Codegen.thy ===== *)
theory Codegen
  imports Prelude "HOL-Library.Sublist"
begin

text \<open>
  \<open>cmd/protoc-gen-go-wsrpc\<close>: the plugin of the protocol buffer compiler that prints the client
  and the server stubs of a service.  \<open>google.golang.org/protobuf/compiler/protogen\<close> is not part
  of the repository: its descriptors are records with the fields the plugin reads, and
  \<open>qual\<close> is \<open>QualifiedGoIdent\<close>, the name under which the printed file refers to an identifier.
  A run of a generator is the list of the calls it makes on its \<open>GeneratedFile\<close>.
\<close>

subsection \<open>Descriptors\<close>

record GoIdent =
  gi_GoName :: string
  gi_GoImportPath :: string

text \<open>\<open>pm_Leading\<close> is \<open>Comments.Leading\<close> as it is printed.\<close>

record proto_method =
  pm_GoName :: string
  pm_DescName :: string
  pm_Input :: GoIdent
  pm_Output :: GoIdent
  pm_Leading :: string

record proto_service =
  ps_GoName :: string
  ps_FullName :: string
  ps_Methods :: "proto_method list"

record proto_file =
  pf_Services :: "proto_service list"
  pf_GeneratedFilenamePrefix :: string
  pf_GoImportPath :: string
  pf_GoPackageName :: string
  pf_ProtoName :: string
  pf_Generate :: bool

record compiler_version =
  cv_Major :: "32 word"
  cv_Minor :: "32 word"
  cv_Patch :: "32 word"
  cv_Suffix :: string

text \<open>A \<open>GeneratedFile\<close> and the calls of \<open>P\<close> (\<open>GP\<close>) and \<open>AnnotateSymbol\<close> on it.\<close>

datatype emit = GP "string list" | AnnotateSymbol string

record generated_file =
  gf_filename :: string
  gf_import_path :: string
  gf_calls :: "emit list"

primrec printed :: "emit \<Rightarrow> string" where
  "printed (GP xs) = concat xs @ [CHR 0x0A]"
| "printed (AnnotateSymbol s) = []"

definition printed_text :: "emit list \<Rightarrow> string" where
  "printed_text es = concat (map printed es)"

subsection \<open>Standard library\<close>

text \<open>\<open>%d\<close> of an \<open>int32\<close>.\<close>

definition show_int32 :: "32 word \<Rightarrow> string" where
  "show_int32 w = (if sint w < 0 then ''-'' @ show_nat (nat (- sint w)) else show_nat (nat (sint w)))"

text \<open>
  \<open>strconv.Quote\<close> on ASCII text, which the names of protocol buffers are.  Bytes from 0x80 on
  are kept, as they are in printable UTF-8.
\<close>

definition quote_char :: char where
  "quote_char = CHR 0x22"

definition backslash :: char where
  "backslash = CHR 0x5C"

definition lower_hex :: "nat \<Rightarrow> char" where
  "lower_hex n = ''0123456789abcdef'' ! n"

definition quoted_char :: "char \<Rightarrow> string" where
  "quoted_char c =
     (let n = of_char c :: nat
      in if c = quote_char \<or> c = backslash then [backslash, c]
         else if n = 7 then [backslash, CHR ''a'']
         else if n = 8 then [backslash, CHR ''b'']
         else if n = 12 then [backslash, CHR ''f'']
         else if n = 10 then [backslash, CHR ''n'']
         else if n = 13 then [backslash, CHR ''r'']
         else if n = 9 then [backslash, CHR ''t'']
         else if n = 11 then [backslash, CHR ''v'']
         else if n < 32 \<or> n = 127 then [backslash, CHR ''x'', lower_hex (n div 16), lower_hex (n mod 16)]
         else [c])"

definition strconv_Quote :: "string \<Rightarrow> string" where
  "strconv_Quote s = quote_char # concat (map quoted_char s) @ [quote_char]"

text \<open>
  \<open>strings.ToLower\<close> of a string of one byte: a byte that is not ASCII is not valid UTF-8 and
  becomes the encoding of the replacement character.
\<close>

definition to_lower :: "char \<Rightarrow> string" where
  "to_lower c =
     (let n = of_char c :: nat
      in if 128 \<le> n then map char_of [0xEF, 0xBF, 0xBD :: nat]
         else if 65 \<le> n \<and> n \<le> 90 then [char_of (n + 32)]
         else [c])"

text \<open>\<open>s[:1]\<close> of the empty string panics.\<close>

primrec unexport :: "string \<Rightarrow> string go" where
  "unexport [] = Panic IndexOutOfRange"
| "unexport (c # s) = Ret (to_lower c @ s)"

primrec go_map :: "('a \<Rightarrow> 'b go) \<Rightarrow> 'a list \<Rightarrow> 'b list go" where
  "go_map f [] = Ret []"
| "go_map f (x # xs) = go_bind (f x) (\<lambda>y. go_bind (go_map f xs) (\<lambda>ys. Ret (y # ys)))"

lemma go_map_Ret: "(\<And>x. x \<in> set xs \<Longrightarrow> f x = Ret (g x)) \<Longrightarrow> go_map f xs = Ret (map g xs)"
  by (induction xs) simp_all

subsection \<open>The generator\<close>

definition contextPackage :: string where
  "contextPackage = ''context''"

definition wsrpcPackage :: string where
  "wsrpcPackage = ''github.com/smartcontractkit/wsrpc''"

definition version :: string where
  "version = ''0.0.1''"

definition Ident :: "string \<Rightarrow> string \<Rightarrow> GoIdent" where
  "Ident path name = \<lparr>gi_GoName = name, gi_GoImportPath = path\<rparr>"

definition protocVersion :: "compiler_version option \<Rightarrow> string" where
  "protocVersion v =
     (case v of
        None \<Rightarrow> ''(unknown)''
      | Some v \<Rightarrow>
          let suffix = (if cv_Suffix v \<noteq> [] then ''-'' @ cv_Suffix v else [])
          in ''v'' @ show_int32 (cv_Major v) @ ''.'' @ show_int32 (cv_Minor v) @ ''.''
             @ show_int32 (cv_Patch v) @ suffix)"

definition clientSignature :: "(GoIdent \<Rightarrow> string) \<Rightarrow> proto_method \<Rightarrow> string" where
  "clientSignature qual m =
     pm_GoName m @ ''(ctx '' @ qual (Ident contextPackage ''Context'')
     @ '', in *'' @ qual (pm_Input m) @ '') ('' @ ''*'' @ qual (pm_Output m) @ '', error)''"

definition serverSignature :: "(GoIdent \<Rightarrow> string) \<Rightarrow> proto_method \<Rightarrow> string" where
  "serverSignature qual m =
     (let ret = ''(*'' @ qual (pm_Output m) @ '', error)'';
          reqArgs = qual (Ident contextPackage ''Context'') @ '', '' @ ''*'' @ qual (pm_Input m)
      in pm_GoName m @ ''('' @ reqArgs @ '') '' @ ret)"

definition genClientMethod ::
  "(GoIdent \<Rightarrow> string) \<Rightarrow> proto_service \<Rightarrow> proto_method \<Rightarrow> emit list go"
where
  "genClientMethod qual service m =
     go_bind (unexport (ps_GoName service)) (\<lambda>lower. Ret
       [GP [''func (c *'', lower, ''Client) '', clientSignature qual m, ''{''],
        GP [''out := new('', qual (pm_Output m), '')''],
        GP [''err := c.cc.Invoke(ctx, '' @ [quote_char], pm_DescName m, [quote_char] @ '', in, out)''],
        GP [''if err != nil { return nil, err }''],
        GP [''return out, nil''],
        GP [''}''],
        GP []])"

definition handler_name :: "string \<Rightarrow> string \<Rightarrow> string" where
  "handler_name service method = ''_'' @ service @ ''_'' @ method @ ''_Handler''"

definition genServerMethod ::
  "(GoIdent \<Rightarrow> string) \<Rightarrow> proto_service \<Rightarrow> proto_method \<Rightarrow> emit list \<times> string"
where
  "genServerMethod qual service m =
     (let hname = handler_name (ps_GoName service) (pm_GoName m)
      in ([GP [''func '', hname, ''(srv interface{}, ctx '', qual (Ident contextPackage ''Context''),
              '', dec func(interface{}) error) (interface{}, error) {''],
           GP [''in := new('', qual (pm_Input m), '')''],
           GP [''if err := dec(in); err != nil { return nil, err }''],
           GP [''return srv.('', ps_GoName service, ''Server).'', pm_GoName m, ''(ctx, in)''],
           GP [''}''],
           GP []], hname))"

text \<open>One entry of the method table of the service descriptor.\<close>

definition descriptor_entry :: "proto_method \<Rightarrow> string \<Rightarrow> emit list" where
  "descriptor_entry m hname =
     [GP [''{''],
      GP [''MethodName: '', strconv_Quote (pm_DescName m), '',''],
      GP [''Handler: '', hname, '',''],
      GP [''},'']]"

definition interface_methods ::
  "(proto_method \<Rightarrow> string) \<Rightarrow> string \<Rightarrow> proto_method list \<Rightarrow> emit list"
where
  "interface_methods signature type_name ms =
     concat (map (\<lambda>m. [AnnotateSymbol (type_name @ ''.'' @ pm_GoName m), GP [pm_Leading m, signature m]]) ms)"

text \<open>The parts of \<open>genService\<close>, in the order of the code.\<close>

definition client_types :: "(GoIdent \<Rightarrow> string) \<Rightarrow> proto_service \<Rightarrow> emit list go" where
  "client_types qual service =
     (let clientName = ps_GoName service @ ''Client'';
          iface = qual (Ident wsrpcPackage ''ClientInterface'')
      in go_bind (unexport clientName) (\<lambda>lower. Ret (
         [GP [''// '', clientName, '' is the client API for '', ps_GoName service, '' service.''],
          GP [''//''],
          AnnotateSymbol clientName,
          GP [''type '', clientName, '' interface {'']]
         @ interface_methods (clientSignature qual) clientName (ps_Methods service)
         @ [GP [''}''], GP [],
            GP [''type '', lower, '' struct {''],
            GP [''cc '', iface],
            GP [''}''], GP [],
            GP [''func New'', clientName, '' (cc '', iface, '') '', clientName, '' {''],
            GP [''return &'', lower, ''{cc}''],
            GP [''}''], GP []])))"

definition server_interface :: "(GoIdent \<Rightarrow> string) \<Rightarrow> proto_service \<Rightarrow> emit list" where
  "server_interface qual service =
     (let serverType = ps_GoName service @ ''Server''
      in [GP [''// '', serverType, '' is the server API for '', ps_GoName service, '' service.''],
          AnnotateSymbol serverType,
          GP [''type '', serverType, '' interface {'']]
         @ interface_methods (serverSignature qual) serverType (ps_Methods service)
         @ [GP [''}''], GP []])"

definition registration :: "(GoIdent \<Rightarrow> string) \<Rightarrow> proto_service \<Rightarrow> emit list" where
  "registration qual service =
     [GP [''func Register'', ps_GoName service, ''Server(s '', qual (Ident wsrpcPackage ''ServiceRegistrar''),
         '', srv '', ps_GoName service @ ''Server'', '') {''],
      GP [''s.RegisterService(&'', ps_GoName service @ ''_ServiceDesc'', '', srv)''],
      GP [''}''], GP []]"

definition descriptor ::
  "(GoIdent \<Rightarrow> string) \<Rightarrow> proto_service \<Rightarrow> string list \<Rightarrow> emit list"
where
  "descriptor qual service handlerNames =
     (let serviceDescVar = ps_GoName service @ ''_ServiceDesc'';
          desc = qual (Ident wsrpcPackage ''ServiceDesc'')
      in [GP [''// '', serviceDescVar, '' is the '', desc, '' for '', ps_GoName service, '' service.''],
          GP [''// It's only intended for direct use with '', qual (Ident wsrpcPackage ''RegisterService''), '',''],
          GP [''// and not to be introspected or modified (even as a copy)''],
          GP [''var '', serviceDescVar, '' = '', desc, '' {''],
          GP [''ServiceName: '', strconv_Quote (ps_FullName service), '',''],
          GP [''HandlerType: (*'', ps_GoName service @ ''Server'', '')(nil),''],
          GP [''Methods: []'', qual (Ident wsrpcPackage ''MethodDesc''), ''{'']]
         @ concat (map (\<lambda>(m, hname). descriptor_entry m hname) (zip (ps_Methods service) handlerNames))
         @ [GP [''},''], GP [''}''], GP []])"

definition genService :: "(GoIdent \<Rightarrow> string) \<Rightarrow> proto_service \<Rightarrow> emit list go" where
  "genService qual service =
     go_bind (client_types qual service) (\<lambda>types.
       go_bind (go_map (genClientMethod qual service) (ps_Methods service)) (\<lambda>clientMethods.
         let handlers = map (genServerMethod qual service) (ps_Methods service)
         in Ret (types @ concat clientMethods @ server_interface qual service @ registration qual service
              @ concat (map fst handlers) @ descriptor qual service (map snd handlers))))"

definition generateFileContent :: "(GoIdent \<Rightarrow> string) \<Rightarrow> proto_file \<Rightarrow> emit list go" where
  "generateFileContent qual file =
     (if pf_Services file = [] then Ret []
      else go_bind (go_map (genService qual) (pf_Services file)) (\<lambda>ess. Ret (concat ess)))"

text \<open>\<open>generateFile\<close> returns nil for a file without services.\<close>

definition generateFile ::
  "(GoIdent \<Rightarrow> string) \<Rightarrow> compiler_version option \<Rightarrow> proto_file \<Rightarrow> generated_file option go"
where
  "generateFile qual v file =
     (if pf_Services file = [] then Ret None
      else go_bind (generateFileContent qual file) (\<lambda>content.
        Ret (Some \<lparr>gf_filename = pf_GeneratedFilenamePrefix file @ ''_wsrpc.pb.go'',
          gf_import_path = pf_GoImportPath file,
          gf_calls =
            [GP [''// Code generated by protoc-gen-go-wsrpc. DO NOT EDIT.''],
             GP [''// versions:''],
             GP [''// - protoc-gen-go-wsrpc v'', version],
             GP [''// - protoc             '', protocVersion v],
             GP [],
             GP [''package '', pf_GoPackageName file],
             GP []] @ content\<rparr>)))"

text \<open>The callback of \<open>main\<close>: the files it was asked to generate; \<open>qual\<close> depends on the file.\<close>

definition plugin_run ::
  "(proto_file \<Rightarrow> GoIdent \<Rightarrow> string) \<Rightarrow> compiler_version option \<Rightarrow> proto_file list \<Rightarrow> generated_file list go"
where
  "plugin_run qual v files =
     go_bind (go_map (\<lambda>f. if \<not> pf_Generate f then Ret None else generateFile (qual f) v f) files)
       (\<lambda>gs. Ret (List.map_filter id gs))"

subsection \<open>The flag of the plugin\<close>

text \<open>
  \<open>strFlags\<close> of \<open>main.go\<close>: the value of \<open>--client-services\<close>, which may be given several times.  \<open>%s\<close>
  prints a slice of strings in brackets, separated by blanks.
\<close>

type_synonym strFlags = "string list"

definition join :: "string \<Rightarrow> string list \<Rightarrow> string" where
  "join sep xs = (case xs of [] \<Rightarrow> [] | y # ys \<Rightarrow> y @ concat (map (\<lambda>x. sep @ x) ys))"

definition strFlags_String :: "strFlags \<Rightarrow> string" where
  "strFlags_String f = ''['' @ join '' '' f @ '']''"

definition strFlags_Set :: "strFlags \<Rightarrow> string \<Rightarrow> go_error option \<times> strFlags" where
  "strFlags_Set f value = (None, f @ [value])"

lemma strFlags_Set_collects:
  "fold (\<lambda>v f. snd (strFlags_Set f v)) vs f = f @ vs"
  by (induction vs arbitrary: f) (simp_all add: strFlags_Set_def)

subsection \<open>The main function\<close>

text \<open>
  \<open>clientServices\<close> is the variable behind the flag.  \<open>params\<close> are the parameters that \<open>protogen\<close>
  passes to \<open>ParamFunc\<close>, the \<open>Set\<close> of a flag set with this one flag; an error ends the plugin.
  \<open>showVersion\<close> is the value of the command-line flag.
\<close>

definition clientServices :: strFlags where
  "clientServices = []"

fun flags_Set :: "(string \<times> string) list \<Rightarrow> strFlags \<Rightarrow> strFlags res" where
  "flags_Set [] f = Inr f"
| "flags_Set ((name, value) # params) f =
     (if name = ''client-services''
      then case strFlags_Set f value of (Some err, f1) \<Rightarrow> Inl err | (None, f1) \<Rightarrow> flags_Set params f1
      else Inl (New (''no such flag -'' @ name)))"

datatype plugin_result = PrintsVersion string | ParamError go_error | Generates strFlags "generated_file list"

definition plugin_main ::
  "bool \<Rightarrow> (string \<times> string) list \<Rightarrow> (proto_file \<Rightarrow> GoIdent \<Rightarrow> string) \<Rightarrow> compiler_version option
    \<Rightarrow> proto_file list \<Rightarrow> plugin_result go"
where
  "plugin_main showVersion params qual v files =
     (if showVersion then Ret (PrintsVersion (''protoc-gen-go-wsrpc '' @ version @ [CHR 0x0A]))
      else case flags_Set params clientServices of
             Inl err \<Rightarrow> Ret (ParamError err)
           | Inr services \<Rightarrow> go_bind (plugin_run qual v files) (\<lambda>gs. Ret (Generates services gs)))"

text \<open>The values of \<open>--client-services\<close> are collected, and nothing reads them.\<close>

lemma flags_Set_collects:
  "flags_Set (map (Pair ''client-services'') vs) f = Inr (f @ vs)"
  by (induction vs arbitrary: f) (simp_all add: strFlags_Set_def)

lemma client_services_ignored:
  "plugin_main False (map (Pair ''client-services'') vs) qual v files =
     go_bind (plugin_run qual v files) (\<lambda>gs. Ret (Generates vs gs))"
  by (simp add: plugin_main_def flags_Set_collects clientServices_def)

subsection \<open>Properties\<close>

text \<open>Names are never empty, so no run of the generator panics.\<close>

lemma generateFile_Some:
  assumes "pf_Services file \<noteq> []" "\<forall>s \<in> set (pf_Services file). ps_GoName s \<noteq> []"
  obtains g where "generateFile qual v file = Ret (Some g)"
proof -
  have "\<exists>es. genService qual s = Ret es" if "s \<in> set (pf_Services file)" for s
  proof -
    have client: "\<exists>es. genClientMethod qual s m = Ret es" for m
      using assms(2) that by (cases "ps_GoName s") (auto simp: genClientMethod_def)
    then obtain f where f: "genClientMethod qual s = (\<lambda>m. Ret (f m))" by metis
    have "go_map (genClientMethod qual s) (ps_Methods s) = Ret (map f (ps_Methods s))"
      by (rule go_map_Ret) (simp add: f)
    then show ?thesis
      by (cases "ps_GoName s") (simp_all add: genService_def client_types_def Let_def)
  qed
  then obtain h where "\<And>s. s \<in> set (pf_Services file) \<Longrightarrow> genService qual s = Ret (h s)" by metis
  then have "go_map (genService qual) (pf_Services file) = Ret (map h (pf_Services file))" by (rule go_map_Ret)
  with assms(1) that show ?thesis by (simp add: generateFile_def generateFileContent_def)
qed

text \<open>Names of protocol buffers: letters, digits and underscores, and dots in full names.\<close>

definition name_char :: "char \<Rightarrow> bool" where
  "name_char c = (let n = of_char c :: nat in
     48 \<le> n \<and> n \<le> 57 \<or> 65 \<le> n \<and> n \<le> 90 \<or> 97 \<le> n \<and> n \<le> 122 \<or> n = 95 \<or> n = 46)"

lemma quoted_name_char: "name_char c \<Longrightarrow> quoted_char c = [c]"
proof -
  assume "name_char c"
  moreover have "of_char quote_char = (34 :: nat)" "of_char backslash = (92 :: nat)"
    by (simp_all add: quote_char_def backslash_def)
  ultimately show ?thesis by (auto simp: quoted_char_def name_char_def Let_def)
qed

lemma strconv_Quote_name: "\<forall>c \<in> set s. name_char c \<Longrightarrow> strconv_Quote s = quote_char # s @ [quote_char]"
  by (induction s) (simp_all add: strconv_Quote_def quoted_name_char)

lemma sublist_concat_map: "x \<in> set xs \<Longrightarrow> sublist (f x) (concat (map f xs))"
  by (induction xs) (auto simp: sublist_append)

lemma go_map_eq_Ret: "go_map f xs = Ret ys \<Longrightarrow> x \<in> set xs \<Longrightarrow> \<exists>y \<in> set ys. f x = Ret y"
proof (induction xs arbitrary: ys)
  case (Cons a xs)
  then obtain y ys' where "f a = Ret y" "go_map f xs = Ret ys'" "ys = y # ys'" by auto
  with Cons show ?case by auto
qed simp

text \<open>What a run for a service contains for each of its methods.\<close>

lemma genService_parts:
  assumes "genService qual s = Ret es" "m \<in> set (ps_Methods s)"
  obtains c where "genClientMethod qual s m = Ret c" "set c \<subseteq> set es"
    "set (fst (genServerMethod qual s m)) \<subseteq> set es"
    "sublist (descriptor_entry m (handler_name (ps_GoName s) (pm_GoName m))) es"
proof -
  let ?hs = "map (genServerMethod qual s) (ps_Methods s)"
  from assms(1) obtain t cs where cs: "go_map (genClientMethod qual s) (ps_Methods s) = Ret cs"
    and es: "es = t @ concat cs @ server_interface qual s @ registration qual s @ concat (map fst ?hs)
      @ descriptor qual s (map snd ?hs)"
    by (auto simp: genService_def Let_def)
  from go_map_eq_Ret [OF cs assms(2)] obtain c where c: "c \<in> set cs" "genClientMethod qual s m = Ret c" by blast
  have snd_h: "snd (genServerMethod qual s m') = handler_name (ps_GoName s) (pm_GoName m')" for m'
    by (simp add: genServerMethod_def Let_def)
  have entries: "concat (map (\<lambda>(m, hname). descriptor_entry m hname) (zip (ps_Methods s) (map snd ?hs)))
      = concat (map (\<lambda>m. descriptor_entry m (handler_name (ps_GoName s) (pm_GoName m))) (ps_Methods s))"
    by (simp add: zip_map2 zip_same_conv_map comp_def snd_h)
  let ?e = "descriptor_entry m (handler_name (ps_GoName s) (pm_GoName m))"
  have "sublist ?e (concat (map (\<lambda>m. descriptor_entry m (handler_name (ps_GoName s) (pm_GoName m))) (ps_Methods s)))"
    by (rule sublist_concat_map [OF assms(2)])
  then have "sublist ?e (descriptor qual s (map snd ?hs))"
    unfolding descriptor_def Let_def entries
    by (intro sublist_append [THEN iffD2] disjI2 disjI1)
  then have "sublist ?e es"
    unfolding es by (simp add: sublist_append)
  moreover have "set c \<subseteq> set es" using c(1) by (auto simp: es)
  moreover have "set (fst (genServerMethod qual s m)) \<subseteq> set es" using assms(2) by (auto simp: es)
  ultimately show ?thesis using c(2) that by blast
qed


text \<open>A service with one method, whose identifiers are printed without their package.\<close>

definition echo_method :: proto_method where
  "echo_method = \<lparr>pm_GoName = ''Echo'', pm_DescName = ''Echo'', pm_Input = Ident ''pb'' ''EchoRequest'',
     pm_Output = Ident ''pb'' ''EchoResponse'', pm_Leading = []\<rparr>"

definition echo_proto_service :: proto_service where
  "echo_proto_service = \<lparr>ps_GoName = ''Echo'', ps_FullName = ''rpcs.Echo'', ps_Methods = [echo_method]\<rparr>"


lemma append_sep_eq:
  "c \<notin> set s \<Longrightarrow> c \<notin> set s' \<Longrightarrow> s @ c # m = s' @ c # m' \<longleftrightarrow> s = s' \<and> m = m'"
proof (induction s arbitrary: s')
  case Nil
  then show ?case by (cases s') auto
next
  case (Cons a s)
  then show ?case by (cases s') auto
qed

text \<open>
  Handler names are unique as long as the Go names of the services have no underscore.  With
  one, two services of a file can be given the same handler name, and then the printed file declares
  this function twice and does not compile.
\<close>

lemma handler_names_unique:
  "(CHR ''_'' \<notin> set s \<and> CHR ''_'' \<notin> set s' \<longrightarrow>
      handler_name s m = handler_name s' m' \<longrightarrow> s = s' \<and> m = m')
   \<and> handler_name ''A_B'' ''C'' = handler_name ''A'' ''B_C''"
  by (simp add: handler_name_def append_sep_eq)

end
