(* ===== verification/CodegenGrpc.thy ===== *)
theory CodegenGrpc
  imports Codegen "HOL-Library.Sublist"
begin

text \<open>
  \<open>cmd/protoc-gen-go-wsrpcgrpc\<close>: the second plugin, which prints stubs for wsRPC and for gRPC
  side by side.  It is a program of its own with its own copies of the helpers; a copy has the
  name of the original with the suffix \<open>_grpc\<close>.
\<close>

subsection \<open>The generator\<close>

definition grpcPackage :: string where
  "grpcPackage = ''google.golang.org/grpc''"

definition codesPackage :: string where
  "codesPackage = ''google.golang.org/grpc/codes''"

definition statusPackage :: string where
  "statusPackage = ''google.golang.org/grpc/status''"

definition protocVersion_grpc :: "compiler_version option \<Rightarrow> string" where
  "protocVersion_grpc v =
     (case v of
        None \<Rightarrow> ''(unknown)''
      | Some v \<Rightarrow>
          let suffix = (if cv_Suffix v \<noteq> [] then ''-'' @ cv_Suffix v else [])
          in ''v'' @ show_int32 (cv_Major v) @ ''.'' @ show_int32 (cv_Minor v) @ ''.''
             @ show_int32 (cv_Patch v) @ suffix)"

primrec unexport_grpc :: "string \<Rightarrow> string go" where
  "unexport_grpc [] = Panic IndexOutOfRange"
| "unexport_grpc (c # s) = Ret (to_lower c @ s)"

definition clientSignature_grpc :: "(GoIdent \<Rightarrow> string) \<Rightarrow> proto_method \<Rightarrow> string" where
  "clientSignature_grpc qual m =
     pm_GoName m @ ''(ctx '' @ qual (Ident contextPackage ''Context'')
     @ '', in *'' @ qual (pm_Input m) @ '') ('' @ ''*'' @ qual (pm_Output m) @ '', error)''"

definition serverSignature_grpc :: "(GoIdent \<Rightarrow> string) \<Rightarrow> proto_method \<Rightarrow> string" where
  "serverSignature_grpc qual m =
     (let ret = ''(*'' @ qual (pm_Output m) @ '', error)'';
          reqArgs = qual (Ident contextPackage ''Context'') @ '', '' @ ''*'' @ qual (pm_Input m)
      in pm_GoName m @ ''('' @ reqArgs @ '') '' @ ret)"

definition genWsrpcClientMethod ::
  "(GoIdent \<Rightarrow> string) \<Rightarrow> proto_service \<Rightarrow> proto_method \<Rightarrow> emit list go"
where
  "genWsrpcClientMethod qual service m =
     go_bind (unexport_grpc (ps_GoName service)) (\<lambda>lower. Ret
       [GP [''func (c *'', lower, ''Client) '', clientSignature_grpc qual m, ''{''],
        GP [''out := new('', qual (pm_Output m), '')''],
        GP [''err := c.cc.Invoke(ctx, '' @ [quote_char], pm_DescName m, [quote_char] @ '', in, out)''],
        GP [''if err != nil { return nil, err }''],
        GP [''return out, nil''],
        GP [''}''],
        GP []])"

definition genGrpcClientMethod ::
  "(GoIdent \<Rightarrow> string) \<Rightarrow> proto_service \<Rightarrow> proto_method \<Rightarrow> emit list go"
where
  "genGrpcClientMethod qual service m =
     go_bind (unexport_grpc (ps_GoName service)) (\<lambda>lower. Ret
       [GP [''func (c *'', lower, ''GrpcClient) '', clientSignature_grpc qual m, ''{''],
        GP [''out := new('', qual (pm_Output m), '')''],
        GP [''err := c.cc.Invoke(ctx, '' @ [quote_char], ''/pb.'', ps_GoName service, ''/'', pm_DescName m,
           [quote_char] @ '', in, out)''],
        GP [''if err != nil { return nil, err }''],
        GP [''return out, nil''],
        GP [''}''],
        GP []])"

definition printUnimplementedServerMethod ::
  "(GoIdent \<Rightarrow> string) \<Rightarrow> proto_service \<Rightarrow> proto_method \<Rightarrow> emit list"
where
  "printUnimplementedServerMethod qual service m =
     (let unimplementedServerType = ''Unimplemented'' @ ps_GoName service @ ''Server'';
          reqArgs = qual (Ident contextPackage ''Context'') @ '', '' @ ''*'' @ qual (pm_Input m);
          ret = ''(*'' @ qual (pm_Output m) @ '', error)''
      in [GP [''func ('' @ unimplementedServerType @ '') '' @ pm_GoName m @ ''('' @ reqArgs @ '') '' @ ret @ '' {''],
          GP [''return nil, '', qual (Ident statusPackage ''Errorf''), ''('', qual (Ident codesPackage ''Unimplemented''),
             '', '' @ [quote_char] @ ''method '', pm_GoName m, '' not implemented'' @ [quote_char] @ '')''],
          GP [''}'']])"

definition genWsrpcServerMethod ::
  "(GoIdent \<Rightarrow> string) \<Rightarrow> proto_service \<Rightarrow> proto_method \<Rightarrow> emit list \<times> string"
where
  "genWsrpcServerMethod qual service m =
     (let hname = ''_'' @ ps_GoName service @ ''_'' @ pm_GoName m @ ''_Handler''
      in ([GP [''func '', hname, ''(srv interface{}, ctx '', qual (Ident contextPackage ''Context''),
              '', dec func(interface{}) error) (interface{}, error) {''],
           GP [''in := new('', qual (pm_Input m), '')''],
           GP [''if err := dec(in); err != nil { return nil, err }''],
           GP [''return srv.('', ps_GoName service, ''Server).'', pm_GoName m, ''(ctx, in)''],
           GP [''}''],
           GP []], hname))"

definition newline_tabs :: "nat \<Rightarrow> string" where
  "newline_tabs n = CHR 0x0A # replicate n (CHR 0x09)"

definition genGrpcServerMethod ::
  "(GoIdent \<Rightarrow> string) \<Rightarrow> proto_service \<Rightarrow> proto_method \<Rightarrow> emit list \<times> string"
where
  "genGrpcServerMethod qual service m =
     (let serverType = ps_GoName service @ ''Server'';
          hname = ''_'' @ ps_GoName service @ ''_'' @ pm_GoName m @ ''_Grpc_Handler''
      in ([GP [''func '', hname, ''(srv interface{}, ctx '', qual (Ident contextPackage ''Context''),
              '', dec func(interface{}) error, interceptor grpc.UnaryServerInterceptor) (interface{}, error) {''],
           GP [''in := new('', qual (pm_Input m), '')''],
           GP [''if err := dec(in); err != nil { return nil, err }''],
           GP [''if interceptor == nil {'' @ newline_tabs 2 @ ''return srv.('', serverType, '').'', pm_GoName m,
              ''(ctx, in)'' @ newline_tabs 1 @ ''}''],
           GP [''info := &'', qual (Ident grpcPackage ''UnaryServerInfo''), ''{''],
           GP [CHR 0x09 # ''Server:     srv,''],
           GP [CHR 0x09 # ''FullMethod: '' @ [quote_char] @ ''/pb.'', ps_GoName service, ''/'', pm_GoName m,
              [quote_char] @ '',''],
           GP [''}''],
           GP [''handler := func(ctx '', qual (Ident contextPackage ''Context''), '', req interface{}) (interface{}, error) {''],
           GP [''return srv.('', serverType, '').'', pm_GoName m, ''(ctx, req.(*'', pm_GoName m, ''Request))''],
           GP [''}''],
           GP [''return interceptor(ctx, in, info, handler)''],
           GP [''}'']], hname))"

text \<open>The parts of \<open>genService\<close>, in the order of the code.\<close>

definition client_types_grpc :: "(GoIdent \<Rightarrow> string) \<Rightarrow> proto_service \<Rightarrow> emit list go" where
  "client_types_grpc qual service =
     (let wsrpcClientName = ps_GoName service @ ''Client'';
          grpcClientName = ps_GoName service @ ''Grpc'' @ ''Client'';
          iface = qual (Ident wsrpcPackage ''ClientInterface'');
          grpc_iface = qual (Ident grpcPackage ''ClientConnInterface'')
      in go_bind (unexport_grpc wsrpcClientName) (\<lambda>wsrpc_lower.
         go_bind (unexport_grpc grpcClientName) (\<lambda>grpc_lower. Ret (
         [GP [''// This is a compile-time assertion to ensure that this generated file''],
          GP [''// is compatible with the grpc package it is being compiled against.''],
          GP [''// Requires gRPC-Go v1.32.0 or later.''],
          GP [''const _ = grpc.SupportPackageIsVersion7''],
          GP [''// '', wsrpcClientName, '' is the client API for '', ps_GoName service, '' service.''],
          GP [''//''],
          AnnotateSymbol wsrpcClientName,
          GP [''type '', wsrpcClientName, '' interface {'']]
         @ interface_methods (clientSignature_grpc qual) wsrpcClientName (ps_Methods service)
         @ [GP [''}''], GP [],
            GP [''type '', wsrpc_lower, '' struct {''],
            GP [''cc '', iface],
            GP [''}''], GP []]
         @ [GP [''type '', grpc_lower, '' struct {''],
            GP [''cc '', grpc_iface],
            GP [''}''], GP []]
         @ [GP [''func New'', wsrpcClientName, '' (cc '', iface, '') '', wsrpcClientName, '' {''],
            GP [''return &'', wsrpc_lower, ''{cc}''],
            GP [''}''], GP []]
         @ [GP [''func New'', grpcClientName, '' (cc '', grpc_iface, '') '', wsrpcClientName, '' {''],
            GP [''return &'', grpc_lower, ''{cc}''],
            GP [''}''], GP []]))))"

definition genClientMethods_grpc ::
  "(GoIdent \<Rightarrow> string) \<Rightarrow> proto_service \<Rightarrow> proto_method \<Rightarrow> emit list go"
where
  "genClientMethods_grpc qual service m =
     go_bind (genWsrpcClientMethod qual service m) (\<lambda>ws.
       go_bind (genGrpcClientMethod qual service m) (\<lambda>gs. Ret (ws @ gs)))"

definition server_types_grpc :: "(GoIdent \<Rightarrow> string) \<Rightarrow> proto_service \<Rightarrow> emit list" where
  "server_types_grpc qual service =
     (let serverType = ps_GoName service @ ''Server'';
          unimplementedServerType = ''Unimplemented'' @ serverType;
          unsafeServerType = ''Unsafe'' @ serverType
      in [GP [''// '', serverType, '' is the server API for '', ps_GoName service, '' service.''],
          AnnotateSymbol serverType,
          GP [''type '', serverType, '' interface {'']]
         @ interface_methods (serverSignature_grpc qual) serverType (ps_Methods service)
         @ [GP [''mustEmbed'', unimplementedServerType, ''()'']] @ [GP [''}''], GP []]
         @ [GP [''// '' @ unimplementedServerType @ '' must be embedded to have forward compatible implementations.''],
            GP [''type '', unimplementedServerType, '' struct {''],
            GP [''}''], GP []]
         @ concat (map (printUnimplementedServerMethod qual service) (ps_Methods service))
         @ [GP [''func ('', unimplementedServerType, '') mustEmbed'', unimplementedServerType, ''() {}''],
            GP [''// '', unsafeServerType, '' may be embedded to opt out of forward compatibility for this service.''],
            GP [''// Use of this interface is not recommended, as added methods to '', serverType, '' will''],
            GP [''// result in compilation errors.''],
            GP [''type '', unsafeServerType, '' interface {''],
            GP [''mustEmbed'', unimplementedServerType, ''()''],
            GP [''}'']])"

definition registration_grpc :: "(GoIdent \<Rightarrow> string) \<Rightarrow> proto_service \<Rightarrow> emit list" where
  "registration_grpc qual service =
     [GP [''func Register'', ps_GoName service, ''Server(s '', qual (Ident wsrpcPackage ''ServiceRegistrar''),
         '', srv '', ps_GoName service @ ''Server'', '') {''],
      GP [''s.RegisterService(&'', ps_GoName service @ ''_ServiceDesc'', '', srv)''],
      GP [''}''], GP []]
     @ [GP [''func RegisterGrpc'', ps_GoName service, ''Server(s '', qual (Ident grpcPackage ''ServiceRegistrar''),
         '', srv '', ps_GoName service @ ''Server'', '') {''],
        GP [''s.RegisterService(&'', ps_GoName service @ ''_ServiceDesc'' @ ''_Grpc'', '', srv)''],
        GP [''}''], GP []]"

text \<open>Both loops over the methods and their handler names.\<close>

definition descriptor_entries_grpc :: "proto_method list \<Rightarrow> string list \<Rightarrow> emit list" where
  "descriptor_entries_grpc ms handlerNames =
     concat (map (\<lambda>(m, hname).
       [GP [''{''],
        GP [''MethodName: '', strconv_Quote (pm_DescName m), '',''],
        GP [''Handler: '', hname, '',''],
        GP [''},'']]) (zip ms handlerNames))"

definition wsrpc_descriptor ::
  "(GoIdent \<Rightarrow> string) \<Rightarrow> proto_service \<Rightarrow> string list \<Rightarrow> emit list"
where
  "wsrpc_descriptor qual service handlerNames =
     (let serviceDescVar = ps_GoName service @ ''_ServiceDesc'';
          desc = qual (Ident wsrpcPackage ''ServiceDesc'')
      in [GP [''// '', serviceDescVar, '' is the '', desc, '' for '', ps_GoName service, '' service.''],
          GP [''// It's only intended for direct use with '', qual (Ident wsrpcPackage ''RegisterService''), '',''],
          GP [''// and not to be introspected or modified (even as a copy)''],
          GP [''var '', serviceDescVar, '' = '', desc, '' {''],
          GP [''ServiceName: '', strconv_Quote (ps_FullName service), '',''],
          GP [''HandlerType: (*'', ps_GoName service @ ''Server'', '')(nil),''],
          GP [''Methods: []'', qual (Ident wsrpcPackage ''MethodDesc''), ''{'']]
         @ descriptor_entries_grpc (ps_Methods service) handlerNames
         @ [GP [''},''], GP [''}''], GP []])"

definition grpc_descriptor ::
  "(GoIdent \<Rightarrow> string) \<Rightarrow> string \<Rightarrow> proto_service \<Rightarrow> string list \<Rightarrow> emit list"
where
  "grpc_descriptor qual proto_name service handlerNames =
     (let serviceDescVar = ps_GoName service @ ''_ServiceDesc'' @ ''_Grpc'';
          desc = qual (Ident grpcPackage ''ServiceDesc'')
      in [GP [''// '', serviceDescVar, '' is the '', desc, '' for '', ps_GoName service, '' service.''],
          GP [''// It's only intended for direct use with '', qual (Ident grpcPackage ''RegisterService''), '',''],
          GP [''// and not to be introspected or modified (even as a copy)''],
          GP [''var '', serviceDescVar, '' = '', desc, '' {''],
          GP [''ServiceName: '', strconv_Quote (ps_FullName service), '',''],
          GP [''HandlerType: (*'', ps_GoName service @ ''Server'', '')(nil),''],
          GP [''Methods: []'', qual (Ident grpcPackage ''MethodDesc''), ''{'']]
         @ descriptor_entries_grpc (ps_Methods service) handlerNames
         @ [GP [''},''],
            GP [''Streams:  []'', qual (Ident grpcPackage ''StreamDesc''), ''{},''],
            GP [''Metadata: '' @ [quote_char], proto_name, [quote_char] @ '',''],
            GP [''}''], GP []])"

definition genService_grpc :: "(GoIdent \<Rightarrow> string) \<Rightarrow> string \<Rightarrow> proto_service \<Rightarrow> emit list go" where
  "genService_grpc qual proto_name service =
     go_bind (client_types_grpc qual service) (\<lambda>types.
       go_bind (go_map (genClientMethods_grpc qual service) (ps_Methods service)) (\<lambda>clientMethods.
         let handlers = map (\<lambda>m. (genWsrpcServerMethod qual service m, genGrpcServerMethod qual service m))
               (ps_Methods service)
         in Ret (types @ concat clientMethods @ server_types_grpc qual service @ registration_grpc qual service
              @ concat (map (\<lambda>(w, g). fst w @ fst g) handlers)
              @ wsrpc_descriptor qual service (map (\<lambda>(w, g). snd w) handlers)
              @ grpc_descriptor qual proto_name service (map (\<lambda>(w, g). snd g) handlers))))"

definition generateFileContent_grpc :: "(GoIdent \<Rightarrow> string) \<Rightarrow> proto_file \<Rightarrow> emit list go" where
  "generateFileContent_grpc qual file =
     (if pf_Services file = [] then Ret []
      else go_bind (go_map (genService_grpc qual (pf_ProtoName file)) (pf_Services file)) (\<lambda>ess. Ret (concat ess)))"

definition version_grpc :: string where
  "version_grpc = ''0.0.1''"

definition generateFile_grpc ::
  "(GoIdent \<Rightarrow> string) \<Rightarrow> compiler_version option \<Rightarrow> proto_file \<Rightarrow> generated_file option go"
where
  "generateFile_grpc qual v file =
     (if pf_Services file = [] then Ret None
      else go_bind (generateFileContent_grpc qual file) (\<lambda>content.
        Ret (Some \<lparr>gf_filename = pf_GeneratedFilenamePrefix file @ ''_wsrpc.pb.go'',
          gf_import_path = pf_GoImportPath file,
          gf_calls =
            [GP [''// Code generated by protoc-gen-go-wsrpc. DO NOT EDIT.''],
             GP [''// versions:''],
             GP [''// - protoc-gen-go-wsrpc v'', version_grpc],
             GP [''// - protoc             '', protocVersion_grpc v],
             GP [],
             GP [''package '', pf_GoPackageName file],
             GP []] @ content\<rparr>)))"

definition plugin_run_grpc ::
  "(proto_file \<Rightarrow> GoIdent \<Rightarrow> string) \<Rightarrow> compiler_version option \<Rightarrow> proto_file list \<Rightarrow> generated_file list go"
where
  "plugin_run_grpc qual v files =
     go_bind (go_map (\<lambda>f. if \<not> pf_Generate f then Ret None else generateFile_grpc (qual f) v f) files)
       (\<lambda>gs. Ret (List.map_filter id gs))"

subsection \<open>The main function\<close>

definition clientServices_grpc :: strFlags where
  "clientServices_grpc = []"

definition strFlags_String_grpc :: "strFlags \<Rightarrow> string" where
  "strFlags_String_grpc f = ''['' @ join '' '' f @ '']''"

definition strFlags_Set_grpc :: "strFlags \<Rightarrow> string \<Rightarrow> go_error option \<times> strFlags" where
  "strFlags_Set_grpc f value = (None, f @ [value])"

fun flags_Set_grpc :: "(string \<times> string) list \<Rightarrow> strFlags \<Rightarrow> strFlags res" where
  "flags_Set_grpc [] f = Inr f"
| "flags_Set_grpc ((name, value) # params) f =
     (if name = ''client-services''
      then case strFlags_Set_grpc f value of (Some err, f1) \<Rightarrow> Inl err | (None, f1) \<Rightarrow> flags_Set_grpc params f1
      else Inl (New (''no such flag -'' @ name)))"

definition plugin_main_grpc ::
  "bool \<Rightarrow> (string \<times> string) list \<Rightarrow> (proto_file \<Rightarrow> GoIdent \<Rightarrow> string) \<Rightarrow> compiler_version option
    \<Rightarrow> proto_file list \<Rightarrow> plugin_result go"
where
  "plugin_main_grpc showVersion params qual v files =
     (if showVersion then Ret (PrintsVersion (''protoc-gen-go-wsrpcgrpc '' @ version_grpc @ [CHR 0x0A]))
      else case flags_Set_grpc params clientServices_grpc of
             Inl err \<Rightarrow> Ret (ParamError err)
           | Inr services \<Rightarrow> go_bind (plugin_run_grpc qual v files) (\<lambda>gs. Ret (Generates services gs)))"

text \<open>
  Both plugins write to the same file, although the comment of the second one promises another name, and
  the second one signs it with the name of the first.
\<close>

lemma same_output_file:
  "generateFile qual v file = Ret (Some g) \<Longrightarrow> generateFile_grpc qual' v' file = Ret (Some g') \<Longrightarrow>
     gf_filename g = gf_filename g' \<and> hd (gf_calls g) = hd (gf_calls g')"
  by (auto simp: generateFile_def generateFile_grpc_def split: if_splits)

subsection \<open>The stubs of the first plugin are among the stubs of the second\<close>

lemma copies [simp]:
  "unexport_grpc = unexport"
  "clientSignature_grpc = clientSignature"
  "serverSignature_grpc = serverSignature"
  "genWsrpcClientMethod = genClientMethod"
  "genWsrpcServerMethod = genServerMethod"
  "protocVersion_grpc = protocVersion"
proof -
  show u: "unexport_grpc = unexport"
  proof
    show "unexport_grpc s = unexport s" for s by (cases s) simp_all
  qed
  show c: "clientSignature_grpc = clientSignature"
    by (intro ext) (simp add: clientSignature_grpc_def clientSignature_def)
  show "serverSignature_grpc = serverSignature"
    by (intro ext) (simp add: serverSignature_grpc_def serverSignature_def)
  show "genWsrpcClientMethod = genClientMethod"
    by (intro ext) (simp add: genWsrpcClientMethod_def genClientMethod_def u c)
  show "genWsrpcServerMethod = genServerMethod"
    by (intro ext) (simp add: genWsrpcServerMethod_def genServerMethod_def handler_name_def)
  show "protocVersion_grpc = protocVersion"
    by (intro ext) (simp add: protocVersion_grpc_def protocVersion_def)
qed

lemma subseq_concat_map:
  "(\<And>m. m \<in> set ms \<Longrightarrow> subseq (f m) (g m)) \<Longrightarrow> subseq (concat (map f ms)) (concat (map g ms))"
  by (induction ms) (auto intro: list_emb_append_mono)

lemma client_types_sub:
  assumes "client_types qual s = Ret es" "client_types_grpc qual s = Ret es'"
  shows "subseq es es'"
  using assms by (auto simp: client_types_def client_types_grpc_def Let_def subseq_append')

lemma server_interface_sub: "subseq (server_interface qual s) (server_types_grpc qual s)"
  unfolding server_interface_def server_types_grpc_def Let_def copies
  by (rule list_emb_append_mono [OF subseq_order.refl], rule list_emb_append_mono [OF subseq_order.refl],
      rule list_emb_append2, rule list_emb_prefix) (rule subseq_order.refl)

lemma registration_sub: "subseq (registration qual s) (registration_grpc qual s)"
  by (simp add: registration_def registration_grpc_def)

lemma wsrpc_descriptor_eq: "wsrpc_descriptor = descriptor"
  by (intro ext) (simp add: wsrpc_descriptor_def descriptor_def descriptor_entries_grpc_def descriptor_entry_def)

lemma client_methods_Ret:
  assumes "unexport (ps_GoName s) = Ret lower"
  obtains f g where "\<And>m. genClientMethod qual s m = Ret (f m)" "\<And>m. genGrpcClientMethod qual s m = Ret (g m)"
proof -
  have "\<forall>m. \<exists>es. genClientMethod qual s m = Ret es" "\<forall>m. \<exists>es. genGrpcClientMethod qual s m = Ret es"
    by (simp_all add: genClientMethod_def genGrpcClientMethod_def assms)
  with that show ?thesis by metis
qed

lemma service_sub:
  assumes "ps_GoName s \<noteq> []"
  obtains es es' where "genService qual s = Ret es" "genService_grpc qual n s = Ret es'" "subseq es es'"
proof -
  obtain lower where "unexport (ps_GoName s) = Ret lower" using assms by (cases "ps_GoName s") auto
  from client_methods_Ret [OF this] obtain f g where
    f: "\<And>m. genClientMethod qual s m = Ret (f m)" and g: "\<And>m. genGrpcClientMethod qual s m = Ret (g m)"
    by blast
  have f': "go_map (genClientMethod qual s) ms = Ret (map f ms)" for ms
    by (rule go_map_Ret) (simp add: f)
  have g': "go_map (genClientMethods_grpc qual s) ms = Ret (map (\<lambda>m. f m @ g m) ms)" for ms
    by (rule go_map_Ret) (simp add: genClientMethods_grpc_def f g)
  obtain t t' where t: "client_types qual s = Ret t" "client_types_grpc qual s = Ret t'"
    using assms by (cases "ps_GoName s") (auto simp: client_types_def client_types_grpc_def Let_def)
  let ?ms = "ps_Methods s"
  let ?hs = "map (genServerMethod qual s) ?ms"
  let ?d = "descriptor qual s (map snd ?hs)"
  have calls: "subseq (concat (map f ?ms)) (concat (map (\<lambda>m. f m @ g m) ?ms))"
    by (rule subseq_concat_map) (rule list_emb_prefix, simp)
  have handlers: "subseq (concat (map fst ?hs))
      (concat (map (\<lambda>m. fst (genServerMethod qual s m) @ fst (genGrpcServerMethod qual s m)) ?ms))"
    unfolding map_map by (rule subseq_concat_map) (simp, rule list_emb_prefix, simp)
  have plain: "genService qual s = Ret (t @ concat (map f ?ms) @ server_interface qual s @ registration qual s
      @ concat (map fst ?hs) @ ?d)"
    by (simp add: genService_def t f' Let_def)
  have both: "genService_grpc qual n s = Ret (t' @ concat (map (\<lambda>m. f m @ g m) ?ms) @ server_types_grpc qual s
      @ registration_grpc qual s
      @ concat (map (\<lambda>m. fst (genServerMethod qual s m) @ fst (genGrpcServerMethod qual s m)) ?ms)
      @ ?d @ grpc_descriptor qual n s (map (\<lambda>m. snd (genGrpcServerMethod qual s m)) ?ms))"
    by (simp add: genService_grpc_def t g' Let_def wsrpc_descriptor_eq comp_def)
  show ?thesis
    by (rule that [OF plain both])
      (intro list_emb_append_mono client_types_sub [OF t] calls server_interface_sub registration_sub handlers
        list_emb_prefix subseq_order.refl)
qed



end
