(* ===== verification/WireFormat.thy ===== *)
theory WireFormat
  imports Wire
begin

text \<open>
  The encoding of \<open>internal/message/message.proto\<close>, as the protocol buffers document it for the field
  numbers and types in the struct tags of \<open>message.pb.go\<close>.  The runtime that computes it is not part of the
  repository, where it is the parameter \<open>wire\<close>; \<open>message_wire\<close> is an instance of that parameter which
  follows its documentation, so the hypothesis \<open>decodes wire norm_message\<close> of the theorems about calls is one
  that the format on the network satisfies.  Groups, which proto3 does not have, are rejected, and fields
  without a number in the schema are skipped and not kept.
\<close>

subsection \<open>Varints\<close>

text \<open>Seven bits in each byte, least significant first; the top bit says that another byte follows.\<close>

fun enc_varint :: "nat \<Rightarrow> bytes" where
  "enc_varint n = (if n < 128 then [word_of_nat n] else word_of_nat (n mod 128 + 128) # enc_varint (n div 128))"

declare enc_varint.simps [simp del]

fun dec_varint :: "nat \<Rightarrow> bytes \<Rightarrow> (nat \<times> bytes) option" where
  "dec_varint 0 bs = None"
| "dec_varint (Suc k) [] = None"
| "dec_varint (Suc k) (b # bs) =
     (if unat b < 128 then Some (unat b, bs)
      else map_option (\<lambda>(n, r). (unat b - 128 + 128 * n, r)) (dec_varint k bs))"

lemma unat_byte: "n < 256 \<Longrightarrow> unat (word_of_nat n :: byte) = n"
  by (simp add: unat_of_nat take_bit_nat_eq_self)

lemma dec_enc_varint: "n < 128 ^ k \<Longrightarrow> 0 < k \<Longrightarrow> dec_varint k (enc_varint n @ r) = Some (n, r)"
proof (induction k arbitrary: n)
  case (Suc k)
  show ?case
  proof (cases "n < 128")
    case True
    then show ?thesis by (simp add: enc_varint.simps [of n] unat_byte)
  next
    case False
    have "n div 128 < 128 ^ k" using Suc.prems by (simp add: div_less_iff_less_mult mult.commute)
    moreover from this False have "0 < k" by (cases k) auto
    ultimately have "dec_varint k (enc_varint (n div 128) @ r) = Some (n div 128, r)" by (rule Suc.IH)
    moreover have "unat (word_of_nat (n mod 128 + 128) :: byte) = n mod 128 + 128" by (rule unat_byte) simp
    ultimately show ?thesis using False by (simp add: enc_varint.simps [of n] del: of_nat_add)
  qed
qed simp

lemma dec_varint_shorter: "dec_varint k bs = Some (n, r) \<Longrightarrow> length r < length bs"
  by (induction k bs arbitrary: n rule: dec_varint.induct) (auto split: if_splits)

lemma enc_varint_not_Nil [simp]: "enc_varint n \<noteq> []"
  by (simp add: enc_varint.simps [of n])

subsection \<open>Fields\<close>

datatype wire_value = Varint nat | Fixed bytes | Len bytes

text \<open>One field: its number and value, and what follows.  A number is at most \<open>2 ^ 29 - 1\<close>.\<close>

fun take_bytes :: "nat \<Rightarrow> bytes \<Rightarrow> (bytes \<times> bytes) option" where
  "take_bytes 0 bs = Some ([], bs)"
| "take_bytes (Suc n) [] = None"
| "take_bytes (Suc n) (b # bs) = map_option (apfst ((#) b)) (take_bytes n bs)"

lemma take_bytes_append [simp]: "take_bytes (length b) (b @ r) = Some (b, r)"
  by (induction b) simp_all

lemma take_bytes_shorter: "take_bytes n bs = Some (b, r) \<Longrightarrow> length r \<le> length bs"
  by (induction n bs arbitrary: b rule: take_bytes.induct) (auto simp: apfst_def split: prod.splits)

definition next_value :: "nat \<Rightarrow> bytes \<Rightarrow> (wire_value \<times> bytes) option" where
  "next_value t bs =
     (if t = 0 then map_option (apfst Varint) (dec_varint 10 bs)
      else if t = 1 then map_option (apfst Fixed) (take_bytes 8 bs)
      else if t = 2 then Option.bind (dec_varint 10 bs) (\<lambda>(n, r). map_option (apfst Len) (take_bytes n r))
      else if t = 5 then map_option (apfst Fixed) (take_bytes 4 bs)
      else None)"

definition next_field :: "bytes \<Rightarrow> ((nat \<times> wire_value) \<times> bytes) option" where
  "next_field bs = Option.bind (dec_varint 10 bs) (\<lambda>(tag, r).
     if tag div 8 = 0 \<or> 2 ^ 29 \<le> tag div 8 then None
     else map_option (apfst (Pair (tag div 8))) (next_value (tag mod 8) r))"

lemma next_value_shorter: "next_value t bs = Some (v, r) \<Longrightarrow> length r \<le> length bs"
  by (auto simp: next_value_def bind_eq_Some_conv split: if_splits dest!: dec_varint_shorter take_bytes_shorter)

lemma next_field_shorter: "next_field bs = Some (f, r) \<Longrightarrow> length r < length bs"
  by (auto simp: next_field_def bind_eq_Some_conv split: if_splits dest!: dec_varint_shorter next_value_shorter)

function parse_fields :: "bytes \<Rightarrow> (nat \<times> wire_value) list option" where
  "parse_fields bs =
     (if bs = [] then Some []
      else case next_field bs of
             None \<Rightarrow> None
           | Some (f, r) \<Rightarrow> map_option ((#) f) (parse_fields r))"
  by auto
termination by (relation "measure length") (auto dest: next_field_shorter)

declare parse_fields.simps [simp del]

text \<open>Fields whose tag and value, or length, fit into one byte.\<close>

lemma dec_varint_byte: "unat b < 128 \<Longrightarrow> dec_varint 10 (b # bs) = Some (unat b, bs)"
  by (simp add: numeral_eq_Suc)

lemma parse_short_varint:
  assumes "unat t < 128" "unat n < 128" "unat t mod 8 = 0" "unat t div 8 \<noteq> 0"
  shows "parse_fields (t # n # bs) = map_option ((#) (unat t div 8, Varint (unat n))) (parse_fields bs)"
proof -
  have "unat t div 8 < 2 ^ 29" using assms(1) by simp
  with assms show ?thesis
    by (simp add: parse_fields.simps [of "t # n # bs"] next_field_def next_value_def dec_varint_byte)
qed

lemma parse_short_len:
  assumes "unat t < 128" "unat n < 128" "unat t mod 8 = 2" "unat t div 8 \<noteq> 0"
  shows "parse_fields (t # n # bs) =
    (case take_bytes (unat n) bs of
       None \<Rightarrow> None
     | Some (b, r) \<Rightarrow> map_option ((#) (unat t div 8, Len b)) (parse_fields r))"
proof -
  have "unat t div 8 < 2 ^ 29" using assms(1) by simp
  with assms show ?thesis
    by (simp add: parse_fields.simps [of "t # n # bs"] next_field_def next_value_def dec_varint_byte split: option.split)
qed

lemma take_bytes_numeral:
  "take_bytes (numeral k) (b # bs) = map_option (apfst ((#) b)) (take_bytes (pred_numeral k) bs)"
  by (simp add: numeral_eq_Suc)

lemmas short_fields = parse_short_varint parse_short_len take_bytes_numeral

definition enc_len :: "nat \<Rightarrow> bytes \<Rightarrow> bytes" where
  "enc_len i b = enc_varint (8 * i + 2) @ enc_varint (length b) @ b"

text \<open>A string or bytes field with its zero value is not written.\<close>

definition enc_field :: "nat \<Rightarrow> bytes \<Rightarrow> bytes" where
  "enc_field i b = (if b = [] then [] else enc_len i b)"

lemma next_field_enc_len:
  assumes "0 < i" "i < 2 ^ 29" "length b < 2 ^ 63"
  shows "next_field (enc_len i b @ r) = Some ((i, Len b), r)"
proof -
  have tag: "dec_varint 10 (enc_varint (8 * i + 2) @ s) = Some (8 * i + 2, s)" for s
    using assms(2) by (intro dec_enc_varint) simp_all
  have len: "dec_varint 10 (enc_varint (length b) @ s) = Some (length b, s)" for s
    using assms(3) by (intro dec_enc_varint) simp_all
  have "(8 * i + 2) div 8 = i" "(8 * i + 2) mod 8 = 2" by presburger+
  with assms(1,2) show ?thesis by (simp add: enc_len_def next_field_def next_value_def tag len del: add_2_eq_Suc')
qed

lemma enc_len_not_Nil [simp]: "enc_len i b \<noteq> []"
  by (simp add: enc_len_def)

lemma parse_Nil [simp]: "parse_fields [] = Some []"
  by (simp add: parse_fields.simps)

lemma parse_enc_len:
  assumes "0 < i" "i < 2 ^ 29" "length b < 2 ^ 63"
  shows "parse_fields (enc_len i b @ r) = map_option ((#) (i, Len b)) (parse_fields r)"
  by (simp add: parse_fields.simps [of "enc_len i b @ r"] next_field_enc_len [OF assms])

definition present :: "nat \<Rightarrow> bytes \<Rightarrow> (nat \<times> wire_value) list" where
  "present i b = (if b = [] then [] else [(i, Len b)])"

lemma parse_enc_field:
  assumes "0 < i" "i < 2 ^ 29" "length b < 2 ^ 63"
  shows "parse_fields (enc_field i b @ r) = map_option ((@) (present i b)) (parse_fields r)"
  using parse_enc_len [OF assms] by (cases "parse_fields r") (simp_all add: enc_field_def present_def)

lemma length_enc_field: "length b \<le> length (enc_field i b)"
  by (simp add: enc_field_def enc_len_def)

lemma parse_three_fields:
  assumes "length (enc_field 1 x @ enc_field 2 y @ enc_field 3 z) < 2 ^ 63"
  shows "parse_fields (enc_field 1 x @ enc_field 2 y @ enc_field 3 z) = Some (present 1 x @ present 2 y @ present 3 z)"
proof -
  have len: "length x < 2 ^ 63" "length y < 2 ^ 63" "length z < 2 ^ 63"
    using assms length_enc_field [of x 1] length_enc_field [of y 2] length_enc_field [of z 3] by simp_all
  have "parse_fields (enc_field 3 z @ []) = Some (present 3 z)"
    by (subst parse_enc_field [OF _ _ len(3)]) simp_all
  then have "parse_fields (enc_field 2 y @ enc_field 3 z) = Some (present 2 y @ present 3 z)"
    by (subst parse_enc_field [OF _ _ len(2)]) simp_all
  then show ?thesis by (subst parse_enc_field [OF _ _ len(1)]) simp_all
qed

subsection \<open>UTF-8\<close>

text \<open>
  A string must be valid UTF-8, as \<open>utf8.Valid\<close> decides: \<open>utf8_first\<close> gives the ranges of the bytes that
  must follow a first byte, and \<open>utf8_run\<close> checks them.  There are no overlong forms and no surrogates.
\<close>

definition utf8_first :: "byte \<Rightarrow> (nat \<times> nat) list option" where
  "utf8_first b =
     (let n = unat b; cont = (0x80, 0xBF)
      in if n < 0x80 then Some []
         else if n < 0xC2 then None
         else if n < 0xE0 then Some [cont]
         else if n = 0xE0 then Some [(0xA0, 0xBF), cont]
         else if n = 0xED then Some [(0x80, 0x9F), cont]
         else if n < 0xF0 then Some [cont, cont]
         else if n = 0xF0 then Some [(0x90, 0xBF), cont, cont]
         else if n < 0xF4 then Some [cont, cont, cont]
         else if n = 0xF4 then Some [(0x80, 0x8F), cont, cont]
         else None)"

fun utf8_run :: "(nat \<times> nat) list \<Rightarrow> bytes \<Rightarrow> bool" where
  "utf8_run exp [] = (exp = [])"
| "utf8_run [] (b # bs) = (case utf8_first b of None \<Rightarrow> False | Some exp \<Rightarrow> utf8_run exp bs)"
| "utf8_run ((lo, hi) # exp) (b # bs) = (lo \<le> unat b \<and> unat b \<le> hi \<and> utf8_run exp bs)"

definition utf8_valid :: "bytes \<Rightarrow> bool" where
  "utf8_valid bs = utf8_run [] bs"

lemma utf8_valid_Nil [simp]: "utf8_valid []"
  by (simp add: utf8_valid_def)

subsection \<open>The schema\<close>

text \<open>The fields of each message: name, number and type, as the struct tags give them.\<close>

datatype field_kind = StringKind | BytesKind | Int64Kind | MessageKind string

type_synonym schema = "(string \<times> nat \<times> field_kind) list"

definition message_fields :: schema where
  "message_fields = [(''request'', 2, MessageKind ''.message.Request''), (''response'', 3, MessageKind ''.message.Response'')]"

definition request_fields :: schema where
  "request_fields = [(''method'', 1, StringKind), (''call_id'', 2, StringKind), (''payload'', 3, BytesKind)]"

definition response_fields :: schema where
  "response_fields = [(''call_id'', 1, StringKind), (''payload'', 2, BytesKind), (''error'', 3, StringKind)]"

definition field_number :: "schema \<Rightarrow> string \<Rightarrow> nat" where
  "field_number fs name = (case map_of fs name of None \<Rightarrow> 0 | Some (i, k) \<Rightarrow> i)"

subsection \<open>Encoding\<close>

abbreviation invalid_utf8 :: go_error where
  "invalid_utf8 \<equiv> New ''string field contains invalid UTF-8''"

definition enc_string :: "nat \<Rightarrow> string \<Rightarrow> bytes res" where
  "enc_string i s = (let b = bytes_of_string s in if utf8_valid b then Inr (enc_field i b) else Inl invalid_utf8)"

definition encode_request :: "Request \<Rightarrow> bytes res" where
  "encode_request r =
     (case (enc_string (field_number request_fields ''method'') (req_Method r),
            enc_string (field_number request_fields ''call_id'') (req_CallId r)) of
        (Inr m, Inr c) \<Rightarrow> Inr (m @ c @ enc_field (field_number request_fields ''payload'') (slice_bytes (req_Payload r)))
      | _ \<Rightarrow> Inl invalid_utf8)"

definition encode_response :: "Response \<Rightarrow> bytes res" where
  "encode_response r =
     (case (enc_string (field_number response_fields ''call_id'') (resp_CallId r),
            enc_string (field_number response_fields ''error'') (resp_Error r)) of
        (Inr c, Inr e) \<Rightarrow> Inr (c @ enc_field (field_number response_fields ''payload'') (slice_bytes (resp_Payload r)) @ e)
      | _ \<Rightarrow> Inl invalid_utf8)"

text \<open>
  A sub-message is written even when it is empty, and a nil one as an empty one.  No Go value has a field of
  \<open>2 ^ 63\<close> bytes.
\<close>

definition empty_request :: Request where
  "empty_request = \<lparr>req_Method = [], req_CallId = [], req_Payload = None\<rparr>"

definition empty_response :: Response where
  "empty_response = \<lparr>resp_CallId = [], resp_Payload = None, resp_Error = []\<rparr>"

definition enc_sub :: "nat \<Rightarrow> bytes res \<Rightarrow> bytes res" where
  "enc_sub i r = (case r of
       Inl err \<Rightarrow> Inl err
     | Inr b \<Rightarrow> if length b < 2 ^ 63 then Inr (enc_len i b) else Inl (New ''message too large''))"

definition encode_message :: "Message \<Rightarrow> bytes res" where
  "encode_message m = (case msg_Exchange m of
       None \<Rightarrow> Inr []
     | Some (Message_Request r) \<Rightarrow>
         enc_sub (field_number message_fields ''request'') (encode_request (case r of None \<Rightarrow> empty_request | Some q \<Rightarrow> q))
     | Some (Message_Response r) \<Rightarrow>
         enc_sub (field_number message_fields ''response'') (encode_response (case r of None \<Rightarrow> empty_response | Some q \<Rightarrow> q)))"

subsection \<open>Decoding\<close>

text \<open>The fields of a message are merged into it one by one; later values replace earlier ones.\<close>

fun merge_fields :: "('f \<Rightarrow> 'm \<Rightarrow> 'm res) \<Rightarrow> 'f list \<Rightarrow> 'm \<Rightarrow> 'm res" where
  "merge_fields put [] m = Inr m"
| "merge_fields put (f # fs) m = (case put f m of Inl err \<Rightarrow> Inl err | Inr m1 \<Rightarrow> merge_fields put fs m1)"

definition parse_error :: go_error where
  "parse_error = New ''proto: cannot parse invalid wire-format data''"

definition decode_into :: "(nat \<times> wire_value \<Rightarrow> 'm \<Rightarrow> 'm res) \<Rightarrow> bytes \<Rightarrow> 'm \<Rightarrow> 'm res" where
  "decode_into put bs m = (case parse_fields bs of None \<Rightarrow> Inl parse_error | Some fs \<Rightarrow> merge_fields put fs m)"

definition dec_string :: "(string \<Rightarrow> 'm) \<Rightarrow> bytes \<Rightarrow> 'm res" where
  "dec_string upd b = (if utf8_valid b then Inr (upd (string_of_bytes b)) else Inl invalid_utf8)"

definition set_request :: "nat \<times> wire_value \<Rightarrow> Request \<Rightarrow> Request res" where
  "set_request f r = (case f of
       (i, Len b) \<Rightarrow>
         if i = field_number request_fields ''method'' then dec_string (\<lambda>s. r\<lparr>req_Method := s\<rparr>) b
         else if i = field_number request_fields ''call_id'' then dec_string (\<lambda>s. r\<lparr>req_CallId := s\<rparr>) b
         else if i = field_number request_fields ''payload'' then Inr (r\<lparr>req_Payload := bytes_slice b\<rparr>)
         else Inr r
     | _ \<Rightarrow> Inr r)"

definition set_response :: "nat \<times> wire_value \<Rightarrow> Response \<Rightarrow> Response res" where
  "set_response f r = (case f of
       (i, Len b) \<Rightarrow>
         if i = field_number response_fields ''call_id'' then dec_string (\<lambda>s. r\<lparr>resp_CallId := s\<rparr>) b
         else if i = field_number response_fields ''payload'' then Inr (r\<lparr>resp_Payload := bytes_slice b\<rparr>)
         else if i = field_number response_fields ''error'' then dec_string (\<lambda>s. r\<lparr>resp_Error := s\<rparr>) b
         else Inr r
     | _ \<Rightarrow> Inr r)"

text \<open>A case of the \<open>oneof\<close> replaces the other one, and is merged into itself.\<close>

definition set_message :: "nat \<times> wire_value \<Rightarrow> Message \<Rightarrow> Message res" where
  "set_message f m = (case f of
       (i, Len b) \<Rightarrow>
         if i = field_number message_fields ''request'' then
           (case decode_into set_request b
                (case msg_Exchange m of Some (Message_Request (Some r)) \<Rightarrow> r | _ \<Rightarrow> empty_request) of
              Inl err \<Rightarrow> Inl err
            | Inr r \<Rightarrow> Inr \<lparr>msg_Exchange = Some (Message_Request (Some r))\<rparr>)
         else if i = field_number message_fields ''response'' then
           (case decode_into set_response b
                (case msg_Exchange m of Some (Message_Response (Some r)) \<Rightarrow> r | _ \<Rightarrow> empty_response) of
              Inl err \<Rightarrow> Inl err
            | Inr r \<Rightarrow> Inr \<lparr>msg_Exchange = Some (Message_Response (Some r))\<rparr>)
         else Inr m
     | _ \<Rightarrow> Inr m)"

text \<open>The \<open>Reset\<close> methods, on which \<open>proto.Unmarshal\<close> relies to forget what the target held.\<close>

definition Message_Reset :: "Message \<Rightarrow> Message" where
  "Message_Reset x = \<lparr>msg_Exchange = None\<rparr>"

definition Request_Reset :: "Request \<Rightarrow> Request" where
  "Request_Reset x = \<lparr>req_Method = [], req_CallId = [], req_Payload = None\<rparr>"

definition Response_Reset :: "Response \<Rightarrow> Response" where
  "Response_Reset x = \<lparr>resp_CallId = [], resp_Payload = None, resp_Error = []\<rparr>"

definition message_wire :: "Message proto" where
  "message_wire = \<lparr>
     pb_marshal = (\<lambda>m. case encode_message m of Inl err \<Rightarrow> Inl err | Inr b \<Rightarrow> Inr (Some b)),
     pb_unmarshal = (\<lambda>s t. decode_into set_message (slice_bytes s) (Message_Reset t))\<rparr>"

subsection \<open>What is encoded decodes\<close>

lemma field_numbers:
  "field_number request_fields ''method'' = 1" "field_number request_fields ''call_id'' = 2"
  "field_number request_fields ''payload'' = 3" "field_number response_fields ''call_id'' = 1"
  "field_number response_fields ''payload'' = 2" "field_number response_fields ''error'' = 3"
  "field_number message_fields ''request'' = 2" "field_number message_fields ''response'' = 3"
  by (simp_all add: field_number_def request_fields_def response_fields_def message_fields_def)

lemma Reset_empty [simp]:
  "Message_Reset x = empty_message" "Request_Reset q = empty_request" "Response_Reset r = empty_response"
  by (simp_all add: Message_Reset_def Request_Reset_def Response_Reset_def empty_message_def empty_request_def empty_response_def)

lemma bytes_of_string_Nil [simp]: "bytes_of_string s = [] \<longleftrightarrow> s = []"
  by (simp add: bytes_of_string_def)

lemma decode_request:
  assumes "encode_request r = Inr b" "length b < 2 ^ 63"
  shows "decode_into set_request b empty_request = Inr (r\<lparr>req_Payload := norm_slice (req_Payload r)\<rparr>)"
proof -
  let ?x = "bytes_of_string (req_Method r)" and ?y = "bytes_of_string (req_CallId r)" and ?z = "slice_bytes (req_Payload r)"
  from assms(1) have utf8: "utf8_valid ?x" "utf8_valid ?y" and b: "b = enc_field 1 ?x @ enc_field 2 ?y @ enc_field 3 ?z"
    by (auto simp: encode_request_def enc_string_def Let_def field_numbers split: if_splits sum.splits)
  have "parse_fields b = Some (present 1 ?x @ present 2 ?y @ present 3 ?z)"
    using parse_three_fields assms(2) unfolding b by blast
  then show ?thesis
    using utf8 by (cases r) (auto simp: decode_into_def set_request_def dec_string_def field_numbers empty_request_def present_def
        bytes_slice_def norm_slice_def slice_bytes_def split: option.splits)
qed

lemma decode_response:
  assumes "encode_response r = Inr b" "length b < 2 ^ 63"
  shows "decode_into set_response b empty_response = Inr (r\<lparr>resp_Payload := norm_slice (resp_Payload r)\<rparr>)"
proof -
  let ?x = "bytes_of_string (resp_CallId r)" and ?y = "slice_bytes (resp_Payload r)" and ?z = "bytes_of_string (resp_Error r)"
  from assms(1) have utf8: "utf8_valid ?x" "utf8_valid ?z" and b: "b = enc_field 1 ?x @ enc_field 2 ?y @ enc_field 3 ?z"
    by (auto simp: encode_response_def enc_string_def Let_def field_numbers split: if_splits sum.splits)
  have "parse_fields b = Some (present 1 ?x @ present 2 ?y @ present 3 ?z)"
    using parse_three_fields assms(2) unfolding b by blast
  then show ?thesis
    using utf8 by (cases r) (auto simp: decode_into_def set_response_def dec_string_def field_numbers empty_response_def present_def
        bytes_slice_def norm_slice_def slice_bytes_def split: option.splits)
qed

lemma decode_encode_message:
  assumes "encode_message m = Inr b"
  shows "decode_into set_message b empty_message = Inr (norm_message m)"
proof (cases "msg_Exchange m")
  case None
  with assms show ?thesis by (simp add: encode_message_def decode_into_def norm_message_def empty_message_def)
next
  case (Some x)
  have one: "decode_into set_message (enc_len i c) empty_message = set_message (i, Len c) empty_message"
    if "length c < 2 ^ 63" "i \<in> {2, 3}" for i c
    using parse_enc_len [OF _ _ that(1), of i "[]"] that(2) by (auto simp: decode_into_def split: sum.splits)
  show ?thesis
  proof (cases x)
    case (Message_Request r)
    let ?q = "case r of None \<Rightarrow> empty_request | Some q \<Rightarrow> q"
    from assms Some Message_Request obtain c where c: "encode_request ?q = Inr c" "length c < 2 ^ 63" "b = enc_len 2 c"
      by (auto simp: encode_message_def enc_sub_def field_numbers split: sum.splits if_splits)
    show ?thesis
      using decode_request [OF c(1,2)] one [OF c(2), of 2] Some Message_Request
      by (cases r) (simp_all add: c(3) set_message_def field_numbers norm_message_def norm_request_def empty_message_def
          empty_request_def)
  next
    case (Message_Response r)
    let ?q = "case r of None \<Rightarrow> empty_response | Some q \<Rightarrow> q"
    from assms Some Message_Response obtain c where c: "encode_response ?q = Inr c" "length c < 2 ^ 63" "b = enc_len 3 c"
      by (auto simp: encode_message_def enc_sub_def field_numbers split: sum.splits if_splits)
    show ?thesis
      using decode_response [OF c(1,2)] one [OF c(2), of 3] Some Message_Response
      by (cases r) (simp_all add: c(3) set_message_def field_numbers norm_message_def norm_response_def empty_message_def
          empty_response_def)
  qed
qed

lemma decodes_message_wire: "decodes message_wire norm_message"
  unfolding decodes_def
proof (intro allI impI)
  fix m b t
  assume "pb_marshal message_wire m = Inr b"
  then obtain c where "encode_message m = Inr c" "b = Some c" by (auto simp: message_wire_def split: sum.splits)
  then show "pb_unmarshal message_wire b t = Inr (norm_message m) \<and> pb_unmarshal message_wire (norm_slice b) t = Inr (norm_message m)"
    using decode_encode_message [of m c] by (auto simp: message_wire_def slice_bytes_def norm_slice_def)
qed

subsection \<open>Fields the schema does not know\<close>

lemma dec_varint_append: "dec_varint k bs = Some (n, r) \<Longrightarrow> dec_varint k (bs @ s) = Some (n, r @ s)"
  by (induction k bs arbitrary: n rule: dec_varint.induct) (auto split: if_splits)

lemma take_bytes_more: "take_bytes n bs = Some (b, r) \<Longrightarrow> take_bytes n (bs @ s) = Some (b, r @ s)"
  by (induction n bs arbitrary: b rule: take_bytes.induct) (auto simp: apfst_def split: prod.splits)

lemma next_value_append:
  assumes "next_value t bs = Some (v, r)"
  shows "next_value t (bs @ s) = Some (v, r @ s)"
proof -
  have fixed: "map_option (apfst Fixed) (take_bytes n (bs @ s)) = Some (v, r @ s)"
    if "map_option (apfst Fixed) (take_bytes n bs) = Some (v, r)" for n
  proof -
    from that obtain b where "take_bytes n bs = Some (b, r)" "v = Fixed b" by (auto simp: apfst_def)
    then show ?thesis by (simp add: take_bytes_more)
  qed
  consider "t = 0" | "t = 2" | "t = 1" | "t = 5" using assms by (auto simp: next_value_def split: if_splits)
  then show ?thesis
  proof cases
    case 1
    with assms obtain n where "dec_varint 10 bs = Some (n, r)" "v = Varint n" by (auto simp: next_value_def apfst_def)
    with 1 show ?thesis by (simp add: next_value_def dec_varint_append)
  next
    case 2
    with assms obtain n q b where "dec_varint 10 bs = Some (n, q)" "take_bytes n q = Some (b, r)" "v = Len b"
      by (auto simp: next_value_def bind_eq_Some_conv apfst_def)
    with 2 show ?thesis by (simp add: next_value_def dec_varint_append take_bytes_more)
  qed (use assms fixed in \<open>simp_all add: next_value_def\<close>)
qed

lemma next_field_append:
  assumes "next_field bs = Some (f, r)"
  shows "next_field (bs @ s) = Some (f, r @ s)"
proof -
  from assms obtain tag q v where q: "dec_varint 10 bs = Some (tag, q)" "\<not> (tag div 8 = 0 \<or> 2 ^ 29 \<le> tag div 8)"
    "next_value (tag mod 8) q = Some (v, r)" "f = (tag div 8, v)"
    by (auto simp: next_field_def bind_eq_Some_conv apfst_def split: if_splits)
  then show ?thesis
    by (simp add: next_field_def dec_varint_append [OF q(1)] next_value_append [OF q(3)])
qed

lemma parse_append: "parse_fields bs = Some fs \<Longrightarrow> parse_fields (bs @ s) = map_option ((@) fs) (parse_fields s)"
proof (induction bs arbitrary: fs rule: parse_fields.induct)
  case (1 bs)
  show ?case
  proof (cases "bs = []")
    case True
    with 1(2) show ?thesis by (cases "parse_fields s") simp_all
  next
    case False
    with 1(2) obtain f r gs where f: "next_field bs = Some (f, r)" "parse_fields r = Some gs" "fs = f # gs"
      by (auto simp: parse_fields.simps [of bs] split: option.splits)
    have "parse_fields (r @ s) = map_option ((@) gs) (parse_fields s)"
      using "1.IH" False f(1,2) by blast
    with False f(3) next_field_append [OF f(1), of s] show ?thesis
      by (cases "parse_fields s") (simp_all add: parse_fields.simps [of "bs @ s"])
  qed
qed

lemma merge_append:
  "merge_fields put (fs @ gs) m = (case merge_fields put fs m of Inl err \<Rightarrow> Inl err | Inr m1 \<Rightarrow> merge_fields put gs m1)"
  by (induction fs arbitrary: m) (auto split: sum.splits)

lemma unknown_field_skipped:
  assumes "decode_into set_message b t = Inr m" "0 < i" "i < 2 ^ 29" "length x < 2 ^ 63" "i \<notin> {2, 3}"
  shows "decode_into set_message (b @ enc_len i x) t = Inr m"
proof -
  from assms(1) obtain fs where fs: "parse_fields b = Some fs" "merge_fields set_message fs t = Inr m"
    by (auto simp: decode_into_def split: option.splits)
  have "parse_fields (enc_len i x) = Some [(i, Len x)]" using parse_enc_len [OF assms(2-4), of "[]"] by simp
  with parse_append [OF fs(1), of "enc_len i x"] fs(2) assms(5) show ?thesis
    by (simp add: decode_into_def merge_append set_message_def field_numbers)
qed

subsection \<open>Properties\<close>

text \<open>The strings of a message.\<close>

definition message_strings :: "Message \<Rightarrow> string list" where
  "message_strings m = (case msg_Exchange m of
       Some (Message_Request (Some r)) \<Rightarrow> [req_Method r, req_CallId r]
     | Some (Message_Response (Some r)) \<Rightarrow> [resp_CallId r, resp_Error r]
     | _ \<Rightarrow> [])"

lemma encoded_strings_valid:
  "encode_message m = Inr b \<Longrightarrow> s \<in> set (message_strings m) \<Longrightarrow> utf8_valid (bytes_of_string s)"
  by (auto simp: encode_message_def enc_sub_def encode_request_def encode_response_def enc_string_def message_strings_def Let_def
      split: option.splits Exchange.splits sum.splits if_splits)


definition demo_message :: Message where
  "demo_message = \<lparr>msg_Exchange = Some (Message_Request (Some
     \<lparr>req_Method = ''Echo'', req_CallId = ''id'', req_Payload = Some [5]\<rparr>))\<rparr>"

lemma demo_message_bytes:
  "pb_marshal message_wire demo_message = Inr (Some
     [0x12, 0x0D, 0x0A, 0x04, 0x45, 0x63, 0x68, 0x6F, 0x12, 0x02, 0x69, 0x64, 0x1A, 0x01, 0x05])"
  by (simp add: message_wire_def demo_message_def encode_message_def enc_sub_def encode_request_def enc_string_def Let_def
      utf8_valid_def utf8_first_def bytes_of_string_def enc_field_def enc_len_def enc_varint.simps field_numbers)


end
