(* ===== verification/GeneratedFiles.thy ===== *)
theory GeneratedFiles
  imports Codegen
begin

text \<open>
  The two generated files of the repository, \<open>examples/simple/ping/ping_wsrpc.pb.go\<close> and
  \<open>intgtest/internal/rpcs/rpcs_wsrpc.pb.go\<close>, line by line, without indentation and without the
  import block, which \<open>protogen\<close> adds; and the descriptors they were generated from.
\<close>

definition ping_wsrpc_pb_go :: "string list" where
  "ping_wsrpc_pb_go =
     [''// Code generated by protoc-gen-go-wsrpc. DO NOT EDIT.'',
      ''// versions:'',
      ''// - protoc-gen-go-wsrpc v0.0.1'',
      ''// - protoc             v3.15.8'',
      [],
      ''package ping'',
      [],
      [],
      ''// PingClient is the client API for Ping service.'',
      ''//'',
      ''type PingClient interface {'',
      ''Ping(ctx context.Context, in *PingRequest) (*PingResponse, error)'',
      ''}'',
      [],
      ''type pingClient struct {'',
      ''cc wsrpc.ClientInterface'',
      ''}'',
      [],
      ''func NewPingClient(cc wsrpc.ClientInterface) PingClient {'',
      ''return &pingClient{cc}'',
      ''}'',
      [],
      ''func (c *pingClient) Ping(ctx context.Context, in *PingRequest) (*PingResponse, error) {'',
      ''out := new(PingResponse)'',
      ''err := c.cc.Invoke(ctx, \"Ping\", in, out)'',
      ''if err != nil {'',
      ''return nil, err'',
      ''}'',
      ''return out, nil'',
      ''}'',
      [],
      ''// PingServer is the server API for Ping service.'',
      ''type PingServer interface {'',
      ''Ping(context.Context, *PingRequest) (*PingResponse, error)'',
      ''}'',
      [],
      ''func RegisterPingServer(s wsrpc.ServiceRegistrar, srv PingServer) {'',
      ''s.RegisterService(&Ping_ServiceDesc, srv)'',
      ''}'',
      [],
      ''func _Ping_Ping_Handler(srv interface{}, ctx context.Context, dec func(interface{}) error) (interface{}, error) {'',
      ''in := new(PingRequest)'',
      ''if err := dec(in); err != nil {'',
      ''return nil, err'',
      ''}'',
      ''return srv.(PingServer).Ping(ctx, in)'',
      ''}'',
      [],
      ''// Ping_ServiceDesc is the wsrpc.ServiceDesc for Ping service.'',
      ''// It's only intended for direct use with wsrpc.RegisterService,'',
      ''// and not to be introspected or modified (even as a copy)'',
      ''var Ping_ServiceDesc = wsrpc.ServiceDesc{'',
      ''ServiceName: \"ping.Ping\",'',
      ''HandlerType: (*PingServer)(nil),'',
      ''Methods: []wsrpc.MethodDesc{'',
      ''{'',
      ''MethodName: \"Ping\",'',
      ''Handler:    _Ping_Ping_Handler,'',
      ''},'',
      ''},'',
      ''}'',
      [],
      ''// GnipClient is the client API for Gnip service.'',
      ''//'',
      ''type GnipClient interface {'',
      ''Gnip(ctx context.Context, in *GnipRequest) (*GnipResponse, error)'',
      ''}'',
      [],
      ''type gnipClient struct {'',
      ''cc wsrpc.ClientInterface'',
      ''}'',
      [],
      ''func NewGnipClient(cc wsrpc.ClientInterface) GnipClient {'',
      ''return &gnipClient{cc}'',
      ''}'',
      [],
      ''func (c *gnipClient) Gnip(ctx context.Context, in *GnipRequest) (*GnipResponse, error) {'',
      ''out := new(GnipResponse)'',
      ''err := c.cc.Invoke(ctx, \"Gnip\", in, out)'',
      ''if err != nil {'',
      ''return nil, err'',
      ''}'',
      ''return out, nil'',
      ''}'',
      [],
      ''// GnipServer is the server API for Gnip service.'',
      ''type GnipServer interface {'',
      ''Gnip(context.Context, *GnipRequest) (*GnipResponse, error)'',
      ''}'',
      [],
      ''func RegisterGnipServer(s wsrpc.ServiceRegistrar, srv GnipServer) {'',
      ''s.RegisterService(&Gnip_ServiceDesc, srv)'',
      ''}'',
      [],
      ''func _Gnip_Gnip_Handler(srv interface{}, ctx context.Context, dec func(interface{}) error) (interface{}, error) {'',
      ''in := new(GnipRequest)'',
      ''if err := dec(in); err != nil {'',
      ''return nil, err'',
      ''}'',
      ''return srv.(GnipServer).Gnip(ctx, in)'',
      ''}'',
      [],
      ''// Gnip_ServiceDesc is the wsrpc.ServiceDesc for Gnip service.'',
      ''// It's only intended for direct use with wsrpc.RegisterService,'',
      ''// and not to be introspected or modified (even as a copy)'',
      ''var Gnip_ServiceDesc = wsrpc.ServiceDesc{'',
      ''ServiceName: \"ping.Gnip\",'',
      ''HandlerType: (*GnipServer)(nil),'',
      ''Methods: []wsrpc.MethodDesc{'',
      ''{'',
      ''MethodName: \"Gnip\",'',
      ''Handler:    _Gnip_Gnip_Handler,'',
      ''},'',
      ''},'',
      ''}'']"

definition rpcs_wsrpc_pb_go :: "string list" where
  "rpcs_wsrpc_pb_go =
     [''// Code generated by protoc-gen-go-wsrpc. DO NOT EDIT.'',
      ''// versions:'',
      ''// - protoc-gen-go-wsrpc v0.0.1'',
      ''// - protoc             v3.21.7'',
      [],
      ''package rpcs'',
      [],
      [],
      ''// EchoClient is the client API for Echo service.'',
      ''//'',
      ''type EchoClient interface {'',
      ''Echo(ctx context.Context, in *EchoRequest) (*EchoResponse, error)'',
      ''}'',
      [],
      ''type echoClient struct {'',
      ''cc wsrpc.ClientInterface'',
      ''}'',
      [],
      ''func NewEchoClient(cc wsrpc.ClientInterface) EchoClient {'',
      ''return &echoClient{cc}'',
      ''}'',
      [],
      ''func (c *echoClient) Echo(ctx context.Context, in *EchoRequest) (*EchoResponse, error) {'',
      ''out := new(EchoResponse)'',
      ''err := c.cc.Invoke(ctx, \"Echo\", in, out)'',
      ''if err != nil {'',
      ''return nil, err'',
      ''}'',
      ''return out, nil'',
      ''}'',
      [],
      ''// EchoServer is the server API for Echo service.'',
      ''type EchoServer interface {'',
      ''Echo(context.Context, *EchoRequest) (*EchoResponse, error)'',
      ''}'',
      [],
      ''func RegisterEchoServer(s wsrpc.ServiceRegistrar, srv EchoServer) {'',
      ''s.RegisterService(&Echo_ServiceDesc, srv)'',
      ''}'',
      [],
      ''func _Echo_Echo_Handler(srv interface{}, ctx context.Context, dec func(interface{}) error) (interface{}, error) {'',
      ''in := new(EchoRequest)'',
      ''if err := dec(in); err != nil {'',
      ''return nil, err'',
      ''}'',
      ''return srv.(EchoServer).Echo(ctx, in)'',
      ''}'',
      [],
      ''// Echo_ServiceDesc is the wsrpc.ServiceDesc for Echo service.'',
      ''// It's only intended for direct use with wsrpc.RegisterService,'',
      ''// and not to be introspected or modified (even as a copy)'',
      ''var Echo_ServiceDesc = wsrpc.ServiceDesc{'',
      ''ServiceName: \"rpcs.Echo\",'',
      ''HandlerType: (*EchoServer)(nil),'',
      ''Methods: []wsrpc.MethodDesc{'',
      ''{'',
      ''MethodName: \"Echo\",'',
      ''Handler:    _Echo_Echo_Handler,'',
      ''},'',
      ''},'',
      ''}'']"

text \<open>The text of a file up to white space: \<open>protogen\<close> formats what it prints with \<open>go/format\<close>.\<close>

definition squeeze :: "string \<Rightarrow> string" where
  "squeeze s = filter (\<lambda>c. c \<noteq> CHR '' '' \<and> c \<noteq> CHR 0x09 \<and> c \<noteq> CHR 0x0A) s"

text \<open>
  How \<open>protogen\<close> names identifiers in these files: without a qualifier in their own package, and
  otherwise with the last element of the import path.
\<close>

definition last_element :: "string \<Rightarrow> string" where
  "last_element path = rev (takeWhile (\<lambda>c. c \<noteq> CHR ''/'') (rev path))"

definition package_qual :: "string \<Rightarrow> GoIdent \<Rightarrow> string" where
  "package_qual own i =
     (if gi_GoImportPath i = own then gi_GoName i else last_element (gi_GoImportPath i) @ ''.'' @ gi_GoName i)"

text \<open>\<open>rpc m(mRequest) returns (mResponse)\<close>, the only method of the service \<open>m\<close>.\<close>

definition simple_service :: "string \<Rightarrow> string \<Rightarrow> string \<Rightarrow> proto_service" where
  "simple_service path pkg m =
     \<lparr>ps_GoName = m, ps_FullName = pkg @ ''.'' @ m,
      ps_Methods = [\<lparr>pm_GoName = m, pm_DescName = m, pm_Input = Ident path (m @ ''Request''),
        pm_Output = Ident path (m @ ''Response''), pm_Leading = []\<rparr>]\<rparr>"

definition ping_path :: string where
  "ping_path = ''github.com/smartcontractkit/wsrpc/examples/simple/ping''"

definition ping_proto :: proto_file where
  "ping_proto =
     \<lparr>pf_Services = [simple_service ping_path ''ping'' ''Ping'', simple_service ping_path ''ping'' ''Gnip''],
      pf_GeneratedFilenamePrefix = ''examples/simple/ping/ping'', pf_GoImportPath = ping_path,
      pf_GoPackageName = ''ping'', pf_ProtoName = ''ping.proto'', pf_Generate = True\<rparr>"

definition rpcs_path :: string where
  "rpcs_path = ''github.com/smartcontractkit/wsrpc/intgtest/internal/rpcs''"

definition rpcs_proto :: proto_file where
  "rpcs_proto =
     \<lparr>pf_Services = [simple_service rpcs_path ''rpcs'' ''Echo''],
      pf_GeneratedFilenamePrefix = ''intgtest/internal/rpcs/rpcs'', pf_GoImportPath = rpcs_path,
      pf_GoPackageName = ''rpcs'', pf_ProtoName = ''rpcs.proto'', pf_Generate = True\<rparr>"

definition protoc_version :: "32 word \<Rightarrow> 32 word \<Rightarrow> compiler_version" where
  "protoc_version minor patch = \<lparr>cv_Major = 3, cv_Minor = minor, cv_Patch = patch, cv_Suffix = []\<rparr>"

text \<open>The text a run of the generator prints, up to white space.\<close>

definition squeezed_output :: "generated_file option go \<Rightarrow> string option" where
  "squeezed_output r =
     (case r of Ret (Some g) \<Rightarrow> Some (squeeze (printed_text (gf_calls g))) | _ \<Rightarrow> None)"

subsection \<open>Comparing group by group\<close>

fun split_by :: "nat list \<Rightarrow> 'a list \<Rightarrow> 'a list list" where
  "split_by [] xs = [xs]"
| "split_by (n # ns) xs = take n xs # split_by ns (drop n xs)"

lemma concat_split_by: "concat (split_by ns xs) = xs"
  by (induction ns xs rule: split_by.induct) simp_all

lemma squeeze_simps [simp]:
  "squeeze [] = []"
  "squeeze (c # s) = (if c = CHR '' '' \<or> c = CHR 0x09 \<or> c = CHR 0x0A then squeeze s else c # squeeze s)"
  "squeeze (s @ t) = squeeze s @ squeeze t"
  by (simp_all add: squeeze_def)

lemma squeeze_concat: "squeeze (concat xs) = concat (map squeeze xs)"
  by (induction xs) simp_all

lemma concat_squeezed: "concat (map (\<lambda>g. squeeze (concat g)) gs) = squeeze (concat (concat gs))"
  by (induction gs) simp_all

text \<open>The printed lines agree with groups of lines of the file; the numbers are the sizes of the groups.\<close>

lemma squeezed_by_groups:
  assumes "map (\<lambda>e. squeeze (printed e)) es @ [[]] = map (\<lambda>g. squeeze (concat g)) (split_by ns ls)"
  shows "squeeze (printed_text es) = squeeze (concat ls)"
proof -
  have "squeeze (printed_text es) = concat (map (\<lambda>e. squeeze (printed e)) es @ [[]])"
    by (simp add: printed_text_def squeeze_concat comp_def)
  also have "\<dots> = squeeze (concat (concat (split_by ns ls)))"
    unfolding assms by (rule concat_squeezed)
  finally show ?thesis by (simp add: concat_split_by)
qed

lemma versions: "protocVersion (Some (protoc_version 15 8)) = ''v3.15.8''"
  "protocVersion (Some (protoc_version 21 7)) = ''v3.21.7''"
  by code_simp+

lemma lower_letters:
  "char_of (112 :: nat) = CHR ''p''" "char_of (103 :: nat) = CHR ''g''" "char_of (101 :: nat) = CHR ''e''"
  by code_simp+

lemma qual_ping:
  "package_qual ping_path (Ident contextPackage n) = ''context.'' @ n"
  "package_qual ping_path (Ident wsrpcPackage n) = ''wsrpc.'' @ n"
  "package_qual ping_path (Ident ping_path n) = n"
  by (simp_all add: package_qual_def Ident_def contextPackage_def wsrpcPackage_def ping_path_def last_element_def)

lemma qual_rpcs:
  "package_qual rpcs_path (Ident contextPackage n) = ''context.'' @ n"
  "package_qual rpcs_path (Ident wsrpcPackage n) = ''wsrpc.'' @ n"
  "package_qual rpcs_path (Ident rpcs_path n) = n"
  by (simp_all add: package_qual_def Ident_def contextPackage_def wsrpcPackage_def rpcs_path_def last_element_def)

lemmas generator_defs =
  generateFile_def generateFileContent_def genService_def client_types_def genClientMethod_def
  server_interface_def registration_def genServerMethod_def descriptor_def descriptor_entry_def
  interface_methods_def clientSignature_def serverSignature_def handler_name_def version_def
  strconv_Quote_def quoted_char_def quote_char_def backslash_def to_lower_def simple_service_def Let_def

text \<open>The calls of the generator on the two descriptors.\<close>

definition calls_of :: "generated_file option go \<Rightarrow> emit list" where
  "calls_of r = (case r of Ret (Some g) \<Rightarrow> gf_calls g | _ \<Rightarrow> [])"

lemma ping_groups:
  "map (\<lambda>e. squeeze (printed e))
      (calls_of (generateFile (package_qual ping_path) (Some (protoc_version 15 8)) ping_proto)) @ [[]] =
   map (\<lambda>g. squeeze (concat g)) (split_by
    [1, 1, 1, 1, 0, 2, 0, 3, 1, 0, 1, 0, 1, 1, 0, 2, 1, 1, 0, 2, 1, 1, 0, 2, 1, 1, 3, 1, 1, 0, 2,
     0, 1, 0, 1, 1, 0, 2, 1, 1, 0, 2, 1, 3, 1, 1, 0, 2, 1, 1, 1, 1, 1, 1, 1, 1, 1, 1, 1, 1, 0, 2, 1,
     0, 1, 0, 1, 1, 0, 2, 1, 1, 0, 2, 1, 1, 0, 2, 1, 1, 3, 1, 1, 0, 2, 0, 1, 0, 1, 1, 0, 2, 1, 1, 0,
     2, 1, 3, 1, 1, 0, 2, 1, 1, 1, 1, 1, 1, 1, 1, 1, 1, 1, 1, 0]
     ping_wsrpc_pb_go)"
  by (simp add: generator_defs calls_of_def ping_proto_def versions lower_letters qual_ping ping_wsrpc_pb_go_def)

lemma rpcs_groups:
  "map (\<lambda>e. squeeze (printed e))
      (calls_of (generateFile (package_qual rpcs_path) (Some (protoc_version 21 7)) rpcs_proto)) @ [[]] =
   map (\<lambda>g. squeeze (concat g)) (split_by
    [1, 1, 1, 1, 0, 2, 0, 3, 1, 0, 1, 0, 1, 1, 0, 2, 1, 1, 0, 2, 1, 1, 0, 2, 1, 1, 3, 1, 1, 0, 2,
     0, 1, 0, 1, 1, 0, 2, 1, 1, 0, 2, 1, 3, 1, 1, 0, 2, 1, 1, 1, 1, 1, 1, 1, 1, 1, 1, 1, 1, 0]
     rpcs_wsrpc_pb_go)"
  by (simp add: generator_defs calls_of_def rpcs_proto_def versions lower_letters qual_rpcs rpcs_wsrpc_pb_go_def)

lemma squeezed_output_by_calls:
  assumes "r = Ret (Some g)"
  shows "squeezed_output r = Some (squeeze (printed_text (calls_of r)))"
  by (simp add: assms squeezed_output_def calls_of_def)


end
