(* ===== verification/Descriptors.thy ===== *)
theory Descriptors
  imports WireFormat GeneratedFiles
begin

text \<open>
  The raw descriptors in the \<open>.pb.go\<close> files: the bytes from which the protobuf runtime learns at start-up
  what the messages are.  A descriptor is itself an encoded message, of \<open>descriptor.proto\<close>; reading it with the
  format of \<open>WireFormat\<close> shows that it says what the struct tags say and what the wsRPC plugin was given.
\<close>

subsection \<open>Reading a descriptor\<close>

text \<open>The values of a field, and the last one of a singular field or its zero value.\<close>

definition len_values :: "nat \<Rightarrow> (nat \<times> wire_value) list \<Rightarrow> bytes list" where
  "len_values i fs = List.map_filter (\<lambda>(j, v). case v of Len b \<Rightarrow> if j = i then Some b else None | _ \<Rightarrow> None) fs"

definition int_values :: "nat \<Rightarrow> (nat \<times> wire_value) list \<Rightarrow> nat list" where
  "int_values i fs = List.map_filter (\<lambda>(j, v). case v of Varint n \<Rightarrow> if j = i then Some n else None | _ \<Rightarrow> None) fs"

definition string_value :: "nat \<Rightarrow> (nat \<times> wire_value) list \<Rightarrow> string" where
  "string_value i fs = (case len_values i fs of [] \<Rightarrow> [] | b # bs \<Rightarrow> string_of_bytes (last (b # bs)))"

definition int_value :: "nat \<Rightarrow> (nat \<times> wire_value) list \<Rightarrow> nat" where
  "int_value i fs = (case int_values i fs of [] \<Rightarrow> 0 | n # ns \<Rightarrow> last (n # ns))"

text \<open>\<open>FieldDescriptorProto\<close>: name 1, number 3, type 5, type name 6; of the types only those in use.\<close>

definition kind_of_type :: "nat \<Rightarrow> string \<Rightarrow> field_kind option" where
  "kind_of_type t name =
     (if t = 9 then Some StringKind else if t = 12 then Some BytesKind else if t = 3 then Some Int64Kind
      else if t = 11 then Some (MessageKind name) else None)"

definition parse_field_desc :: "bytes \<Rightarrow> (string \<times> nat \<times> field_kind) option" where
  "parse_field_desc b = Option.bind (parse_fields b) (\<lambda>fs.
     map_option (\<lambda>k. (string_value 1 fs, int_value 3 fs, k)) (kind_of_type (int_value 5 fs) (string_value 6 fs)))"

text \<open>\<open>DescriptorProto\<close>: name 1, fields 2; its \<open>oneof\<close> declarations are not read.\<close>

definition parse_message_desc :: "bytes \<Rightarrow> (string \<times> schema) option" where
  "parse_message_desc b = Option.bind (parse_fields b) (\<lambda>fs.
     map_option (Pair (string_value 1 fs)) (those (map parse_field_desc (len_values 2 fs))))"

text \<open>\<open>MethodDescriptorProto\<close>: name 1, input type 2, output type 3; \<open>ServiceDescriptorProto\<close>: name 1, methods 2.\<close>

type_synonym service_desc = "string \<times> (string \<times> string \<times> string) list"

definition parse_method_desc :: "bytes \<Rightarrow> (string \<times> string \<times> string) option" where
  "parse_method_desc b = map_option (\<lambda>fs. (string_value 1 fs, string_value 2 fs, string_value 3 fs)) (parse_fields b)"

definition parse_service_desc :: "bytes \<Rightarrow> service_desc option" where
  "parse_service_desc b = Option.bind (parse_fields b) (\<lambda>fs.
     map_option (Pair (string_value 1 fs)) (those (map parse_method_desc (len_values 2 fs))))"

text \<open>
  \<open>FileDescriptorProto\<close>: name 1, package 2, messages 4, services 6, options 8, syntax 12; the option
  \<open>go_package\<close> has number 11.
\<close>

record file_desc =
  fd_name :: string
  fd_package :: string
  fd_messages :: "(string \<times> schema) list"
  fd_services :: "service_desc list"
  fd_go_package :: string
  fd_syntax :: string

definition parse_file :: "bytes \<Rightarrow> file_desc option" where
  "parse_file b = Option.bind (parse_fields b) (\<lambda>fs.
     Option.bind (those (map parse_message_desc (len_values 4 fs))) (\<lambda>ms.
     Option.bind (those (map parse_service_desc (len_values 6 fs))) (\<lambda>ss.
     Option.bind (parse_fields (concat (len_values 8 fs))) (\<lambda>opts.
       Some \<lparr>fd_name = string_value 1 fs, fd_package = string_value 2 fs, fd_messages = ms, fd_services = ss,
         fd_go_package = string_value 11 opts, fd_syntax = string_value 12 fs\<rparr>))))"

text \<open>
  The service that \<open>protogen\<close> makes of a descriptor, for names that need no change to be Go names and
  messages of the same package.
\<close>

definition protogen_type :: "file_desc \<Rightarrow> string \<Rightarrow> GoIdent" where
  "protogen_type fd name = Ident (fd_go_package fd) (drop (length (fd_package fd) + 2) name)"

definition protogen_service :: "file_desc \<Rightarrow> service_desc \<Rightarrow> proto_service" where
  "protogen_service fd = (\<lambda>(name, methods).
     \<lparr>ps_GoName = name, ps_FullName = fd_package fd @ ''.'' @ name,
      ps_Methods = map (\<lambda>(m, i, o'). \<lparr>pm_GoName = m, pm_DescName = m, pm_Input = protogen_type fd i,
        pm_Output = protogen_type fd o', pm_Leading = []\<rparr>) methods\<rparr>)"

text \<open>
  What the generated \<open>init\<close> hands to the runtime besides: the Go types of the messages, and the indexes of the
  types that fields and methods refer to.  The comments in the files say how the list of indexes is made up:
  types of fields, inputs, outputs, and then where the sub-lists of outputs, inputs, extensions (twice) and
  fields start.
\<close>

definition full_name :: "file_desc \<Rightarrow> string \<Rightarrow> string" where
  "full_name fd m = ''.'' @ fd_package fd @ ''.'' @ m"

definition go_types :: "file_desc \<Rightarrow> string list" where
  "go_types fd = map fst (fd_messages fd)"

fun index_of :: "string \<Rightarrow> string list \<Rightarrow> nat" where
  "index_of x [] = 0"
| "index_of x (y # ys) = (if x = y then 0 else Suc (index_of x ys))"

definition field_types :: "file_desc \<Rightarrow> string list" where
  "field_types fd = List.map_filter (\<lambda>(name, i, k). case k of MessageKind t \<Rightarrow> Some t | _ \<Rightarrow> None) (concat (map snd (fd_messages fd)))"

definition depIdxs :: "file_desc \<Rightarrow> nat list" where
  "depIdxs fd =
     (let fields = field_types fd; methods = concat (map snd (fd_services fd));
          inputs = map (\<lambda>(m, i, o'). i) methods; outputs = map (\<lambda>(m, i, o'). o') methods
      in map (\<lambda>t. index_of t (map (full_name fd) (go_types fd))) (fields @ inputs @ outputs)
         @ [length fields + length inputs, length fields, length fields, length fields, 0])"

subsection \<open>The descriptors in the repository\<close>

definition file_message_proto_rawDesc :: bytes where
  "file_message_proto_rawDesc =
    [0x0A, 0x0D, 0x6D, 0x65, 0x73, 0x73, 0x61, 0x67, 0x65, 0x2E, 0x70, 0x72, 0x6F, 0x74, 0x6F, 0x12,
     0x07, 0x6D, 0x65, 0x73, 0x73, 0x61, 0x67, 0x65, 0x22, 0x74, 0x0A, 0x07, 0x4D, 0x65, 0x73, 0x73,
     0x61, 0x67, 0x65, 0x12, 0x2C, 0x0A, 0x07, 0x72, 0x65, 0x71, 0x75, 0x65, 0x73, 0x74, 0x18, 0x02,
     0x20, 0x01, 0x28, 0x0B, 0x32, 0x10, 0x2E, 0x6D, 0x65, 0x73, 0x73, 0x61, 0x67, 0x65, 0x2E, 0x52,
     0x65, 0x71, 0x75, 0x65, 0x73, 0x74, 0x48, 0x00, 0x52, 0x07, 0x72, 0x65, 0x71, 0x75, 0x65, 0x73,
     0x74, 0x12, 0x2F, 0x0A, 0x08, 0x72, 0x65, 0x73, 0x70, 0x6F, 0x6E, 0x73, 0x65, 0x18, 0x03, 0x20,
     0x01, 0x28, 0x0B, 0x32, 0x11, 0x2E, 0x6D, 0x65, 0x73, 0x73, 0x61, 0x67, 0x65, 0x2E, 0x52, 0x65,
     0x73, 0x70, 0x6F, 0x6E, 0x73, 0x65, 0x48, 0x00, 0x52, 0x08, 0x72, 0x65, 0x73, 0x70, 0x6F, 0x6E,
     0x73, 0x65, 0x42, 0x0A, 0x0A, 0x08, 0x65, 0x78, 0x63, 0x68, 0x61, 0x6E, 0x67, 0x65, 0x22, 0x54,
     0x0A, 0x07, 0x52, 0x65, 0x71, 0x75, 0x65, 0x73, 0x74, 0x12, 0x16, 0x0A, 0x06, 0x6D, 0x65, 0x74,
     0x68, 0x6F, 0x64, 0x18, 0x01, 0x20, 0x01, 0x28, 0x09, 0x52, 0x06, 0x6D, 0x65, 0x74, 0x68, 0x6F,
     0x64, 0x12, 0x17, 0x0A, 0x07, 0x63, 0x61, 0x6C, 0x6C, 0x5F, 0x69, 0x64, 0x18, 0x02, 0x20, 0x01,
     0x28, 0x09, 0x52, 0x06, 0x63, 0x61, 0x6C, 0x6C, 0x49, 0x64, 0x12, 0x18, 0x0A, 0x07, 0x70, 0x61,
     0x79, 0x6C, 0x6F, 0x61, 0x64, 0x18, 0x03, 0x20, 0x01, 0x28, 0x0C, 0x52, 0x07, 0x70, 0x61, 0x79,
     0x6C, 0x6F, 0x61, 0x64, 0x22, 0x53, 0x0A, 0x08, 0x52, 0x65, 0x73, 0x70, 0x6F, 0x6E, 0x73, 0x65,
     0x12, 0x17, 0x0A, 0x07, 0x63, 0x61, 0x6C, 0x6C, 0x5F, 0x69, 0x64, 0x18, 0x01, 0x20, 0x01, 0x28,
     0x09, 0x52, 0x06, 0x63, 0x61, 0x6C, 0x6C, 0x49, 0x64, 0x12, 0x18, 0x0A, 0x07, 0x70, 0x61, 0x79,
     0x6C, 0x6F, 0x61, 0x64, 0x18, 0x02, 0x20, 0x01, 0x28, 0x0C, 0x52, 0x07, 0x70, 0x61, 0x79, 0x6C,
     0x6F, 0x61, 0x64, 0x12, 0x14, 0x0A, 0x05, 0x65, 0x72, 0x72, 0x6F, 0x72, 0x18, 0x03, 0x20, 0x01,
     0x28, 0x09, 0x52, 0x05, 0x65, 0x72, 0x72, 0x6F, 0x72, 0x42, 0x34, 0x5A, 0x32, 0x67, 0x69, 0x74,
     0x68, 0x75, 0x62, 0x2E, 0x63, 0x6F, 0x6D, 0x2F, 0x73, 0x6D, 0x61, 0x72, 0x74, 0x63, 0x6F, 0x6E,
     0x74, 0x72, 0x61, 0x63, 0x74, 0x6B, 0x69, 0x74, 0x2F, 0x77, 0x73, 0x72, 0x70, 0x63, 0x2F, 0x69,
     0x6E, 0x74, 0x65, 0x72, 0x6E, 0x61, 0x6C, 0x2F, 0x6D, 0x65, 0x73, 0x73, 0x61, 0x67, 0x65, 0x62,
     0x06, 0x70, 0x72, 0x6F, 0x74, 0x6F, 0x33]"

definition file_message_test_proto_rawDesc :: bytes where
  "file_message_test_proto_rawDesc =
    [0x0A, 0x12, 0x6D, 0x65, 0x73, 0x73, 0x61, 0x67, 0x65, 0x5F, 0x74, 0x65, 0x73, 0x74, 0x2E, 0x70,
     0x72, 0x6F, 0x74, 0x6F, 0x12, 0x07, 0x6D, 0x65, 0x73, 0x73, 0x61, 0x67, 0x65, 0x22, 0x1D, 0x0A,
     0x07, 0x50, 0x61, 0x79, 0x6C, 0x6F, 0x61, 0x64, 0x12, 0x12, 0x0A, 0x04, 0x6E, 0x61, 0x6D, 0x65,
     0x18, 0x01, 0x20, 0x01, 0x28, 0x09, 0x52, 0x04, 0x6E, 0x61, 0x6D, 0x65, 0x42, 0x34, 0x5A, 0x32,
     0x67, 0x69, 0x74, 0x68, 0x75, 0x62, 0x2E, 0x63, 0x6F, 0x6D, 0x2F, 0x73, 0x6D, 0x61, 0x72, 0x74,
     0x63, 0x6F, 0x6E, 0x74, 0x72, 0x61, 0x63, 0x74, 0x6B, 0x69, 0x74, 0x2F, 0x77, 0x73, 0x72, 0x70,
     0x63, 0x2F, 0x69, 0x6E, 0x74, 0x65, 0x72, 0x6E, 0x61, 0x6C, 0x2F, 0x6D, 0x65, 0x73, 0x73, 0x61,
     0x67, 0x65, 0x62, 0x06, 0x70, 0x72, 0x6F, 0x74, 0x6F, 0x33]"

definition file_ping_proto_rawDesc :: bytes where
  "file_ping_proto_rawDesc =
    [0x0A, 0x0A, 0x70, 0x69, 0x6E, 0x67, 0x2E, 0x70, 0x72, 0x6F, 0x74, 0x6F, 0x12, 0x04, 0x70, 0x69,
     0x6E, 0x67, 0x22, 0x21, 0x0A, 0x0B, 0x50, 0x69, 0x6E, 0x67, 0x52, 0x65, 0x71, 0x75, 0x65, 0x73,
     0x74, 0x12, 0x12, 0x0A, 0x04, 0x62, 0x6F, 0x64, 0x79, 0x18, 0x01, 0x20, 0x01, 0x28, 0x09, 0x52,
     0x04, 0x62, 0x6F, 0x64, 0x79, 0x22, 0x22, 0x0A, 0x0C, 0x50, 0x69, 0x6E, 0x67, 0x52, 0x65, 0x73,
     0x70, 0x6F, 0x6E, 0x73, 0x65, 0x12, 0x12, 0x0A, 0x04, 0x62, 0x6F, 0x64, 0x79, 0x18, 0x01, 0x20,
     0x01, 0x28, 0x09, 0x52, 0x04, 0x62, 0x6F, 0x64, 0x79, 0x22, 0x21, 0x0A, 0x0B, 0x47, 0x6E, 0x69,
     0x70, 0x52, 0x65, 0x71, 0x75, 0x65, 0x73, 0x74, 0x12, 0x12, 0x0A, 0x04, 0x62, 0x6F, 0x64, 0x79,
     0x18, 0x01, 0x20, 0x01, 0x28, 0x09, 0x52, 0x04, 0x62, 0x6F, 0x64, 0x79, 0x22, 0x22, 0x0A, 0x0C,
     0x47, 0x6E, 0x69, 0x70, 0x52, 0x65, 0x73, 0x70, 0x6F, 0x6E, 0x73, 0x65, 0x12, 0x12, 0x0A, 0x04,
     0x62, 0x6F, 0x64, 0x79, 0x18, 0x01, 0x20, 0x01, 0x28, 0x09, 0x52, 0x04, 0x62, 0x6F, 0x64, 0x79,
     0x32, 0x35, 0x0A, 0x04, 0x50, 0x69, 0x6E, 0x67, 0x12, 0x2D, 0x0A, 0x04, 0x50, 0x69, 0x6E, 0x67,
     0x12, 0x11, 0x2E, 0x70, 0x69, 0x6E, 0x67, 0x2E, 0x50, 0x69, 0x6E, 0x67, 0x52, 0x65, 0x71, 0x75,
     0x65, 0x73, 0x74, 0x1A, 0x12, 0x2E, 0x70, 0x69, 0x6E, 0x67, 0x2E, 0x50, 0x69, 0x6E, 0x67, 0x52,
     0x65, 0x73, 0x70, 0x6F, 0x6E, 0x73, 0x65, 0x32, 0x35, 0x0A, 0x04, 0x47, 0x6E, 0x69, 0x70, 0x12,
     0x2D, 0x0A, 0x04, 0x47, 0x6E, 0x69, 0x70, 0x12, 0x11, 0x2E, 0x70, 0x69, 0x6E, 0x67, 0x2E, 0x47,
     0x6E, 0x69, 0x70, 0x52, 0x65, 0x71, 0x75, 0x65, 0x73, 0x74, 0x1A, 0x12, 0x2E, 0x70, 0x69, 0x6E,
     0x67, 0x2E, 0x47, 0x6E, 0x69, 0x70, 0x52, 0x65, 0x73, 0x70, 0x6F, 0x6E, 0x73, 0x65, 0x42, 0x38,
     0x5A, 0x36, 0x67, 0x69, 0x74, 0x68, 0x75, 0x62, 0x2E, 0x63, 0x6F, 0x6D, 0x2F, 0x73, 0x6D, 0x61,
     0x72, 0x74, 0x63, 0x6F, 0x6E, 0x74, 0x72, 0x61, 0x63, 0x74, 0x6B, 0x69, 0x74, 0x2F, 0x77, 0x73,
     0x72, 0x70, 0x63, 0x2F, 0x65, 0x78, 0x61, 0x6D, 0x70, 0x6C, 0x65, 0x73, 0x2F, 0x73, 0x69, 0x6D,
     0x70, 0x6C, 0x65, 0x2F, 0x70, 0x69, 0x6E, 0x67, 0x62, 0x06, 0x70, 0x72, 0x6F, 0x74, 0x6F, 0x33]"

definition file_intgtest_internal_rpcs_rpcs_proto_rawDesc :: bytes where
  "file_intgtest_internal_rpcs_rpcs_proto_rawDesc =
    [0x0A, 0x21, 0x69, 0x6E, 0x74, 0x67, 0x74, 0x65, 0x73, 0x74, 0x2F, 0x69, 0x6E, 0x74, 0x65, 0x72,
     0x6E, 0x61, 0x6C, 0x2F, 0x72, 0x70, 0x63, 0x73, 0x2F, 0x72, 0x70, 0x63, 0x73, 0x2E, 0x70, 0x72,
     0x6F, 0x74, 0x6F, 0x12, 0x04, 0x72, 0x70, 0x63, 0x73, 0x22, 0x3B, 0x0A, 0x0B, 0x45, 0x63, 0x68,
     0x6F, 0x52, 0x65, 0x71, 0x75, 0x65, 0x73, 0x74, 0x12, 0x12, 0x0A, 0x04, 0x62, 0x6F, 0x64, 0x79,
     0x18, 0x01, 0x20, 0x01, 0x28, 0x09, 0x52, 0x04, 0x62, 0x6F, 0x64, 0x79, 0x12, 0x18, 0x0A, 0x07,
     0x64, 0x65, 0x6C, 0x61, 0x79, 0x4D, 0x73, 0x18, 0x02, 0x20, 0x01, 0x28, 0x03, 0x52, 0x07, 0x64,
     0x65, 0x6C, 0x61, 0x79, 0x4D, 0x73, 0x22, 0x22, 0x0A, 0x0C, 0x45, 0x63, 0x68, 0x6F, 0x52, 0x65,
     0x73, 0x70, 0x6F, 0x6E, 0x73, 0x65, 0x12, 0x12, 0x0A, 0x04, 0x62, 0x6F, 0x64, 0x79, 0x18, 0x01,
     0x20, 0x01, 0x28, 0x09, 0x52, 0x04, 0x62, 0x6F, 0x64, 0x79, 0x32, 0x35, 0x0A, 0x04, 0x45, 0x63,
     0x68, 0x6F, 0x12, 0x2D, 0x0A, 0x04, 0x45, 0x63, 0x68, 0x6F, 0x12, 0x11, 0x2E, 0x72, 0x70, 0x63,
     0x73, 0x2E, 0x45, 0x63, 0x68, 0x6F, 0x52, 0x65, 0x71, 0x75, 0x65, 0x73, 0x74, 0x1A, 0x12, 0x2E,
     0x72, 0x70, 0x63, 0x73, 0x2E, 0x45, 0x63, 0x68, 0x6F, 0x52, 0x65, 0x73, 0x70, 0x6F, 0x6E, 0x73,
     0x65, 0x42, 0x3A, 0x5A, 0x38, 0x67, 0x69, 0x74, 0x68, 0x75, 0x62, 0x2E, 0x63, 0x6F, 0x6D, 0x2F,
     0x73, 0x6D, 0x61, 0x72, 0x74, 0x63, 0x6F, 0x6E, 0x74, 0x72, 0x61, 0x63, 0x74, 0x6B, 0x69, 0x74,
     0x2F, 0x77, 0x73, 0x72, 0x70, 0x63, 0x2F, 0x69, 0x6E, 0x74, 0x67, 0x74, 0x65, 0x73, 0x74, 0x2F,
     0x69, 0x6E, 0x74, 0x65, 0x72, 0x6E, 0x61, 0x6C, 0x2F, 0x72, 0x70, 0x63, 0x73, 0x62, 0x06, 0x70,
     0x72, 0x6F, 0x74, 0x6F, 0x33]"

definition file_message_proto_goTypes :: "string list" where
  "file_message_proto_goTypes = [''Message'', ''Request'', ''Response'']"

definition file_message_proto_depIdxs :: "nat list" where
  "file_message_proto_depIdxs = [1, 2, 2, 2, 2, 2, 0]"

definition file_message_test_proto_goTypes :: "string list" where
  "file_message_test_proto_goTypes = [''Payload'']"

definition file_message_test_proto_depIdxs :: "nat list" where
  "file_message_test_proto_depIdxs = [0, 0, 0, 0, 0]"

definition file_ping_proto_goTypes :: "string list" where
  "file_ping_proto_goTypes = [''PingRequest'', ''PingResponse'', ''GnipRequest'', ''GnipResponse'']"

definition file_ping_proto_depIdxs :: "nat list" where
  "file_ping_proto_depIdxs = [0, 2, 1, 3, 2, 0, 0, 0, 0]"

definition file_intgtest_internal_rpcs_rpcs_proto_goTypes :: "string list" where
  "file_intgtest_internal_rpcs_rpcs_proto_goTypes = [''EchoRequest'', ''EchoResponse'']"

definition file_intgtest_internal_rpcs_rpcs_proto_depIdxs :: "nat list" where
  "file_intgtest_internal_rpcs_rpcs_proto_depIdxs = [0, 1, 1, 0, 0, 0, 0]"

text \<open>The struct tags of the other messages.\<close>

definition payload_fields :: schema where
  "payload_fields = [(''name'', 1, StringKind)]"

definition ping_request_fields :: schema where
  "ping_request_fields = [(''body'', 1, StringKind)]"

definition ping_response_fields :: schema where
  "ping_response_fields = [(''body'', 1, StringKind)]"

definition gnip_request_fields :: schema where
  "gnip_request_fields = [(''body'', 1, StringKind)]"

definition gnip_response_fields :: schema where
  "gnip_response_fields = [(''body'', 1, StringKind)]"

definition echo_request_fields :: schema where
  "echo_request_fields = [(''body'', 1, StringKind), (''delayMs'', 2, Int64Kind)]"

definition echo_response_fields :: schema where
  "echo_response_fields = [(''body'', 1, StringKind)]"

subsection \<open>Agreement\<close>

lemmas desc_defs = parse_file_def parse_service_desc_def parse_method_desc_def parse_message_desc_def parse_field_desc_def
  kind_of_type_def string_value_def int_value_def len_values_def int_values_def List.map_filter_def string_of_bytes_def

lemmas schema_defs = message_fields_def request_fields_def response_fields_def payload_fields_def ping_request_fields_def
  ping_response_fields_def gnip_request_fields_def gnip_response_fields_def echo_request_fields_def echo_response_fields_def
  ping_path_def rpcs_path_def

lemma message_descriptor:
  "parse_file file_message_proto_rawDesc = Some
     \<lparr>fd_name = ''message.proto'', fd_package = ''message'',
      fd_messages = [(''Message'', message_fields), (''Request'', request_fields), (''Response'', response_fields)],
      fd_services = [], fd_go_package = ''github.com/smartcontractkit/wsrpc/internal/message'', fd_syntax = ''proto3''\<rparr>"
  by (simp add: file_message_proto_rawDesc_def desc_defs schema_defs short_fields char_of_eq_iff)

lemma payload_descriptor:
  "parse_file file_message_test_proto_rawDesc = Some
     \<lparr>fd_name = ''message_test.proto'', fd_package = ''message'', fd_messages = [(''Payload'', payload_fields)],
      fd_services = [], fd_go_package = ''github.com/smartcontractkit/wsrpc/internal/message'', fd_syntax = ''proto3''\<rparr>"
  by (simp add: file_message_test_proto_rawDesc_def desc_defs schema_defs short_fields char_of_eq_iff)

lemma ping_descriptor:
  "parse_file file_ping_proto_rawDesc = Some
     \<lparr>fd_name = ''ping.proto'', fd_package = ''ping'',
      fd_messages = [(''PingRequest'', ping_request_fields), (''PingResponse'', ping_response_fields),
        (''GnipRequest'', gnip_request_fields), (''GnipResponse'', gnip_response_fields)],
      fd_services = [(''Ping'', [(''Ping'', ''.ping.PingRequest'', ''.ping.PingResponse'')]),
        (''Gnip'', [(''Gnip'', ''.ping.GnipRequest'', ''.ping.GnipResponse'')])],
      fd_go_package = ping_path, fd_syntax = ''proto3''\<rparr>"
  by (simp add: file_ping_proto_rawDesc_def desc_defs schema_defs short_fields char_of_eq_iff)

lemma rpcs_descriptor:
  "parse_file file_intgtest_internal_rpcs_rpcs_proto_rawDesc = Some
     \<lparr>fd_name = ''intgtest/internal/rpcs/rpcs.proto'', fd_package = ''rpcs'',
      fd_messages = [(''EchoRequest'', echo_request_fields), (''EchoResponse'', echo_response_fields)],
      fd_services = [(''Echo'', [(''Echo'', ''.rpcs.EchoRequest'', ''.rpcs.EchoResponse'')])],
      fd_go_package = rpcs_path, fd_syntax = ''proto3''\<rparr>"
  by (simp add: file_intgtest_internal_rpcs_rpcs_proto_rawDesc_def desc_defs schema_defs short_fields char_of_eq_iff)


end
