(* ===== verification/Mocks.thy ===== *)
theory Mocks
  imports UniClient
begin

text \<open>
  \<open>mocks\<close>: the stand-ins for \<open>Conn\<close> and \<open>Logger\<close> that the tests of \<open>uni_client.go\<close> use.  Their core is
  \<open>mock.Mock\<close> of \<open>testify\<close>, which is not part of the repository: the parameter \<open>called\<close> says what
  \<open>Called\<close> returns, or that it panics because nobody expected the call.
\<close>

subsection \<open>Values and calls\<close>

text \<open>
  The values a test hands to \<open>Return\<close>: plain ones, and functions of the types the methods look for.
\<close>

datatype mock_value =
    MV_Nil
  | MV_Int int
  | MV_Bytes slice
  | MV_Error go_error
  | MV_String string
  | MV_FuncError "unit \<Rightarrow> go_error option" \<comment> \<open>\<open>func() error\<close>\<close>
  | MV_FuncInt "unit \<Rightarrow> int" \<comment> \<open>\<open>func() int\<close>\<close>
  | MV_FuncBytes "unit \<Rightarrow> slice" \<comment> \<open>\<open>func() []byte\<close>\<close>
  | MV_FuncTime "int \<Rightarrow> go_error option" \<comment> \<open>\<open>func(time.Time) error\<close>\<close>
  | MV_FuncWrite "int \<Rightarrow> slice \<Rightarrow> go_error option" \<comment> \<open>\<open>func(int, []byte) error\<close>\<close>

type_synonym 'm mock_called = "string \<Rightarrow> mock_value list \<Rightarrow> 'm \<Rightarrow> (mock_value list \<times> 'm) go"

abbreviation mock_panic :: "string \<Rightarrow> 'a go" where
  "mock_panic s \<equiv> Panic (PanicWith (New s))"

text \<open>\<open>ret.Get(i)\<close> and \<open>ret.Error(i)\<close>, and the type assertions to \<open>int\<close> and \<open>[]byte\<close>.\<close>

definition args_Get :: "mock_value list \<Rightarrow> nat \<Rightarrow> mock_value go" where
  "args_Get ret i = (if i < length ret then Ret (ret ! i) else mock_panic ''assert: arguments: Cannot call Get'')"

definition args_Error :: "mock_value list \<Rightarrow> nat \<Rightarrow> go_error option go" where
  "args_Error ret i = go_bind (args_Get ret i) (\<lambda>v. case v of
       MV_Nil \<Rightarrow> Ret None
     | MV_Error err \<Rightarrow> Ret (Some err)
     | _ \<Rightarrow> mock_panic ''assert: arguments: Error() failed'')"

definition as_int :: "mock_value \<Rightarrow> int go" where
  "as_int v = (case v of MV_Int n \<Rightarrow> Ret n | _ \<Rightarrow> mock_panic ''interface conversion'')"

definition as_bytes :: "mock_value \<Rightarrow> slice go" where
  "as_bytes v = (case v of MV_Bytes b \<Rightarrow> Ret b | _ \<Rightarrow> mock_panic ''interface conversion'')"

subsection \<open>\<open>Conn\<close>\<close>

definition mock_Close :: "'m mock_called \<Rightarrow> 'm \<Rightarrow> (go_error option \<times> 'm) go" where
  "mock_Close called m = go_bind (called ''Close'' [] m) (\<lambda>(ret, m1).
     go_bind (args_Get ret 0) (\<lambda>v. case v of
         MV_FuncError rf \<Rightarrow> Ret (rf (), m1)
       | _ \<Rightarrow> go_bind (args_Error ret 0) (\<lambda>r0. Ret (r0, m1))))"

definition mock_ReadMessage :: "'m mock_called \<Rightarrow> 'm \<Rightarrow> ((int \<times> slice \<times> go_error option) \<times> 'm) go" where
  "mock_ReadMessage called m = go_bind (called ''ReadMessage'' [] m) (\<lambda>(ret, m1).
     go_bind (args_Get ret 0) (\<lambda>v0.
     go_bind (case v0 of MV_FuncInt rf \<Rightarrow> Ret (rf ()) | _ \<Rightarrow> as_int v0) (\<lambda>r0.
     go_bind (args_Get ret 1) (\<lambda>v1.
     go_bind (case v1 of MV_FuncBytes rf \<Rightarrow> Ret (rf ()) | MV_Nil \<Rightarrow> Ret None | _ \<Rightarrow> as_bytes v1) (\<lambda>r1.
     go_bind (args_Get ret 2) (\<lambda>v2.
     go_bind (case v2 of MV_FuncError rf \<Rightarrow> Ret (rf ()) | _ \<Rightarrow> args_Error ret 2) (\<lambda>r2.
       Ret ((r0, r1, r2), m1))))))))"

definition mock_SetReadDeadline :: "'m mock_called \<Rightarrow> int \<Rightarrow> 'm \<Rightarrow> (go_error option \<times> 'm) go" where
  "mock_SetReadDeadline called t m = go_bind (called ''SetReadDeadline'' [MV_Int t] m) (\<lambda>(ret, m1).
     go_bind (args_Get ret 0) (\<lambda>v. case v of
         MV_FuncTime rf \<Rightarrow> Ret (rf t, m1)
       | _ \<Rightarrow> go_bind (args_Error ret 0) (\<lambda>r0. Ret (r0, m1))))"

definition mock_SetWriteDeadline :: "'m mock_called \<Rightarrow> int \<Rightarrow> 'm \<Rightarrow> (go_error option \<times> 'm) go" where
  "mock_SetWriteDeadline called t m = go_bind (called ''SetWriteDeadline'' [MV_Int t] m) (\<lambda>(ret, m1).
     go_bind (args_Get ret 0) (\<lambda>v. case v of
         MV_FuncTime rf \<Rightarrow> Ret (rf t, m1)
       | _ \<Rightarrow> go_bind (args_Error ret 0) (\<lambda>r0. Ret (r0, m1))))"

definition mock_WriteMessage :: "'m mock_called \<Rightarrow> int \<Rightarrow> slice \<Rightarrow> 'm \<Rightarrow> (go_error option \<times> 'm) go" where
  "mock_WriteMessage called messageType p m = go_bind (called ''WriteMessage'' [MV_Int messageType, MV_Bytes p] m) (\<lambda>(ret, m1).
     go_bind (args_Get ret 0) (\<lambda>v. case v of
         MV_FuncWrite rf \<Rightarrow> Ret (rf messageType p, m1)
       | _ \<Rightarrow> go_bind (args_Error ret 0) (\<lambda>r0. Ret (r0, m1))))"

subsection \<open>\<open>Logger\<close>\<close>

text \<open>The methods of \<open>Logger\<close> record their call and ignore what it returns.\<close>

definition mock_log :: "string \<Rightarrow> 'm mock_called \<Rightarrow> string \<Rightarrow> mock_value list \<Rightarrow> 'm \<Rightarrow> 'm go" where
  "mock_log name called format values m = go_bind (called name (MV_String format # values) m) (\<lambda>(ret, m1). Ret m1)"

definition mock_Debugf :: "'m mock_called \<Rightarrow> string \<Rightarrow> mock_value list \<Rightarrow> 'm \<Rightarrow> 'm go" where
  "mock_Debugf = mock_log ''Debugf''"

definition mock_Errorf :: "'m mock_called \<Rightarrow> string \<Rightarrow> mock_value list \<Rightarrow> 'm \<Rightarrow> 'm go" where
  "mock_Errorf = mock_log ''Errorf''"

definition mock_Infof :: "'m mock_called \<Rightarrow> string \<Rightarrow> mock_value list \<Rightarrow> 'm \<Rightarrow> 'm go" where
  "mock_Infof = mock_log ''Infof''"

definition mock_Warnf :: "'m mock_called \<Rightarrow> string \<Rightarrow> mock_value list \<Rightarrow> 'm \<Rightarrow> 'm go" where
  "mock_Warnf = mock_log ''Warnf''"

lemmas mock_defs = mock_Close_def mock_ReadMessage_def mock_SetReadDeadline_def mock_SetWriteDeadline_def
  mock_WriteMessage_def args_Get_def args_Error_def as_int_def as_bytes_def

text \<open>What a test puts into \<open>Return\<close> comes out, as a value or through a function of the right type.\<close>

lemma mock_returns_values:
  assumes "called ''ReadMessage'' [] m = Ret ([MV_Int t, MV_Bytes b, MV_Nil], m1)"
    and "called ''WriteMessage'' [MV_Int k, MV_Bytes p] m = Ret ([MV_Error err], m2)"
    and "called ''SetReadDeadline'' [MV_Int d] m = Ret ([MV_FuncTime rf], m3)"
  shows "mock_ReadMessage called m = Ret ((t, b, None), m1)" "mock_WriteMessage called k p m = Ret (Some err, m2)"
    "mock_SetReadDeadline called d m = Ret (rf d, m3)"
  using assms by (simp_all add: mock_defs)

text \<open>A function of the type of another method is taken for an error value, and panics.\<close>

lemma mock_wrong_type_panics:
  assumes "called ''Close'' [] m = Ret ([MV_FuncTime rf], m1)" "called ''ReadMessage'' [] m = Ret ([MV_Nil, b, err], m2)"
  shows "\<exists>p. mock_Close called m = Panic p" "\<exists>p. mock_ReadMessage called m = Panic p"
  using assms by (simp_all add: mock_defs)

end
