(* ===== verification/Examples.thy ===== *)
theory Examples
  imports Serve Rpc Client
begin

text \<open>
  The programs under \<open>examples/simple\<close>: the keys of the participants (\<open>keys/keys.go\<close>), the start of
  the server and of the client (\<open>server/main.go\<close>, \<open>client/main.go\<close>), the handlers they
  register, and the generated code of their two services (\<open>ping/ping.pb.go\<close>,
  \<open>ping/ping_wsrpc.pb.go\<close>).  The loops that call every five seconds are one round each.
\<close>

subsection \<open>Keys\<close>

record keys_Client =
  ec_ID :: string
  ec_Name :: string
  ec_PubKey :: string
  ec_PrivKey :: string
  ec_RegisteredOnServer :: bool

definition ServerPubKey :: string where
  "ServerPubKey = ''3b0f149627adb7b6fafe1497a9dfc357f22295a5440786c3bc566dfdb0176808''"

definition ServerPrivKey :: string where
  "ServerPrivKey =
     ''c1afd224cec2ff6066746bf9b7cdf7f9f4694ab7ef2ca1692ff923a30df20348'' @
     ''3b0f149627adb7b6fafe1497a9dfc357f22295a5440786c3bc566dfdb0176808''"

definition Clients :: "keys_Client list" where
  "Clients =
     [\<lparr>ec_ID = ''1'', ec_Name = ''Alice'',
        ec_PubKey = ''0f17c3bf72de8beef6e2d17a14c0a972f5d7e0e66e70722373f12b88382d40f9'',
        ec_PrivKey = ''5ae73174dfe4ae293e25ba6845e76d9819e5f5432ff8820d5c996be292abf14f'' @
          ''0f17c3bf72de8beef6e2d17a14c0a972f5d7e0e66e70722373f12b88382d40f9'',
        ec_RegisteredOnServer = True\<rparr>,
      \<lparr>ec_ID = ''2'', ec_Name = ''Bob'',
        ec_PubKey = ''9a36f1819c60970b0cb16585cacf35ed824b48bc8ac24980bf615bc8d7b9661c'',
        ec_PrivKey = ''1b6093915ce64fa5ca15147808da47ccb64f50a16841edde12fd797c3e52d816'' @
          ''9a36f1819c60970b0cb16585cacf35ed824b48bc8ac24980bf615bc8d7b9661c'',
        ec_RegisteredOnServer = True\<rparr>,
      \<lparr>ec_ID = ''3'', ec_Name = ''Charlie'',
        ec_PubKey = ''235750320bb723760add5969b3c51342e829542d399f82b07a0458092c3960af'',
        ec_PrivKey = ''84206ddc52ad6f83569ed409829f194db1d3bbb65e7c04db5ca098d1f020ee47'' @
          ''235750320bb723760add5969b3c51342e829542d399f82b07a0458092c3960af'',
        ec_RegisteredOnServer = False\<rparr>]"

text \<open>
  \<open>hex.Decode\<close> writes byte after byte and stops at the first character that is no digit; \<open>FromHex\<close>
  ignores its error, so the bytes after that stay 0.
\<close>

definition hex_val :: "char \<Rightarrow> nat option" where
  "hex_val c =
     (let n = of_char c :: nat
      in if 48 \<le> n \<and> n \<le> 57 then Some (n - 48)
         else if 97 \<le> n \<and> n \<le> 102 then Some (n - 87)
         else if 65 \<le> n \<and> n \<le> 70 then Some (n - 55)
         else None)"

fun hex_Decode :: "string \<Rightarrow> bytes" where
  "hex_Decode (p # q # src) =
     (case (hex_val p, hex_val q) of
        (Some a, Some b) \<Rightarrow> word_of_nat (16 * a + b) # hex_Decode src
      | _ \<Rightarrow> [])"
| "hex_Decode _ = []"

definition FromHex :: "string \<Rightarrow> bytes" where
  "FromHex keyHex = snd (copy (replicate (length keyHex div 2) 0) (hex_Decode keyHex))"

definition ToStaticSizedBytes :: "bytes \<Rightarrow> static_key res" where
  "ToStaticSizedBytes b =
     (if length b \<noteq> PublicKeySize
      then Inl (New (''provided public key is '' @ show_nat (length b) @ '' bytes, expected ''
             @ show_nat PublicKeySize @ '' bytes''))
      else case copy (replicate PublicKeySize 0) b of (n, sb) \<Rightarrow>
             if PublicKeySize \<noteq> n then Inl (New ''copying public key failed'') else Inr sb)"

lemma hex_val_digit:
  assumes "n < 16"
  shows "hex_val (hex_digit n) = Some n"
proof -
  have "list_all (\<lambda>n. hex_val (hex_digit n) = Some n) [0..<16]" by code_simp
  with assms show ?thesis by (simp add: list_all_iff)
qed

lemma hex_Decode_bytes: "hex_Decode (hex_bytes b) = b"
proof (induction b)
  case Nil
  then show ?case by (simp add: hex_bytes_def)
next
  case (Cons x b)
  have "unat x < 256" using unsigned_less [of x] by simp
  then have "hex_val (hex_digit (unat x div 16)) = Some (unat x div 16)" "hex_val (hex_digit (unat x mod 16)) = Some (unat x mod 16)"
    by (simp_all add: hex_val_digit)
  moreover have "word_of_nat (16 * (unat x div 16) + unat x mod 16) = x" by simp
  ultimately show ?case using Cons.IH by (simp add: hex_bytes_def)
qed

lemma length_hex_bytes: "length (hex_bytes b) = 2 * length b"
  by (induction b) (simp_all add: hex_bytes_def)

text \<open>
  Printing a key and reading it back gives the same key: \<open>FromHex\<close> inverts the hexadecimal
  form that \<open>String\<close> prints, for a byte string of any length, and \<open>ToStaticSizedBytes\<close> accepts the
  result exactly when it has 32 bytes.
\<close>

lemma hex_key_roundtrip:
  "FromHex (StaticSizedPublicKey_String b) = b
   \<and> (if is_static b then ToStaticSizedBytes (FromHex (StaticSizedPublicKey_String b)) = Inr b
      else is_err (ToStaticSizedBytes (FromHex (StaticSizedPublicKey_String b))))"
proof -
  have "FromHex (StaticSizedPublicKey_String b) = b"
    by (simp add: FromHex_def StaticSizedPublicKey_String_def hex_Decode_bytes length_hex_bytes copy_def Let_def)
  then show ?thesis by (simp add: ToStaticSizedBytes_def is_static_def copy_def Let_def)
qed

subsection \<open>The server\<close>

text \<open>
  The loop of \<open>main\<close> over the clients: the keys for \<open>WithCreds\<close> and the names for the handlers.
  A key that does not fit panics.
\<close>

fun register_clients ::
  "keys_Client list \<Rightarrow> bytes list \<Rightarrow> (static_key \<rightharpoonup> string) \<Rightarrow> (bytes list \<times> (static_key \<rightharpoonup> string)) go"
where
  "register_clients [] pubKeys clients = Ret (pubKeys, clients)"
| "register_clients (c # cs) pubKeys clients =
     (if ec_RegisteredOnServer c
      then let clientPubKey = FromHex (ec_PubKey c)
           in case ToStaticSizedBytes clientPubKey of
                Inl err \<Rightarrow> Panic (PanicWith err)
              | Inr staticClientPubKey \<Rightarrow>
                  register_clients cs (pubKeys @ [clientPubKey]) (clients(staticClientPubKey \<mapsto> ec_Name c))
      else register_clients cs pubKeys clients)"

definition example_options ::
  "(int \<Rightarrow> Signer \<Rightarrow> bytes res) \<Rightarrow> bytes list \<Rightarrow> ServerOption list"
where
  "example_options create pubKeys =
     [WithCreds create (FromHex ServerPrivKey) pubKeys, WithHealthcheck ''127.0.0.1:1337'']"

text \<open>The messages of the service; a message value is a pointer to one, possibly nil.\<close>

record PingRequest =
  PingRequest_Body :: string

record PingResponse =
  PingResponse_Body :: string

record GnipRequest =
  GnipRequest_Body :: string

record GnipResponse =
  GnipResponse_Body :: string

definition PingRequest_GetBody :: "PingRequest option \<Rightarrow> string" where
  "PingRequest_GetBody x = (case x of Some r \<Rightarrow> PingRequest_Body r | None \<Rightarrow> '''')"

definition PingResponse_GetBody :: "PingResponse option \<Rightarrow> string" where
  "PingResponse_GetBody x = (case x of Some r \<Rightarrow> PingResponse_Body r | None \<Rightarrow> '''')"

definition GnipRequest_GetBody :: "GnipRequest option \<Rightarrow> string" where
  "GnipRequest_GetBody x = (case x of Some r \<Rightarrow> GnipRequest_Body r | None \<Rightarrow> '''')"

definition GnipResponse_GetBody :: "GnipResponse option \<Rightarrow> string" where
  "GnipResponse_GetBody x = (case x of Some r \<Rightarrow> GnipResponse_Body r | None \<Rightarrow> '''')"

datatype ping_message =
    PingRequestPtr "PingRequest option"
  | PingResponsePtr "PingResponse option"
  | GnipRequestPtr "GnipRequest option"
  | GnipResponsePtr "GnipResponse option"

record pingServer =
  ps_clients :: "static_key \<rightharpoonup> string"

text \<open>\<open>Ping\<close>: the response and the error, and the line it logs.\<close>

definition pingServer_Ping ::
  "pingServer \<Rightarrow> go_ctx \<Rightarrow> PingRequest \<Rightarrow> (PingResponse option \<times> go_error option) \<times> string list"
where
  "pingServer_Ping s ctx req =
     (let resBody = ''pong''
      in case peer_FromContext ctx of
           None \<Rightarrow> ((None, Some (New ''could not extract public key'')), [])
         | Some p \<Rightarrow>
             let name = (case ps_clients s (peer_PublicKey p) of None \<Rightarrow> '''' | Some name \<Rightarrow> name)
             in ((Some \<lparr>PingResponse_Body = resBody\<rparr>, None),
                 [''[RPC SERVICE HANDLER] '' @ PingRequest_Body req @ '' ('' @ name @ '') -> '' @ resBody]))"

definition gnipClient_Gnip :: "go_ctx \<Rightarrow> GnipRequest \<Rightarrow> (GnipResponse option \<times> go_error option) \<times> string list" where
  "gnipClient_Gnip ctx req =
     (let resBody = ''gnop''
      in ((Some \<lparr>GnipResponse_Body = resBody\<rparr>, None), [''[HANDLER] '' @ GnipRequest_Body req @ '' -> '' @ resBody]))"

text \<open>
  The generated handlers.  The decoder fills the message that the handler has made, so it is of the
  type of the request and not nil; the last equations are never used.
\<close>

definition Ping_Ping_Handler :: "(pingServer, ping_message) methodHandler" where
  "Ping_Ping_Handler = generated_handler (PingRequestPtr (Some \<lparr>PingRequest_Body = ''''\<rparr>))
     (\<lambda>srv ctx m. case m of
        PingRequestPtr (Some req) \<Rightarrow>
          (case pingServer_Ping srv ctx req of ((resp, err), _) \<Rightarrow> (ProtoMessage (PingResponsePtr resp), err))
      | _ \<Rightarrow> (NilValue, None))"

definition Gnip_Gnip_Handler :: "(unit, ping_message) methodHandler" where
  "Gnip_Gnip_Handler = generated_handler (GnipRequestPtr (Some \<lparr>GnipRequest_Body = ''''\<rparr>))
     (\<lambda>srv ctx m. case m of
        GnipRequestPtr (Some req) \<Rightarrow>
          (case gnipClient_Gnip ctx req of ((resp, err), _) \<Rightarrow> (ProtoMessage (GnipResponsePtr resp), err))
      | _ \<Rightarrow> (NilValue, None))"

definition Ping_ServiceDesc :: "(pingServer, ping_message) ServiceDesc" where
  "Ping_ServiceDesc = \<lparr>sd_ServiceName = ''ping.Ping'', sd_HandlerType = ''PingServer'',
     sd_Methods = [\<lparr>md_MethodName = ''Ping'', md_Handler = Ping_Ping_Handler\<rparr>]\<rparr>"

definition Gnip_ServiceDesc :: "(unit, ping_message) ServiceDesc" where
  "Gnip_ServiceDesc = \<lparr>sd_ServiceName = ''ping.Gnip'', sd_HandlerType = ''GnipServer'',
     sd_Methods = [\<lparr>md_MethodName = ''Gnip'', md_Handler = Gnip_Gnip_Handler\<rparr>]\<rparr>"

text \<open>The generated clients, over the \<open>Invoke\<close> of a \<open>ClientInterface\<close>.\<close>

definition pingClient_Ping ::
  "(string \<Rightarrow> ping_message go_value \<Rightarrow> ping_message go_value \<Rightarrow> ping_message res) \<Rightarrow> PingRequest option \<Rightarrow> ping_message res"
where
  "pingClient_Ping invoke req =
     generated_client_method invoke ''Ping'' (PingResponsePtr (Some \<lparr>PingResponse_Body = ''''\<rparr>)) (PingRequestPtr req)"

definition genGnipClient_Gnip ::
  "(string \<Rightarrow> ping_message go_value \<Rightarrow> ping_message go_value \<Rightarrow> ping_message res) \<Rightarrow> GnipRequest option \<Rightarrow> ping_message res"
where
  "genGnipClient_Gnip invoke req =
     generated_client_method invoke ''Gnip'' (GnipResponsePtr (Some \<lparr>GnipResponse_Body = ''''\<rparr>)) (GnipRequestPtr req)"

text \<open>One round of the loops: what is logged of the result.\<close>

primrec errors_Is :: "go_error \<Rightarrow> go_error \<Rightarrow> bool" where
  "errors_Is (New t) target \<longleftrightarrow> New t = target"
| "errors_Is (Wrap t e) target \<longleftrightarrow> Wrap t e = target \<or> errors_Is e target"

definition gnip_round :: "string \<Rightarrow> GnipResponse option res \<Rightarrow> string" where
  "gnip_round name r =
     (case r of
        Inl err \<Rightarrow>
          if errors_Is err ErrNotConnected then ''[RPC CALL] '' @ name @ '': '' @ Error err
          else ''[RPC CALL] Some error ocurred: '' @ Error err
      | Inr res \<Rightarrow> ''[RPC CALL] Gnip ('' @ name @ '') -> '' @ GnipResponse_GetBody res)"

definition ping_round :: "PingResponse option res \<Rightarrow> string" where
  "ping_round r =
     (case r of
        Inl err \<Rightarrow> ''[CALL] Some error ocurred pinging: '' @ Error err
      | Inr res \<Rightarrow> ''[CALL] Ping -> '' @ PingResponse_GetBody res)"

text \<open>
  \<open>main\<close> up to \<open>Serve\<close>: the text of \<open>log.Fatalf\<close>, or the server with its service.  \<open>listen\<close> is
  \<open>net.Listen\<close>.
\<close>

definition server_main ::
  "(int \<Rightarrow> Signer \<Rightarrow> bytes res) \<Rightarrow> (string \<Rightarrow> unit res) \<Rightarrow> pk_store \<Rightarrow> chan_store
    \<Rightarrow> (string + (pingServer, ping_message) Server) go"
where
  "server_main create listen st h =
     go_bind (register_clients Clients [] Map.empty) (\<lambda>(pubKeys, clients).
       case listen ''127.0.0.1:1338'' of
         Inl err \<Rightarrow> Ret (Inl (''[MAIN] failed to listen: '' @ Error err))
       | Inr _ \<Rightarrow>
           let s = NewServer (example_options create pubKeys) st h
           in Ret (Inr (Server_register Ping_ServiceDesc \<lparr>ps_clients = clients\<rparr> s)))"

text \<open>
  \<open>pingClientsContinuously\<close>: in every round one call for each registered client, in the order in which
  the map is walked, two seconds for each.  \<open>invoke\<close> is the \<open>Invoke\<close> of the server; a round is a
  list of times, keys and names.
\<close>

definition gnip_ctx :: "int \<Rightarrow> static_key \<Rightarrow> go_ctx" where
  "gnip_ctx now pubKey = (peer_NewCallContext Background pubKey)\<lparr>ctx_Deadline := Some (now + sint (2 * Second))\<rparr>"

definition as_GnipResponse :: "ping_message res \<Rightarrow> GnipResponse option res" where
  "as_GnipResponse r = (case r of Inl err \<Rightarrow> Inl err | Inr m \<Rightarrow> Inr (case m of GnipResponsePtr x \<Rightarrow> x | _ \<Rightarrow> None))"

fun pingClientsContinuously ::
  "(go_ctx \<Rightarrow> string \<Rightarrow> ping_message go_value \<Rightarrow> ping_message go_value \<Rightarrow> ping_message res)
    \<Rightarrow> (int \<times> static_key \<times> string) list list \<Rightarrow> string list"
where
  "pingClientsContinuously invoke [] = []"
| "pingClientsContinuously invoke (clients # rounds) =
     map (\<lambda>(now, pubKey, name).
            gnip_round name (as_GnipResponse
              (genGnipClient_Gnip (invoke (gnip_ctx now pubKey)) (Some \<lparr>GnipRequest_Body = ''Gnip''\<rparr>)))) clients
     @ pingClientsContinuously invoke rounds"

text \<open>
  The goroutine that prints the connections: about to take the notification channel, waiting on it,
  woken.
\<close>

datatype print_pc = PC_Top | PC_Waiting nat | PC_Woken

definition print_connections ::
  "print_pc \<Rightarrow> (pingServer, ping_message) Server
    \<Rightarrow> (static_key list option \<times> print_pc \<times> (pingServer, ping_message) Server) go option"
where
  "print_connections pc s =
     (case pc of
        PC_Top \<Rightarrow> Some (go_bind (GetConnectionNotifyChan s) (\<lambda>(ch, s1). Ret (None, PC_Waiting ch, s1)))
      | PC_Waiting ch \<Rightarrow> if chan_closed ch (srv_chans s) then Some (Ret (None, PC_Woken, s)) else None
      | PC_Woken \<Rightarrow> Some (go_bind (GetConnectedPeerPublicKeys s) (\<lambda>keys. Ret (Some keys, PC_Top, s))))"

text \<open>
  The end of both \<open>main\<close> functions: \<open>signal.Notify\<close> on a channel with one place, which drops what does
  not fit; the goroutine that turns a signal into \<open>done\<close>; and \<open>main\<close> itself, which then runs its
  deferred calls.
\<close>

datatype main_event = MN_Signal | MN_Forward | MN_Return

record main_wait =
  mn_sigs :: nat
  mn_forwarded :: bool
  mn_done :: bool
  mn_returned :: bool

definition main_waiting :: main_wait where
  "main_waiting = \<lparr>mn_sigs = 0, mn_forwarded = False, mn_done = False, mn_returned = False\<rparr>"

definition main_step :: "main_event \<Rightarrow> main_wait \<Rightarrow> main_wait option" where
  "main_step e m =
     (case e of
        MN_Signal \<Rightarrow> Some (if mn_sigs m < 1 then m\<lparr>mn_sigs := mn_sigs m + 1\<rparr> else m)
      | MN_Forward \<Rightarrow> if 0 < mn_sigs m \<and> \<not> mn_forwarded m
          then Some (m\<lparr>mn_sigs := mn_sigs m - 1, mn_forwarded := True, mn_done := True\<rparr>) else None
      | MN_Return \<Rightarrow> if mn_done m \<and> \<not> mn_returned m
          then Some (m\<lparr>mn_done := False, mn_returned := True\<rparr>) else None)"

fun run_main :: "main_event list \<Rightarrow> main_wait \<Rightarrow> main_wait option" where
  "run_main [] m = Some m"
| "run_main (e # es) m = (case main_step e m of None \<Rightarrow> None | Some m1 \<Rightarrow> run_main es m1)"

subsection \<open>The client\<close>

text \<open>\<open>strconv.Atoi\<close> for decimal text, with the range of \<open>int\<close>.\<close>

fun digits_val :: "string \<Rightarrow> int \<Rightarrow> int option" where
  "digits_val [] acc = Some acc"
| "digits_val (c # cs) acc =
     (let n = of_char c :: int
      in if 48 \<le> n \<and> n \<le> 57 then digits_val cs (10 * acc + (n - 48)) else None)"

definition strconv_Atoi :: "string \<Rightarrow> int option" where
  "strconv_Atoi s =
     (let (neg, ds) = (case s of
            c # cs \<Rightarrow> if c = CHR ''-'' then (True, cs) else if c = CHR ''+'' then (False, cs) else (False, s)
          | [] \<Rightarrow> (False, []))
      in if ds = [] then None
         else case digits_val ds 0 of
                None \<Rightarrow> None
              | Some v \<Rightarrow> let i = (if neg then - v else v) in if - (2 ^ 63) \<le> i \<and> i < 2 ^ 63 then Some i else None)"

text \<open>
  \<open>main\<close> up to the dial: the text of \<open>log.Fatalf\<close>, or the options.  An index that no client has
  panics.
\<close>

definition client_main ::
  "(int \<Rightarrow> Signer \<Rightarrow> bytes res) \<Rightarrow> string list \<Rightarrow> (string + DialOption list) go"
where
  "client_main create args =
     (case args of
        [] \<Rightarrow> Ret (Inl ''Must provide the index of the client you wish to run'')
      | arg1 # _ \<Rightarrow>
          (case strconv_Atoi arg1 of
             None \<Rightarrow> Ret (Inl ''arg must be an int'')
           | Some cidx \<Rightarrow>
               if cidx < 0 \<or> int (length Clients) \<le> cidx then Panic IndexOutOfRange
               else let privKey = FromHex (ec_PrivKey (Clients ! nat cidx));
                        serverPubKey = FromHex ServerPubKey
                    in Ret (Inr [WithTransportCreds create privKey serverPubKey, WithBlock])))"

text \<open>\<open>pingContinuously\<close>: a call every round, with the time it starts.\<close>

definition as_PingResponse :: "ping_message res \<Rightarrow> PingResponse option res" where
  "as_PingResponse r = (case r of Inl err \<Rightarrow> Inl err | Inr m \<Rightarrow> Inr (case m of PingResponsePtr x \<Rightarrow> x | _ \<Rightarrow> None))"

fun pingContinuously ::
  "(go_ctx \<Rightarrow> string \<Rightarrow> ping_message go_value \<Rightarrow> ping_message go_value \<Rightarrow> ping_message res) \<Rightarrow> int list \<Rightarrow> string list"
where
  "pingContinuously invoke [] = []"
| "pingContinuously invoke (now # rounds) =
     ping_round (as_PingResponse
       (pingClient_Ping (invoke (Background\<lparr>ctx_Deadline := Some (now + sint (2 * Second))\<rparr>))
         (Some \<lparr>PingRequest_Body = ''ping''\<rparr>)))
     # pingContinuously invoke rounds"

text \<open>\<open>main\<close> after the options: the dial with five seconds, and the handlers of the client.\<close>

definition client_connect ::
  "int \<Rightarrow> DialOption list \<Rightarrow> upd_branch \<Rightarrow> pk_store \<Rightarrow> chan_store
    \<Rightarrow> (string + (unit, ping_message) ClientConn) option"
where
  "client_connect now opts br st h =
     (case DialWithContext (Background\<lparr>ctx_Deadline := Some (now + sint (5 * Second))\<rparr>) ''127.0.0.1:1338'' opts br st h of
        None \<Rightarrow> None
      | Some (Inl err) \<Rightarrow> Some (Inl (Error err))
      | Some (Inr (conn, st1)) \<Rightarrow> Some (Inr (ClientConn_register Gnip_ServiceDesc () conn)))"

subsection \<open>Waiting for the end\<close>

text \<open>\<open>main\<close> returns only after a signal, and after a signal it can return.\<close>

lemma run_main_signal:
  "run_main es m = Some m' \<Longrightarrow> mn_returned m' \<Longrightarrow> mn_returned m \<or> mn_done m \<or> 0 < mn_sigs m \<or> MN_Signal \<in> set es"
  by (induction es arbitrary: m) (auto simp: main_step_def split: main_event.splits option.splits if_splits)

lemma main_ends_by_signal:
  "run_main es main_waiting = Some m \<Longrightarrow> mn_returned m \<Longrightarrow> MN_Signal \<in> set es"
  "\<exists>m. run_main [MN_Signal, MN_Forward, MN_Return] main_waiting = Some m \<and> mn_returned m"
  using run_main_signal [of es main_waiting m] by (auto simp: main_waiting_def main_step_def)

text \<open>
  The printing goroutine is not stopped before the server: woken by a connection that has just opened or
  closed, it asks the stopped server for its connections and panics.
\<close>

lemma print_after_stop_panics:
  "srv_connMgr s = None \<Longrightarrow> print_connections PC_Woken s = Some (Panic NilDereference)"
  by (simp add: print_connections_def GetConnectedPeerPublicKeys_def)

subsection \<open>Who may connect\<close>

abbreviation client_key :: "keys_Client \<Rightarrow> bytes" where
  "client_key c \<equiv> FromHex (ec_PubKey c)"

lemma register_clients_eq:
  "\<forall>c \<in> set cs. ec_RegisteredOnServer c \<longrightarrow> is_static (client_key c) \<Longrightarrow>
     register_clients cs pubKeys clients =
       (let reg = filter ec_RegisteredOnServer cs
        in Ret (pubKeys @ map client_key reg, clients ++ map_of (rev (map (\<lambda>c. (client_key c, ec_Name c)) reg))))"
proof (induction cs arbitrary: pubKeys clients)
  case (Cons c cs)
  have "ToStaticSizedBytes b = Inr b" if "is_static b" for b
    using that by (simp add: ToStaticSizedBytes_def is_static_def copy_def Let_def)
  with Cons show ?case by (simp add: Let_def)
qed simp

lemma length_FromHex: "length (hex_Decode s) \<le> length s div 2" "length (FromHex s) = length s div 2"
proof -
  show "length (hex_Decode s) \<le> length s div 2"
    by (induction s rule: hex_Decode.induct) (auto split: option.split)
  then show "length (FromHex s) = length s div 2" by (simp add: FromHex_def copy_def Let_def)
qed

lemma Clients_lengths:
  "list_all (\<lambda>c. length (ec_PubKey c) = 64 \<and> length (ec_PrivKey c) = 128) Clients" "length ServerPrivKey = 128"
  by (simp_all add: Clients_def ServerPrivKey_def)

lemma Clients_keys:
  "list_all (\<lambda>c. drop 32 (FromHex (ec_PrivKey c)) = client_key c) Clients" "distinct (map client_key Clients)"
  by code_simp+

lemma registered_key:
  assumes "c \<in> set Clients"
  shows "client_key c \<in> client_key ` set (filter ec_RegisteredOnServer Clients) \<longleftrightarrow> ec_RegisteredOnServer c"
  using assms Clients_keys(2) by (auto simp: distinct_map dest: inj_onD)

lemma registered_name:
  assumes "c \<in> set Clients"
  shows "map_of (rev (map (\<lambda>c. (client_key c, ec_Name c)) (filter ec_RegisteredOnServer Clients))) (client_key c)
    = (if ec_RegisteredOnServer c then Some (ec_Name c) else None)"
proof -
  let ?ps = "map (\<lambda>c. (client_key c, ec_Name c)) (filter ec_RegisteredOnServer Clients)"
  have "distinct (map fst (rev ?ps))"
    using Clients_keys(2) by (simp add: rev_map [symmetric] comp_def distinct_map_filter)
  then show ?thesis
    using registered_key [OF assms] assms by (cases "ec_RegisteredOnServer c") (auto simp: map_of_eq_None_iff map_of_eq_Some_iff)
qed



text \<open>
  A \<open>Ping\<close> over the wire: a request that the server has read is answered with pong, whatever the
  peer, and the reply is what the client's \<open>Invoke\<close> returns.  A nil message is encoded as an
  empty one, which is what \<open>proto.Marshal\<close> documents.
\<close>

definition norm_ping :: "ping_message \<Rightarrow> ping_message" where
  "norm_ping m = (case m of
       PingRequestPtr None \<Rightarrow> PingRequestPtr (Some \<lparr>PingRequest_Body = []\<rparr>)
     | PingResponsePtr None \<Rightarrow> PingResponsePtr (Some \<lparr>PingResponse_Body = []\<rparr>)
     | GnipRequestPtr None \<Rightarrow> GnipRequestPtr (Some \<lparr>GnipRequest_Body = []\<rparr>)
     | GnipResponsePtr None \<Rightarrow> GnipResponsePtr (Some \<lparr>GnipResponse_Body = []\<rparr>)
     | _ \<Rightarrow> m)"

lemma Ping_served:
  assumes "decodes wire norm_message" "decodes pb norm_ping" "uuid_parse callID = Inr 4"
    and "pb_marshal pb (PingRequestPtr (Some req)) = Inr payload"
    and "pb_marshal pb (PingResponsePtr (Some \<lparr>PingResponse_Body = ''pong''\<rparr>)) = Inr rp"
    and "NewResponse pb callID (ProtoMessage (PingResponsePtr (Some \<lparr>PingResponse_Body = ''pong''\<rparr>))) None = Inr m"
    and "MarshalProtoMessage wire (ProtoMessage m) = Inr replyB"
  shows "Server_handleMessageRequest uuid_parse pb wire key (Server_register Ping_ServiceDesc srv s)
      (sent_request callID ''Ping'' payload) = Ret (Some replyB)
    \<and> Invoke_result pb (sent_response callID rp None) (ProtoMessage t)
      = Ret (Inr (PingResponsePtr (Some \<lparr>PingResponse_Body = ''pong''\<rparr>)))"
proof
  let ?d = "\<lparr>md_MethodName = ''Ping'', md_Handler = Ping_Ping_Handler\<rparr>"
  have "distinct (map md_MethodName (sd_Methods Ping_ServiceDesc))" "?d \<in> set (sd_Methods Ping_ServiceDesc)"
    by (simp_all add: Ping_ServiceDesc_def)
  from srv_registrar.registered_method [OF this, of srv s] obtain si where
    si: "srv_service (Server_register Ping_ServiceDesc srv s) = Some si" "si_serviceImpl si = srv" "si_methods si ''Ping'' = Some ?d"
    by auto
  have h: "generated_handler new_in meth ctx pc (UnmarshalProtoMessage pb (norm_slice payload))
      = meth ctx pc (PingRequestPtr (Some req))" for new_in and meth :: "pingServer \<Rightarrow> _" and ctx pc
    using generated_handler_runs [OF assms(2,4)] by (simp add: norm_ping_def)
  show "Server_handleMessageRequest uuid_parse pb wire key (Server_register Ping_ServiceDesc srv s)
      (sent_request callID ''Ping'' payload) = Ret (Some replyB)"
    by (rule Server_serves [OF si(1), where d = ?d and out = "PingResponsePtr (Some \<lparr>PingResponse_Body = ''pong''\<rparr>)"
          and herr = None and m = m])
      (simp_all add: si assms(3,6,7) h Ping_Ping_Handler_def pingServer_Ping_def peer_defs Let_def)
  show "Invoke_result pb (sent_response callID rp None) (ProtoMessage t)
      = Ret (Inr (PingResponsePtr (Some \<lparr>PingResponse_Body = ''pong''\<rparr>)))"
    using result_of_response [OF assms(2,5)] by (simp add: call_result_def norm_ping_def)
qed

end
