(* ===== verification/TestUtils.thy ===== *)
theory TestUtils
  imports Client Server
begin

text \<open>
  \<open>intgtest/utils/testutils.go\<close>: the echo service of the integration tests and the helpers that make
  its calls and collect the responses.  A check of \<open>require\<close> that fails ends
  its goroutine: the helpers for keys panic with the error.
  The messages are those of \<open>intgtest/internal/rpcs\<close>.
\<close>

subsection \<open>The echo service\<close>

record EchoRequest =
  EchoRequest_Body :: string
  EchoRequest_DelayMs :: int64

record EchoResponse =
  EchoResponse_Body :: string

definition EchoRequest_GetBody :: "EchoRequest option \<Rightarrow> string" where
  "EchoRequest_GetBody x = (case x of Some r \<Rightarrow> EchoRequest_Body r | None \<Rightarrow> [])"

definition EchoRequest_GetDelayMs :: "EchoRequest option \<Rightarrow> int64" where
  "EchoRequest_GetDelayMs x = (case x of Some r \<Rightarrow> EchoRequest_DelayMs r | None \<Rightarrow> 0)"

definition EchoResponse_GetBody :: "EchoResponse option \<Rightarrow> string" where
  "EchoResponse_GetBody x = (case x of Some r \<Rightarrow> EchoResponse_Body r | None \<Rightarrow> [])"

text \<open>\<open>Echo\<close>: how long it sleeps, if it does, and what it returns.  The product may wrap around.\<close>

definition Millisecond :: duration where
  "Millisecond = 1000000"

definition EchoServer_Echo ::
  "go_ctx \<Rightarrow> EchoRequest \<Rightarrow> duration option \<times> EchoResponse option \<times> go_error option"
where
  "EchoServer_Echo ctx req =
     ((if 0 <s EchoRequest_DelayMs req then Some (EchoRequest_DelayMs req * Millisecond) else None),
      Some \<lparr>EchoResponse_Body = EchoRequest_Body req\<rparr>, None)"

subsection \<open>Keys\<close>

record test_keypair =
  kp_PubKey :: bytes
  kp_PrivKey :: bytes

record test_keys =
  tk_Server :: test_keypair
  tk_Client1 :: test_keypair
  tk_Client2 :: test_keypair

text \<open>\<open>require.NoError\<close> ends the test.\<close>

definition keypair_StaticallySizedPublicKey :: "test_keypair \<Rightarrow> static_key go" where
  "keypair_StaticallySizedPublicKey kp =
     (case ToStaticallySizedPublicKey (kp_PubKey kp) of
        Inl err \<Rightarrow> Panic (PanicWith err)
      | Inr pk \<Rightarrow> Ret pk)"

text \<open>\<open>gen i\<close> is the result of the call number \<open>i\<close> of \<open>ed25519.GenerateKey(nil)\<close>.\<close>

definition GenerateKeys :: "(nat \<Rightarrow> (bytes \<times> bytes) res) \<Rightarrow> test_keys go" where
  "GenerateKeys gen =
     (case gen 0 of
        Inl err \<Rightarrow> Panic (PanicWith err)
      | Inr (sPubKey, sPrivKey) \<Rightarrow>
          (case gen 1 of
             Inl err \<Rightarrow> Panic (PanicWith err)
           | Inr (c1PubKey, c1PrivKey) \<Rightarrow>
               (case gen 2 of
                  Inl err \<Rightarrow> Panic (PanicWith err)
                | Inr (c2PubKey, c2PrivKey) \<Rightarrow>
                    Ret \<lparr>tk_Server = \<lparr>kp_PubKey = sPubKey, kp_PrivKey = sPrivKey\<rparr>,
                         tk_Client1 = \<lparr>kp_PubKey = c1PubKey, kp_PrivKey = c1PrivKey\<rparr>,
                         tk_Client2 = \<lparr>kp_PubKey = c2PubKey, kp_PrivKey = c2PrivKey\<rparr>\<rparr>)))"

subsection \<open>Calls\<close>

record EchoReq =
  er_Timeout :: duration
  er_PubKey :: "static_key option"
  er_Message :: "EchoRequest option"

text \<open>The context of a request; \<open>now\<close> is the time in nanoseconds.\<close>

definition echo_ctx :: "int \<Rightarrow> EchoReq \<Rightarrow> go_ctx" where
  "echo_ctx now req =
     (let ctx = Background;
          ctx1 = (if 0 <s er_Timeout req then ctx\<lparr>ctx_Deadline := Some (now + sint (er_Timeout req))\<rparr> else ctx)
      in case er_PubKey req of None \<Rightarrow> ctx1 | Some pk \<Rightarrow> peer_NewCallContext ctx1 pk)"

text \<open>
  \<open>ProcessEchos\<close>: one goroutine for each request.  \<open>order\<close> is the order in which the calls return; the
  responses go to the channel in that order, and then it is closed.  A goroutine whose call fails marks
  the test as failed, the first component of the result, and ends without sending; the others go on.
\<close>

fun ProcessEchos ::
  "(go_ctx \<Rightarrow> EchoRequest option \<Rightarrow> EchoResponse option res) \<Rightarrow> int \<Rightarrow> EchoReq list
    \<Rightarrow> bool \<times> EchoResponse option list"
where
  "ProcessEchos echo now [] = (False, [])"
| "ProcessEchos echo now (req # order) =
     (let (failed, resps) = ProcessEchos echo now order
      in case echo (echo_ctx now req) (er_Message req) of
           Inl err \<Rightarrow> (True, resps)
         | Inr resp \<Rightarrow> (failed, resp # resps))"

lemma ProcessEchos_length:
  "ProcessEchos echo now order = (failed, resps) \<Longrightarrow>
     (if failed then length resps < length order else length resps = length order)"
  by (induction order arbitrary: failed resps) (auto simp: Let_def split: prod.splits sum.splits if_splits)

text \<open>
  \<open>WaitForResponses\<close>: what its \<open>select\<close> meets in each round, a value of the channel or the timer.  The
  result is \<open>None\<close> while it is still waiting.
\<close>

datatype wait_event = Received "EchoResponse option" | TimerFired

fun wait_loop :: "nat \<Rightarrow> EchoResponse option list \<Rightarrow> nat \<Rightarrow> wait_event list \<Rightarrow> EchoResponse option list option" where
  "wait_loop limit resps i evs =
     (if \<not> i < limit then Some resps
      else case evs of
             [] \<Rightarrow> None
           | Received resp # evs1 \<Rightarrow> wait_loop limit (resps @ [resp]) (i + 1) evs1
           | TimerFired # evs1 \<Rightarrow> Some resps)"

declare wait_loop.simps [simp del]

definition WaitForResponses :: "int \<Rightarrow> wait_event list \<Rightarrow> EchoResponse option list option" where
  "WaitForResponses limit evs = wait_loop (nat limit) [] 0 evs"

lemma wait_loop_received:
  "i \<le> limit \<Longrightarrow> limit - i \<le> length vs \<Longrightarrow>
     wait_loop limit resps i (map Received vs @ evs) = Some (resps @ take (limit - i) vs)"
proof (induction vs arbitrary: resps i)
  case Nil
  then show ?case by (subst wait_loop.simps) simp
next
  case (Cons v vs)
  show ?case
  proof (cases "i < limit")
    case True
    with Cons.prems have "wait_loop limit resps i (map Received (v # vs) @ evs)
        = wait_loop limit (resps @ [v]) (i + 1) (map Received vs @ evs)"
      by (subst wait_loop.simps) simp
    also have "\<dots> = Some ((resps @ [v]) @ take (limit - (i + 1)) vs)"
      using Cons.prems True by (intro Cons.IH) auto
    finally show ?thesis using True by (simp add: take_Cons' Suc_diff_Suc)
  next
    case False
    with Cons.prems show ?thesis by (subst wait_loop.simps) simp
  qed
qed

lemma wait_loop_timer:
  "i + length vs < limit \<Longrightarrow> wait_loop limit resps i (map Received vs @ TimerFired # evs) = Some (resps @ vs)"
proof (induction vs arbitrary: resps i)
  case Nil
  then show ?case by (subst wait_loop.simps) simp
next
  case (Cons v vs)
  then show ?case by (subst wait_loop.simps) simp
qed

text \<open>
  After \<open>ProcessEchos\<close> has closed the channel it is always ready and gives nil, so a limit above the
  number of responses is filled up with nil responses instead of waiting for the timer.
\<close>

lemma responses_padded:
  assumes "ProcessEchos echo now order = (failed, resps)" "length resps \<le> limit"
  shows "WaitForResponses (int limit) (map Received (resps @ replicate (limit - length resps) None))
    = Some (resps @ replicate (limit - length resps) None)"
  using wait_loop_received [of 0 limit "resps @ replicate (limit - length resps) None" "[]" "[]"] assms(2)
  by (simp add: WaitForResponses_def)

subsection \<open>Set-up\<close>

definition targetURI :: string where
  "targetURI = ''127.0.0.1:1338''"

text \<open>
  \<open>SetupClientConnWithOptsAndTimeout\<close> at time \<open>now\<close>: a dial with a deadline; \<open>tlog\<close> is the logger of
  the test.
\<close>

definition SetupClientConnWithOptsAndTimeout ::
  "int \<Rightarrow> duration \<Rightarrow> Logger \<Rightarrow> DialOption list \<Rightarrow> upd_branch \<Rightarrow> pk_store \<Rightarrow> chan_store
    \<Rightarrow> (('i, 'p) ClientConn \<times> pk_store) res option"
where
  "SetupClientConnWithOptsAndTimeout now timeout tlog opts br st h =
     (let ctx = Background\<lparr>ctx_Deadline := Some (now + sint timeout)\<rparr>;
          opts1 = opts @ [WithLogger tlog]
      in DialWithContext ctx targetURI opts1 br st h)"

text \<open>
  \<open>require.Eventually\<close>: the condition is polled until it holds; \<open>None\<close> means that the time is over and
  the test has failed.
\<close>

fun Eventually :: "('a \<Rightarrow> bool) \<Rightarrow> 'a list \<Rightarrow> 'a option" where
  "Eventually cond [] = None"
| "Eventually cond (x # polls) = (if cond x then Some x else Eventually cond polls)"

text \<open>\<open>polls\<close> are the results of \<open>net.Listen\<close>; the listener that succeeded is the last one tried.\<close>

definition SetupServer ::
  "'l res list \<Rightarrow> ServerOption list \<Rightarrow> pk_store \<Rightarrow> chan_store \<Rightarrow> ('l \<times> ('i, 'p) Server) option"
where
  "SetupServer polls opts st h =
     (case Eventually (\<lambda>r. \<not> is_err r) polls of
        Some (Inr lis) \<Rightarrow> Some (lis, NewServer opts st h)
      | _ \<Rightarrow> None)"

text \<open>\<open>WaitForReadyConnection\<close>: whether the test goes on; the connection as each call of \<open>GetState\<close> finds it.\<close>

definition WaitForReadyConnection :: "('i, 'p) ClientConn \<Rightarrow> ('i, 'p) ClientConn list \<Rightarrow> bool" where
  "WaitForReadyConnection conn polls \<longleftrightarrow>
     ClientConn_GetState conn \<noteq> Shutdown \<and> Eventually (\<lambda>c. ClientConn_GetState c = Ready) polls \<noteq> None"

text \<open>The helper takes the first listener it gets, and fails when it gets none.\<close>

lemma SetupServer_first:
  "SetupServer (map Inl es @ Inr lis # polls) opts st h = Some (lis, NewServer opts st h)"
  "SetupServer (map Inl es) opts st h = None"
  by (induction es) (simp_all add: SetupServer_def)

lemma Eventually_None: "Eventually cond polls = None \<longleftrightarrow> (\<forall>x \<in> set polls. \<not> cond x)"
  by (induction polls) simp_all

lemma WaitForReadyConnection_iff:
  "WaitForReadyConnection conn polls \<longleftrightarrow> ClientConn_GetState conn \<noteq> Shutdown \<and> (\<exists>c \<in> set polls. ClientConn_GetState c = Ready)"
  by (simp add: WaitForReadyConnection_def Eventually_None)

end
