(* ===== verification/Spec2Isabelle.thy ===== *)
theory Spec2Isabelle
  imports Event Connectivity Options AddrConn Backoff Client ClientCalls ServerProps Serve Authentication StopTermination ServerCalls
    EndToEndLive ServerEndToEndLive Keepalive UniClient Logging CodegenGrpc Descriptors Mocks Examples TestUtils
begin

text \<open>
  A model of \<open>wsrpc\<close>, a Go library for remote procedure calls over websockets in which both
  ends can call each other, and the theorems that make it correct.

  \<^bold>\<open>The program.\<close>  A client (\<open>client.go\<close>) dials a server and keeps one connection alive: its
  \<open>addrConn\<close> dials, watches the transport, and dials again when it is lost, publishing a
  connectivity state that callers can wait for.  A server (\<open>server.go\<close>) accepts one connection per
  public key, known from the TLS certificate of the client (\<open>credentials\<close>), and files it in its
  connections manager.  On each side a websocket transport (\<open>internal/transport\<close>) runs a read and
  a write pump.  A call is a protobuf message with an id (\<open>internal/message\<close>); the caller waits in
  a table of pending calls (a map in \<open>client.go\<close>, \<open>internal/methods\<close> for the server) until a
  response with that id arrives, and the callee looks the method up in its registered service
  (\<open>service.go\<close>) and writes the reply.  \<open>uni_client.go\<close> is a second, sequential client.  Two plugins
  of the protocol buffer compiler (\<open>cmd\<close>) print the stubs of a service; \<open>examples/simple\<close> is a server
  and a client made with them.

  \<^bold>\<open>The theories\<close>, in the order of dependence:

  \<^item> \<open>Prelude\<close>: Go values the model shares: byte slices with nil, 64-bit integers, errors and
    \<open>res\<close> (a value or an error), \<open>go\<close> (a value or a panic), channels that are closed to notify,
    maps as association lists; and the runs of a step function, which all state machines share.
  \<^item> \<open>Notify\<close>: the contract \<open>notifier\<close> of a state with a notification channel, used by the
    state manager of the client and by the connections manager of the server.
  \<^item> \<open>Event\<close>: \<open>internal/wsrpcsync/event.go\<close>.
  \<^item> \<open>Connectivity\<close>: \<open>connectivity/connectivity.go\<close>, and \<open>connectivityStateManager\<close>,
    \<open>WaitForStateChange\<close> and \<open>WaitForReady\<close> of \<open>client.go\<close>.
  \<^item> \<open>Credentials\<close>: \<open>credentials/tls.go\<close>, \<open>credentials/credentials.go\<close>.
  \<^item> \<open>Message\<close>, \<open>Wire\<close>: the data of \<open>internal/message\<close>, the helpers of \<open>utils.go\<close>, \<open>peer/peer.go\<close>,
    and what is assumed of the protobuf encoding; \<open>WireFormat\<close>: the encoding of \<open>message.proto\<close>;
    \<open>Descriptors\<close>: the raw descriptors of the generated message files.
  \<^item> \<open>Methods\<close>: \<open>internal/methods/methods.go\<close> and the contract \<open>call_table\<close> of a table of
    pending calls, which both endpoints provide.
  \<^item> \<open>Service\<close>: \<open>service.go\<close>, the contract \<open>registrar\<close>, and the shape of generated handlers.
  \<^item> \<open>Transport\<close>: \<open>internal/transport\<close>, with the contracts \<open>pump\<close> and \<open>closable_pump\<close> of the
    two transports; \<open>Keepalive\<close>: their read deadlines, pings and pongs with a clock.
  \<^item> \<open>Options\<close>: \<open>dialoptions.go\<close>, \<open>serveroptions.go\<close>.
  \<^item> \<open>AddrConn\<close>: \<open>addrConn\<close> and \<open>listenForConnectivityChange\<close> of \<open>client.go\<close>.
  \<^item> \<open>Client\<close>: the \<open>ClientConn\<close> of \<open>client.go\<close>; \<open>ClientCalls\<close>: its calls in progress.
  \<^item> \<open>ConnManager\<close>, \<open>Server\<close>, \<open>ServerProps\<close>: the connections of \<open>server.go\<close>; \<open>StopTermination\<close>:
    the runs that end \<open>Stop\<close>; \<open>Serve\<close>: the HTTP servers in front of the handler, the TLS
    handshake, and \<open>Serve\<close>; \<open>Authentication\<close>: a client with its credentials that dials such a server;
    \<open>ServerCalls\<close>: the calls a server makes.
  \<^item> \<open>UniClient\<close>: \<open>uni_client.go\<close>; \<open>Mocks\<close>: the mocks of its tests.
  \<^item> \<open>Rpc\<close> and this theory: both endpoints together, one message at a time; \<open>EndToEnd\<close>: the calls of
    a client, its connections and a server as one system; \<open>ServerEndToEnd\<close>: the calls of a server to
    its clients, some of them hostile; \<open>EndToEndLive\<close>, \<open>ServerEndToEndLive\<close>: the runs that complete a call.
  \<^item> \<open>Backoff\<close>: \<open>internal/backoff\<close>, with the waits of \<open>AddrConn\<close>.
  \<^item> \<open>Logging\<close>: \<open>logger/logger.go\<close>, \<open>wsrpclog/logger.go\<close>.
  \<^item> \<open>Codegen\<close>, \<open>CodegenGrpc\<close>: the plugins under \<open>cmd\<close>; \<open>GeneratedFiles\<close>: their output that is kept in
    the repository, \<open>ping_wsrpc.pb.go\<close> and \<open>rpcs_wsrpc.pb.go\<close>.
  \<^item> \<open>Examples\<close>: \<open>examples/simple\<close>; \<open>TestUtils\<close>: \<open>intgtest/utils\<close>.

  \<^bold>\<open>How state and operations correspond.\<close>  A struct is a record with the fields of the code,
  prefixed by an abbreviation of its type (\<open>ac_\<close> for \<open>addrConn\<close>, \<open>cc_\<close> for \<open>ClientConn\<close>,
  \<open>srv_\<close> for \<open>Server\<close>, and so on); a method is a function of the same name on that record.  A pointer
  to an object that several parts share is an index: transports are numbered in the order of their
  creation, and \<open>PublicKeys\<close> objects and channels live in stores.  A function that can panic has a
  result in \<open>go\<close>.  Where goroutines interleave (\<open>AddrConn\<close>, \<open>ClientCalls\<close>, \<open>Server\<close>,
  \<open>ServerCalls\<close>, \<open>Transport\<close>), each has a program counter, and a step is what runs under one lock
  or between two blocking operations; the result of a step is \<open>None\<close> when it cannot be taken, so
  blocking is visible.  A send inside a critical section is part of its step, which is then enabled
  only when the receiver is ready; only in \<open>ServerCalls\<close>, where that is the point, the lock is a
  component of the state.  A rendezvous on an unbuffered channel is one step of both sides.
  Reachable states are inductive; executions are also functions of a list of events, so that the
  witnesses are concrete runs.  What a network call returns, what the clock does, and which branch a
  \<open>select\<close> takes are given by the event.  Timers may fire at any time, so nothing depends on
  durations but the life of a connection, in \<open>Keepalive\<close>, and the waits between attempts to connect: those of
  \<open>uni_client.go\<close> are computed in 64-bit words, and those of \<open>addrConn\<close> come from the library behind
  \<open>internal/backoff\<close>.  A generator is the
  list of the calls it makes to print.

  \<^bold>\<open>What the lemmas show.\<close>  Each state machine has an invariant that every step keeps, and the
  safety theorems follow from it: no step panics (or only on misuse that is spelled out), pumps and
  wait groups are balanced, a call gets only its own response.  Progress is stated as runs that are
  enabled: a lost connection can be replaced, a response ends the call that waits, a notification is
  not lost, and \<open>Stop\<close> terminates within a bound on its steps.  The tables refine flat maps.
  \<open>EndToEnd\<close> runs the calls of \<open>ClientCalls\<close>, any number of pairs of transports of \<open>Transport\<close> and the
  dispatch of \<open>Server\<close> against each other in every interleaving: a call reaches at most one handler and
  returns only the reply of that handler, and from every reachable state a new call can be completed.
  \<open>ServerEndToEnd\<close> does the same for the calls of a server to any number of clients: a client that
  sends whatever it likes cannot answer a call to another one, and a new call can be completed
  whenever \<open>s.mu\<close> is free.  The lemmas of this theory compose encoder, reader, handler and result.  Only clients whose key was on the
  list are ever connected, in every interleaving of handshakes, key updates and \<open>Stop\<close>, a dial
  succeeds exactly when each side has the key of the other on its list, and \<open>Serve\<close> returns only when no
  connection is left.  The stubs of the repository are what the plugin prints, the
  second plugin prints all that the first prints, the descriptors in the generated message files agree with
  their Go types and with the services the stubs were made for, and messages survive the wire.  A last
  group shows, by concrete runs or for every run, where the code does not do what it is meant to:
  duplicated, revoked and stale connections, a deadlock under \<open>s.mu\<close>, goroutines and transports left
  behind, and errors that are dropped.

  \<^bold>\<open>Bounds.\<close>  No function has fuel.  Loops that may run for ever (the retry loop, the loop of
  \<open>Invoke\<close> in \<open>uni_client.go\<close>, \<open>WaitForReady\<close>, a blocking dial) consume a list of what they
  meet in each round, and the theorems hold for lists of every length; a list that ends early
  means that the loop is still running.

  \<^bold>\<open>Parameters\<close> for code outside the repository: \<open>proto\<close> is \<open>google.golang.org/protobuf\<close>, with
  \<open>decodes\<close> (what is encoded decodes to the same message, empty byte fields to nil) as the only
  hypothesis, which the documented format satisfies (\<open>WireFormat\<close>), and small instances for runs in \<open>Wire\<close>; \<open>parse\<close> and \<open>create\<close> are
  \<open>crypto/x509\<close>, with \<open>certifies\<close> (a certificate made of a key carries it) as hypothesis in
  \<open>Authentication\<close>; \<open>dial\<close> is the websocket dialler; \<open>uuid_parse\<close> is \<open>github.com/google/uuid\<close>.
  A fresh id for every call is what \<open>uuid.NewString\<close> gives.
  \<open>backoff_lib\<close> is \<open>github.com/cenkalti/backoff\<close>, with its documented intervals as hypothesis and an
  instance in \<open>Backoff\<close>; \<open>qual\<close> and the descriptors of \<open>Codegen\<close> are \<open>protogen\<close>; \<open>zap_lib\<close>, \<open>zaptest_lib\<close>
  and the methods that reflection finds are what \<open>logger.go\<close> calls; \<open>listen\<close> is \<open>net.Listen\<close>.

  \<^bold>\<open>Not modelled\<close>: the inside of TLS and of \<open>gorilla/websocket\<close>; the methods of generated
  protobuf files that only call its runtime; how \<open>main\<close> functions parse their command line; the inside of
  \<open>testify\<close>, and the tests.  Writing log lines has no
  effect on a state.
\<close>

section \<open>One call through both endpoints\<close>

text \<open>
  A call from a client to a server does what the method does.  Take a service with distinct
  method names registered on the server, and encoders that decode what they encode.  The request
  that \<open>Invoke\<close> writes is read by the server as a request of this id; the method runs on the
  arguments, with the public key of the client's connection in its context; and the reply the
  server writes is read by the client as the response to this id, from which \<open>Invoke\<close> returns
  the reply of the method, or an error with the text of the method's error.
\<close>

lemma rpc_client_to_server:
  assumes codec: "decodes wire norm_message" "decodes pb norm_p"
    and service: "distinct (map md_MethodName (sd_Methods sd))" "d \<in> set (sd_Methods sd)"
      "md_Handler d = generated_handler new_in meth"
    and uuid: "uuid_parse callID = Inr 4"
    and request: "Invoke_request pb wire callID (md_MethodName d) (ProtoMessage args) = Inr reqB"
    and run: "meth ss (peer_NewContext Background \<lparr>peer_PublicKey = key\<rparr>) (norm_p args) = (ProtoMessage out, herr)"
    and reply: "NewResponse pb callID (ProtoMessage out) herr = Inr m" "MarshalProtoMessage wire (ProtoMessage m) = Inr replyB"
  shows "\<exists>r resp. Server_handleRead wire reqB = SrvHandleRequest r
    \<and> Server_handleMessageRequest uuid_parse pb wire key (Server_register sd ss s) r = Ret (Some replyB)
    \<and> ClientConn_handleRead wire replyB = HandleResponse resp \<and> Response_GetCallId resp = callID
    \<and> Invoke_result pb resp (ProtoMessage t) = Ret (call_result (norm_p out) herr)"
proof -
  from request obtain q where q: "NewRequest pb callID (md_MethodName d) (ProtoMessage args) = Inr q" "pb_marshal wire q = Inr reqB"
    by (auto simp: Invoke_request_def split: sum.splits)
  obtain payload where p: "pb_marshal pb args = Inr payload"
    and read: "Server_handleRead wire reqB = SrvHandleRequest (sent_request callID (md_MethodName d) payload)"
    by (rule request_arrives [OF codec(1) q]) auto
  obtain rp where rp: "pb_marshal pb out = Inr rp" using reply(1) by (auto simp: NewResponse_Inr)
  obtain si where si: "srv_service (Server_register sd ss s) = Some si" "si_serviceImpl si = ss"
    "si_methods si (md_MethodName d) = Some d"
    using srv_registrar.registered_method [OF service(1,2)] by blast
  let ?r = "sent_request callID (md_MethodName d) payload"
  have "Server_handleMessageRequest uuid_parse pb wire key (Server_register sd ss s) ?r = Ret (Some replyB)"
    by (rule Server_serves [OF si(1), where d = d and out = out and herr = herr and m = m])
      (simp_all add: si uuid service(3) generated_handler_runs [OF codec(2) p] run reply)
  with read response_arrives_at_reader [OF codec(1) reply rp] result_of_response [OF codec(2) rp]
  show ?thesis by auto
qed

text \<open>
  A call from a server to a client does what the method does, in the same way: the client
  runs the method with an empty context, and the server gets the reply or the text of the error.
  The public key in the caller's context selects the connection.
\<close>

lemma rpc_server_to_client:
  assumes codec: "decodes wire norm_message" "decodes pb norm_p"
    and service: "distinct (map md_MethodName (sd_Methods sd))" "d \<in> set (sd_Methods sd)"
      "md_Handler d = generated_handler new_in meth"
    and request: "Server_Invoke_request pb wire ctx callID (md_MethodName d) (ProtoMessage args) = Inr (key, reqB)"
    and run: "meth ss Background (norm_p args) = (ProtoMessage out, herr)"
    and reply: "NewResponse pb callID (ProtoMessage out) herr = Inr m" "MarshalProtoMessage wire (ProtoMessage m) = Inr replyB"
  shows "peer_FromContext ctx = Some \<lparr>peer_PublicKey = key\<rparr>
    \<and> (\<exists>r resp. ClientConn_handleRead wire reqB = HandleRequest r
      \<and> ClientConn_handleMessageRequest pb wire (ClientConn_register sd ss cc) r = Ret (Some replyB)
      \<and> Server_handleRead wire replyB = SrvHandleResponse resp \<and> Response_GetCallId resp = callID
      \<and> Server_Invoke_result pb resp (ProtoMessage t) = Ret (call_result (norm_p out) herr))"
proof -
  from request obtain q where q: "NewRequest pb callID (md_MethodName d) (ProtoMessage args) = Inr q" "pb_marshal wire q = Inr reqB"
    and peer: "peer_FromContext ctx = Some \<lparr>peer_PublicKey = key\<rparr>"
    by (auto simp: Server_Invoke_request_def MarshalProtoMessage_def split: sum.splits option.splits)
  obtain payload where p: "pb_marshal pb args = Inr payload"
    and read: "ClientConn_handleRead wire reqB = HandleRequest (sent_request callID (md_MethodName d) payload)"
    by (rule request_arrives [OF codec(1) q]) auto
  obtain rp where rp: "pb_marshal pb out = Inr rp" using reply(1) by (auto simp: NewResponse_Inr)
  obtain si where si: "cc_service (ClientConn_register sd ss cc) = Some si" "si_serviceImpl si = ss"
    "si_methods si (md_MethodName d) = Some d"
    using cc_registrar.registered_method [OF service(1,2)] by blast
  let ?r = "sent_request callID (md_MethodName d) payload"
  have "ClientConn_handleMessageRequest pb wire (ClientConn_register sd ss cc) ?r = Ret (Some replyB)"
    by (rule Client_serves [OF si(1), where d = d and out = out and herr = herr and m = m])
      (simp_all add: si service(3) generated_handler_runs [OF codec(2) p] run reply)
  with read peer response_arrives_at_reader [OF codec(1) reply rp] result_of_response [OF codec(2) rp]
  show ?thesis by auto
qed

text \<open>
  When a request is not answered, on both sides.  An endpoint without a service panics on
  any request.  With a service, a request for an unknown method gets no reply; a server also
  drops a request whose call id is not a version 4 UUID; and when the payload does not decode,
  the generated handler returns its error with a nil value, which cannot be encoded, so the
  error is dropped with the reply and the caller waits until its context is done.
\<close>

lemma unanswered_requests:
  shows "(srv_service s = None \<longrightarrow> Server_handleMessageRequest uuid_parse pb wire key s r = Panic NilDereference)
    \<and> (cc_service cc = None \<longrightarrow> ClientConn_handleMessageRequest pb wire cc r = Panic NilDereference)
    \<and> (\<forall>si. srv_service s = Some si \<and> si_methods si (Request_GetMethod r) = None \<longrightarrow>
         Server_handleMessageRequest uuid_parse pb wire key s r = Ret None)
    \<and> (\<forall>si. cc_service cc = Some si \<and> si_methods si (Request_GetMethod r) = None \<longrightarrow>
         ClientConn_handleMessageRequest pb wire cc r = Ret None)
    \<and> (srv_service s \<noteq> None \<and> uuid_parse (Request_GetCallId r) \<noteq> Inr 4 \<longrightarrow>
         Server_handleMessageRequest uuid_parse pb wire key s r = Ret None)
    \<and> (\<forall>si d. srv_service s = Some si \<and> si_methods si (Request_GetMethod r) = Some d
         \<and> md_Handler d = generated_handler new_in meth
         \<and> is_err (UnmarshalProtoMessage pb (Request_GetPayload r) (ProtoMessage new_in)) \<longrightarrow>
         Server_handleMessageRequest uuid_parse pb wire key s r = Ret None)
    \<and> (\<forall>si d. cc_service cc = Some si \<and> si_methods si (Request_GetMethod r) = Some d
         \<and> md_Handler d = generated_handler new_in meth
         \<and> is_err (UnmarshalProtoMessage pb (Request_GetPayload r) (ProtoMessage new_in)) \<longrightarrow>
         ClientConn_handleMessageRequest pb wire cc r = Ret None)"
  using no_service_panics(1) [of s uuid_parse pb wire key r] no_service_panics(2) [of cc pb wire r] unknown_method_dropped [of cc _ r pb wire]
    invalid_request_dropped [of s _ r uuid_parse pb wire key]
    Server_drops_undecodable [of s _ r _ new_in meth pb uuid_parse wire key]
    Client_drops_undecodable [of cc _ r _ new_in meth pb wire]
  by blast

text \<open>
  An error whose text is not valid UTF-8 is no string of protobuf: the reply cannot be encoded and is
  dropped, on both sides, and the caller waits until its context is done.
\<close>

lemma response_with_invalid_utf8:
  assumes "NewResponse pb callID v (Some e) = Inr m" "\<not> utf8_valid (bytes_of_string (Error e))"
  shows "is_err (MarshalProtoMessage message_wire (ProtoMessage m))"
proof -
  obtain p payload where m: "m = \<lparr>msg_Exchange = Some (Message_Response (Some
      \<lparr>resp_CallId = callID, resp_Payload = payload, resp_Error = Error e\<rparr>))\<rparr>"
    using assms(1) by (auto simp: NewResponse_Inr)
  have "Error e \<in> set (message_strings m)" by (simp add: m message_strings_def)
  then have no: "encode_message m \<noteq> Inr b" for b using encoded_strings_valid [of m b "Error e"] assms(2) by blast
  show ?thesis
  proof (cases "encode_message m")
    case (Inl err)
    then show ?thesis by (simp add: MarshalProtoMessage_def message_wire_def)
  qed (use no in blast)
qed

lemma invalid_utf8_error_unanswered:
  assumes "\<And>ctx dec. md_Handler d srv ctx dec = (v, Some e)" "\<not> utf8_valid (bytes_of_string (Error e))"
  shows "srv_service s = Some si \<Longrightarrow> si_methods si (Request_GetMethod r) = Some d \<Longrightarrow> si_serviceImpl si = srv
      \<Longrightarrow> Server_handleMessageRequest uuid_parse pb message_wire key s r = Ret None"
    and "cc_service cc = Some si \<Longrightarrow> si_methods si (Request_GetMethod r) = Some d \<Longrightarrow> si_serviceImpl si = srv
      \<Longrightarrow> ClientConn_handleMessageRequest pb message_wire cc r = Ret None"
proof -
  have no: "(case NewResponse pb callID v (Some e) of Inl err \<Rightarrow> Ret None
      | Inr msg \<Rightarrow> (case MarshalProtoMessage message_wire (ProtoMessage msg) of Inl err \<Rightarrow> Ret None | Inr b \<Rightarrow> Ret (Some b)))
      = (Ret None :: slice option go)" for callID
    by (auto split: sum.split dest: response_with_invalid_utf8 [OF _ assms(2)])
  show "Server_handleMessageRequest uuid_parse pb message_wire key s r = Ret None"
    if "srv_service s = Some si" "si_methods si (Request_GetMethod r) = Some d" "si_serviceImpl si = srv"
  proof (cases "uuid_parse (Request_GetCallId r) = Inr 4")
    case True
    then show ?thesis
      by (simp add: Server_handleMessageRequest_def validateMessageRequest_def that assms(1) no Let_def)
  next
    case False
    then show ?thesis by (simp add: invalid_request_dropped [OF that(1)])
  qed
  show "ClientConn_handleMessageRequest pb message_wire cc r = Ret None"
    if "cc_service cc = Some si" "si_methods si (Request_GetMethod r) = Some d" "si_serviceImpl si = srv"
    by (simp add: ClientConn_handleMessageRequest_def that assms(1) no Let_def)
qed

end
